(* ===== verification/Trove_Prelude.thy ===== *)
theory Trove_Prelude
  imports
    "HOL-Library.Finite_Map"
    "HOL-Library.List_Lexorder"
    "HOL-Library.Char_ord"
    "HOL-Library.Multiset"
    "HOL-Library.Sublist"
begin

text \<open>
  Shared vocabulary of the development.

  \<^item> Go strings are byte strings, compared bytewise: \<^typ>\<open>string\<close> with the lexicographic
    order of \<open>List_Lexorder\<close> over \<open>Char_ord\<close> is exactly that order.
  \<^item> Go maps are finite maps \<^typ>\<open>('k, 'v) fmap\<close>. A \<open>range\<close> loop over a map visits the entries in
    an unspecified order; every loop of the modelled code either computes an order-independent
    result or sorts afterwards, so the model visits them in key order (\<open>sorted_list_of_fmap\<close>).
  \<^item> \<open>time.Time\<close> is an \<^typ>\<open>int\<close> of nanoseconds since the zero time, so \<open>IsZero\<close> is \<open>t = 0\<close>,
    \<open>Before\<close> is \<open><\<close> and \<open>Add\<close> is \<open>+\<close>; \<open>time.Duration\<close> is an \<^typ>\<open>int\<close> of nanoseconds.
  \<^item> A call that returns \<open>(T, error)\<close> is a value of \<open>error + T\<close>, \<open>Inl\<close> for the error.
  \<^item> The parts of Go's \<open>strings\<close>, \<open>slices\<close> and \<open>regexp\<close> packages the sources use are defined here,
    with the lemmas the components share.
\<close>

named_theorems store_defs \<open>definitions of the store operations\<close>
named_theorems ok_simps \<open>what a successful call says about the branches it took\<close>

type_synonym gotime = int
type_synonym duration = int

text \<open>What \<^verbatim>\<open>ctx.Err()\<close> reports once a context is done.\<close>

datatype ctx_err = Canceled | DeadlineExceeded

section \<open>Strings\<close>

definition HasPrefix :: "string \<Rightarrow> string \<Rightarrow> bool" where
  "HasPrefix s p \<longleftrightarrow> take (length p) s = p"

definition HasSuffix :: "string \<Rightarrow> string \<Rightarrow> bool" where
  "HasSuffix s p \<longleftrightarrow> length p \<le> length s \<and> drop (length s - length p) s = p"

text \<open>\<open>strings.CutPrefix\<close> and \<open>strings.CutSuffix\<close>: \<open>None\<close> when the affix is not there.\<close>

definition CutPrefix :: "string \<Rightarrow> string \<Rightarrow> string option" where
  "CutPrefix s p = (if HasPrefix s p then Some (drop (length p) s) else None)"

definition CutSuffix :: "string \<Rightarrow> string \<Rightarrow> string option" where
  "CutSuffix s p = (if HasSuffix s p then Some (take (length s - length p) s) else None)"

text \<open>\<open>strings.Cut\<close> at a one-byte separator: the part before, the part after and whether the
  separator was found.\<close>

fun Cut :: "string \<Rightarrow> char \<Rightarrow> string \<times> string \<times> bool" where
  "Cut [] c = ([], [], False)"
| "Cut (x # xs) c =
     (if x = c then ([], xs, True)
      else case Cut xs c of (a, b, f) \<Rightarrow> (x # a, b, f))"

text \<open>\<open>strings.Split\<close> at a one-byte separator; never empty.\<close>

fun SplitOn :: "char \<Rightarrow> string \<Rightarrow> string list" where
  "SplitOn c [] = [[]]"
| "SplitOn c (x # xs) =
     (if x = c then [] # SplitOn c xs
      else case SplitOn c xs of [] \<Rightarrow> [[x]] | w # ws \<Rightarrow> (x # w) # ws)"

fun Join :: "string list \<Rightarrow> string \<Rightarrow> string" where
  "Join [] sep = []"
| "Join [w] sep = w"
| "Join (w # v # ws) sep = w @ sep @ Join (v # ws) sep"

lemma HasPrefix_iff: "HasPrefix s p \<longleftrightarrow> (\<exists>r. s = p @ r)"
proof
  assume "HasPrefix s p"
  then have "s = p @ drop (length p) s"
    using append_take_drop_id [of "length p" s] by (simp add: HasPrefix_def)
  then show "\<exists>r. s = p @ r" ..
qed (auto simp: HasPrefix_def)

lemma HasSuffix_iff: "HasSuffix s p \<longleftrightarrow> (\<exists>r. s = r @ p)"
proof
  assume "HasSuffix s p"
  then have "s = take (length s - length p) s @ p"
    using append_take_drop_id [of "length s - length p" s] by (simp add: HasSuffix_def)
  then show "\<exists>r. s = r @ p" ..
qed (auto simp: HasSuffix_def)

lemma CutSuffix_Some [simp]: "CutSuffix s p = Some r \<longleftrightarrow> s = r @ p"
  by (auto simp: CutSuffix_def HasSuffix_iff)

lemma CutSuffix_None: "CutSuffix s p = None \<longleftrightarrow> \<not> HasSuffix s p"
  by (simp add: CutSuffix_def)

lemma CutSuffix_append [simp]: "CutSuffix (r @ p) p = Some r"
  by (subst CutSuffix_Some) (rule refl)

lemma CutSuffix_None_iff: "CutSuffix s p = None \<longleftrightarrow> (\<nexists>r. s = r @ p)"
  by (cases "CutSuffix s p") (simp_all, metis CutSuffix_append option.discI)

lemma CutPrefix_Some [simp]: "CutPrefix s p = Some r \<longleftrightarrow> s = p @ r"
  by (auto simp: CutPrefix_def HasPrefix_iff)

lemma Cut_found: "Cut s c = (a, b, True) \<longleftrightarrow> s = a @ c # b \<and> c \<notin> set a"
proof (induction s arbitrary: a)
  case Nil
  show ?case by simp
next
  case (Cons x s)
  show ?case
  proof (cases "x = c")
    case True
    then show ?thesis by (cases a) auto
  next
    case False
    obtain u v f where cut: "Cut s c = (u, v, f)" by (cases "Cut s c")
    show ?thesis
    proof (cases a)
      case Nil
      with False cut show ?thesis by auto
    next
      case (Cons y ys)
      with False cut Cons.IH [of ys] show ?thesis by auto
    qed
  qed
qed

lemma Cut_notin: "c \<notin> set s \<Longrightarrow> Cut s c = (s, [], False)"
  by (induction s) auto

lemma Cut_in: "c \<in> set s \<Longrightarrow> \<exists>a b. Cut s c = (a, b, True)"
  by (induction s) auto

lemma Cut_missing: "Cut s c = (a, b, False) \<longleftrightarrow> a = s \<and> b = [] \<and> c \<notin> set s"
  using Cut_notin [of c s] Cut_in [of c s] by (cases "c \<in> set s") auto

lemma Cut_cases [case_names found missing]:
  obtains a b where "Cut s c = (a, b, True)" "s = a @ c # b" "c \<notin> set a"
  | "Cut s c = (s, [], False)" "c \<notin> set s"
proof -
  obtain a b f where cut: "Cut s c = (a, b, f)" by (cases "Cut s c")
  show thesis
  proof (cases f)
    case True
    with cut show thesis using that(1) Cut_found [of s c a b] by simp
  next
    case False
    with cut show thesis using that(2) Cut_missing [of s c a b] by simp
  qed
qed

lemma SplitOn_not_Nil [simp]: "SplitOn c s \<noteq> []"
  by (induction s) (auto split: list.splits)

lemma SplitOn_notin: "c \<notin> set s \<Longrightarrow> SplitOn c s = [s]"
  by (induction s) auto

lemma SplitOn_append: "c \<notin> set a \<Longrightarrow> SplitOn c (a @ c # b) = a # SplitOn c b"
  by (induction a) auto

lemma SplitOn_parts_free: "w \<in> set (SplitOn c s) \<Longrightarrow> c \<notin> set w"
proof (induction s arbitrary: w)
  case Nil
  then show ?case by simp
next
  case (Cons x s)
  then show ?case by (cases "SplitOn c s") (auto split: if_splits)
qed

lemma Join_Cons: "ws \<noteq> [] \<Longrightarrow> Join (w # ws) sep = w @ sep @ Join ws sep"
  by (cases ws) auto

lemma Join_SplitOn: "Join (SplitOn c s) [c] = s"
proof (induction s)
  case Nil
  show ?case by simp
next
  case (Cons x s)
  obtain w ws where "SplitOn c s = w # ws" by (cases "SplitOn c s") auto
  with Cons show ?case by (cases ws) auto
qed

lemma SplitOn_Join:
  assumes "ws \<noteq> []" and "\<forall>w \<in> set ws. c \<notin> set w"
  shows "SplitOn c (Join ws [c]) = ws"
  using assms by (induction ws "[c]" rule: Join.induct) (auto simp: SplitOn_notin SplitOn_append)

section \<open>Regular expressions\<close>

text \<open>
  The sources compile fixed, anchored patterns with \<open>regexp.MustCompile\<close>. A pattern is a regular
  expression over byte classes; matching an anchored pattern is membership in its language, decided
  by derivatives.
\<close>

datatype rexp =
    RZero
  | ROne
  | RClass "char \<Rightarrow> bool"
  | RAlt rexp rexp
  | RSeq rexp rexp
  | RStar rexp

definition RPlus :: "rexp \<Rightarrow> rexp" where
  "RPlus r = RSeq r (RStar r)"

definition RChr :: "char \<Rightarrow> rexp" where
  "RChr c = RClass (\<lambda>x. x = c)"

text \<open>Membership, the specification the matcher is proved against.\<close>

inductive in_lang :: "rexp \<Rightarrow> string \<Rightarrow> bool" where
  in_One: "in_lang ROne []"
| in_Class: "P c \<Longrightarrow> in_lang (RClass P) [c]"
| in_AltL: "in_lang r s \<Longrightarrow> in_lang (RAlt r q) s"
| in_AltR: "in_lang q s \<Longrightarrow> in_lang (RAlt r q) s"
| in_Seq: "in_lang r s \<Longrightarrow> in_lang q t \<Longrightarrow> in_lang (RSeq r q) (s @ t)"
| in_Star0: "in_lang (RStar r) []"
| in_StarS: "in_lang r s \<Longrightarrow> in_lang (RStar r) t \<Longrightarrow> in_lang (RStar r) (s @ t)"

inductive_simps in_lang_simps [simp]:
  "in_lang RZero s" "in_lang ROne s" "in_lang (RClass P) s" "in_lang (RAlt r q) s"

inductive_cases in_SeqE [elim!]: "in_lang (RSeq r q) s"
inductive_cases in_StarE: "in_lang (RStar r) s"

fun nullable :: "rexp \<Rightarrow> bool" where
  "nullable RZero = False"
| "nullable ROne = True"
| "nullable (RClass P) = False"
| "nullable (RAlt r q) = (nullable r \<or> nullable q)"
| "nullable (RSeq r q) = (nullable r \<and> nullable q)"
| "nullable (RStar r) = True"

text \<open>Smart constructors keep the derivatives of a concrete run small.\<close>

fun mkAlt :: "rexp \<Rightarrow> rexp \<Rightarrow> rexp" where
  "mkAlt RZero q = q"
| "mkAlt r RZero = r"
| "mkAlt r q = RAlt r q"

fun mkSeq :: "rexp \<Rightarrow> rexp \<Rightarrow> rexp" where
  "mkSeq RZero q = RZero"
| "mkSeq ROne q = q"
| "mkSeq r q = RSeq r q"

fun deriv :: "char \<Rightarrow> rexp \<Rightarrow> rexp" where
  "deriv c RZero = RZero"
| "deriv c ROne = RZero"
| "deriv c (RClass P) = (if P c then ROne else RZero)"
| "deriv c (RAlt r q) = mkAlt (deriv c r) (deriv c q)"
| "deriv c (RSeq r q) =
     (if nullable r then mkAlt (mkSeq (deriv c r) q) (deriv c q) else mkSeq (deriv c r) q)"
| "deriv c (RStar r) = mkSeq (deriv c r) (RStar r)"

fun MatchString :: "rexp \<Rightarrow> string \<Rightarrow> bool" where
  "MatchString r [] = nullable r"
| "MatchString r (c # s) = MatchString (deriv c r) s"

lemma in_mkAlt [simp]: "in_lang (mkAlt r q) s \<longleftrightarrow> in_lang r s \<or> in_lang q s"
  by (cases "(r, q)" rule: mkAlt.cases) auto

lemma in_mkSeq [simp]: "in_lang (mkSeq r q) s \<longleftrightarrow> in_lang (RSeq r q) s"
  by (cases "(r, q)" rule: mkSeq.cases) (auto intro: in_Seq in_lang.intros(5) [of ROne "[]", simplified])

lemma nullable_iff: "nullable r \<longleftrightarrow> in_lang r []"
proof (induction r)
  case (RSeq r q)
  then show ?case using in_Seq [of r "[]" q "[]"] by auto
qed (auto intro: in_Star0)

lemma in_Seq_Cons:
  "in_lang (RSeq r q) (c # s) \<longleftrightarrow>
     (\<exists>u v. s = u @ v \<and> in_lang r (c # u) \<and> in_lang q v) \<or> (in_lang r [] \<and> in_lang q (c # s))"
proof
  assume "in_lang (RSeq r q) (c # s)"
  then obtain x y where "c # s = x @ y" "in_lang r x" "in_lang q y" by auto
  then show "(\<exists>u v. s = u @ v \<and> in_lang r (c # u) \<and> in_lang q v) \<or> (in_lang r [] \<and> in_lang q (c # s))"
    by (cases x) auto
next
  assume "(\<exists>u v. s = u @ v \<and> in_lang r (c # u) \<and> in_lang q v) \<or> (in_lang r [] \<and> in_lang q (c # s))"
  then show "in_lang (RSeq r q) (c # s)"
    using in_Seq [of r "c # _" q] in_Seq [of r "[]" q "c # s"] by auto
qed

lemma in_Star_Cons:
  "in_lang (RStar r) (c # s) \<longleftrightarrow> (\<exists>u v. s = u @ v \<and> in_lang r (c # u) \<and> in_lang (RStar r) v)"
proof
  have "in_lang q w \<Longrightarrow> q = RStar r \<Longrightarrow> w = c # s \<Longrightarrow>
      \<exists>u v. s = u @ v \<and> in_lang r (c # u) \<and> in_lang (RStar r) v" for q w
  proof (induction arbitrary: s rule: in_lang.induct)
    case (in_StarS r' x y)
    then show ?case by (cases x) auto
  qed auto
  then show "in_lang (RStar r) (c # s) \<Longrightarrow>
      \<exists>u v. s = u @ v \<and> in_lang r (c # u) \<and> in_lang (RStar r) v" by blast
next
  assume "\<exists>u v. s = u @ v \<and> in_lang r (c # u) \<and> in_lang (RStar r) v"
  then show "in_lang (RStar r) (c # s)" using in_StarS [of r "c # _"] by auto
qed

lemma in_deriv: "in_lang (deriv c r) s \<longleftrightarrow> in_lang r (c # s)"
proof (induction r arbitrary: s)
  case (RSeq r q)
  have "in_lang (RSeq (deriv c r) q) s \<longleftrightarrow> (\<exists>u v. s = u @ v \<and> in_lang r (c # u) \<and> in_lang q v)"
    using RSeq.IH(1) by (auto intro: in_Seq)
  with RSeq.IH show ?case by (auto simp: in_Seq_Cons nullable_iff)
next
  case (RStar r)
  then show ?case by (auto simp: in_Star_Cons intro: in_Seq)
qed auto

theorem MatchString_iff: "MatchString r s \<longleftrightarrow> in_lang r s"
  by (induction s arbitrary: r) (auto simp: nullable_iff in_deriv)

text \<open>Every byte of a match belongs to some class of the pattern.\<close>

fun rexp_byte :: "rexp \<Rightarrow> char \<Rightarrow> bool" where
  "rexp_byte RZero c = False"
| "rexp_byte ROne c = False"
| "rexp_byte (RClass P) c = P c"
| "rexp_byte (RAlt r q) c = (rexp_byte r c \<or> rexp_byte q c)"
| "rexp_byte (RSeq r q) c = (rexp_byte r c \<or> rexp_byte q c)"
| "rexp_byte (RStar r) c = rexp_byte r c"

lemma in_lang_bytes: "in_lang r s \<Longrightarrow> c \<in> set s \<Longrightarrow> rexp_byte r c"
  by (induction rule: in_lang.induct) auto

text \<open>The language of a separated list: one or more items joined by the separator.\<close>

lemma in_Star_list: "in_lang (RStar r) s \<longleftrightarrow> (\<exists>ws. s = concat ws \<and> (\<forall>w \<in> set ws. in_lang r w))"
proof
  have "in_lang q s \<Longrightarrow> q = RStar r \<Longrightarrow> \<exists>ws. s = concat ws \<and> (\<forall>w \<in> set ws. in_lang r w)" for q
  proof (induction rule: in_lang.induct)
    case (in_Star0 r')
    show ?case by (rule exI [of _ "[]"]) simp
  next
    case (in_StarS r' x y)
    then obtain ws where "y = concat ws" "\<forall>w \<in> set ws. in_lang r w" by auto
    with in_StarS show ?case by (intro exI [of _ "x # ws"]) auto
  qed auto
  then show "in_lang (RStar r) s \<Longrightarrow> \<exists>ws. s = concat ws \<and> (\<forall>w \<in> set ws. in_lang r w)" by blast
next
  assume "\<exists>ws. s = concat ws \<and> (\<forall>w \<in> set ws. in_lang r w)"
  then obtain ws where "s = concat ws" "\<forall>w \<in> set ws. in_lang r w" by blast
  then show "in_lang (RStar r) s"
    by (induction ws arbitrary: s) (auto intro: in_Star0 in_StarS)
qed

lemma in_lang_separated:
  "in_lang (RSeq r (RStar (RSeq (RChr c) r))) s \<longleftrightarrow>
     (\<exists>ws. ws \<noteq> [] \<and> s = Join ws [c] \<and> (\<forall>w \<in> set ws. in_lang r w))"
proof
  assume "in_lang (RSeq r (RStar (RSeq (RChr c) r))) s"
  then obtain w ts where s: "s = w @ concat ts" and w: "in_lang r w"
    and ts: "\<forall>t \<in> set ts. in_lang (RSeq (RChr c) r) t"
    by (auto simp: in_Star_list)
  from ts have "\<exists>ws. concat ts = concat (map (\<lambda>x. c # x) ws) \<and> (\<forall>x \<in> set ws. in_lang r x)"
  proof (induction ts)
    case (Cons t ts)
    then obtain ws where ws: "concat ts = concat (map (\<lambda>x. c # x) ws)" "\<forall>x \<in> set ws. in_lang r x"
      by auto
    from Cons.prems obtain x where "t = c # x" "in_lang r x" by (auto simp: RChr_def)
    with ws show ?case by (intro exI [of _ "x # ws"]) auto
  qed (auto intro: exI [of _ "[]"])
  then obtain ws where ws: "concat ts = concat (map (\<lambda>x. c # x) ws)" "\<forall>x \<in> set ws. in_lang r x"
    by blast
  have "Join (w # ws) [c] = w @ concat (map (\<lambda>x. c # x) ws)"
    by (induction ws arbitrary: w) auto
  with s w ws show "\<exists>ws. ws \<noteq> [] \<and> s = Join ws [c] \<and> (\<forall>w \<in> set ws. in_lang r w)"
    by (intro exI [of _ "w # ws"]) auto
next
  assume "\<exists>ws. ws \<noteq> [] \<and> s = Join ws [c] \<and> (\<forall>w \<in> set ws. in_lang r w)"
  then obtain w ws where s: "s = Join (w # ws) [c]" and all: "\<forall>x \<in> set (w # ws). in_lang r x"
    by (metis list.exhaust)
  have J: "Join (w # ws) [c] = w @ concat (map (\<lambda>x. c # x) ws)"
    by (induction ws arbitrary: w) auto
  have "in_lang (RSeq (RChr c) r) (c # x)" if "x \<in> set ws" for x
    using that all in_Seq [of "RChr c" "[c]" r x] by (auto simp: RChr_def)
  then have "in_lang (RStar (RSeq (RChr c) r)) (concat (map (\<lambda>x. c # x) ws))"
    by (auto simp: in_Star_list intro!: exI [of _ "map (\<lambda>x. c # x) ws"])
  with all show "in_lang (RSeq r (RStar (RSeq (RChr c) r))) s"
    unfolding s J by (auto intro: in_Seq)
qed

section \<open>Finite maps\<close>

abbreviation entries :: "('k::linorder, 'v) fmap \<Rightarrow> ('k \<times> 'v) list" where
  "entries \<equiv> sorted_list_of_fmap"

definition keys_of :: "('k::linorder, 'v) fmap \<Rightarrow> 'k list" where
  "keys_of m = map fst (entries m)"

lemma keys_of_eq: "keys_of m = sorted_list_of_fset (fmdom m)"
  by (simp add: keys_of_def sorted_list_of_fmap_def comp_def)

lemma set_keys_of [simp]: "set (keys_of m) = {k. \<exists>v. fmlookup m k = Some v}"
  by (auto simp: keys_of_eq fmlookup_dom_iff)

lemma sorted_keys_of [simp]: "sorted (keys_of m)" and distinct_keys_of [simp]: "distinct (keys_of m)"
  by (simp_all add: keys_of_eq sorted_list_of_fset.rep_eq)

lemma distinct_entries [simp]: "distinct (map fst (entries m))"
  using distinct_keys_of [of m] by (simp add: keys_of_def)

lemma set_entries [simp]: "set (entries m) = {(k, v). fmlookup m k = Some v}"
proof -
  have "(k, v) \<in> set (entries m) \<longleftrightarrow> map_of (entries m) k = Some v" for k v
    by (simp only: map_of_eq_Some_iff [OF distinct_entries])
  then show ?thesis by (auto simp: map_of_sorted_list)
qed

lemma entries_empty [simp]: "entries fmempty = []"
  by (simp add: sorted_list_of_fmap_def sorted_list_of_fset.rep_eq)

text \<open>Deleting entries while ranging over a map keeps exactly the entries that fail the test.\<close>

definition keep_entries :: "('k::linorder \<Rightarrow> 'v \<Rightarrow> bool) \<Rightarrow> ('k, 'v) fmap \<Rightarrow> ('k, 'v) fmap" where
  "keep_entries P m = fmap_of_list (filter (\<lambda>(k, v). P k v) (entries m))"

lemma map_of_filter_distinct:
  "distinct (map fst xs) \<Longrightarrow>
     map_of (filter (\<lambda>(k, v). P k v) xs) k =
       (case map_of xs k of None \<Rightarrow> None | Some v \<Rightarrow> if P k v then Some v else None)"
proof (induction xs)
  case (Cons x xs)
  have "map_of xs (fst x) = None"
    using Cons.prems by (auto simp: map_of_eq_None_iff)
  with Cons show ?case by (cases x) (auto split: option.splits)
qed simp

lemma lookup_keep_entries [simp]:
  "fmlookup (keep_entries P m) k =
     (case fmlookup m k of None \<Rightarrow> None | Some v \<Rightarrow> if P k v then Some v else None)"
  by (simp add: keep_entries_def fmlookup_of_list map_of_filter_distinct map_of_sorted_list)

text \<open>Maps of maps: reading through a missing inner map misses, and deleting there does nothing.\<close>

definition lookup2 :: "('a, ('k, 'v) fmap) fmap \<Rightarrow> 'a \<Rightarrow> 'k \<Rightarrow> 'v option" where
  "lookup2 m r k = (case fmlookup m r of None \<Rightarrow> None | Some i \<Rightarrow> fmlookup i k)"

definition inner :: "('a, ('k, 'v) fmap) fmap \<Rightarrow> 'a \<Rightarrow> ('k, 'v) fmap" where
  "inner m r = (case fmlookup m r of None \<Rightarrow> fmempty | Some i \<Rightarrow> i)"

definition put2 :: "'a \<Rightarrow> 'k \<Rightarrow> 'v \<Rightarrow> ('a, ('k, 'v) fmap) fmap \<Rightarrow> ('a, ('k, 'v) fmap) fmap" where
  "put2 r k v m = fmupd r (fmupd k v (inner m r)) m"

definition del2 :: "'a \<Rightarrow> 'k \<Rightarrow> ('a, ('k, 'v) fmap) fmap \<Rightarrow> ('a, ('k, 'v) fmap) fmap" where
  "del2 r k m = (case fmlookup m r of None \<Rightarrow> m | Some i \<Rightarrow> fmupd r (fmdrop k i) m)"

lemma lookup2_inner: "lookup2 m r k = fmlookup (inner m r) k"
  by (simp add: lookup2_def inner_def split: option.splits)

lemma lookup2_put2 [simp]:
  "lookup2 (put2 r k v m) r' k' = (if r' = r \<and> k' = k then Some v else lookup2 m r' k')"
  by (auto simp: lookup2_def put2_def inner_def split: option.splits)

lemma lookup2_del2 [simp]:
  "lookup2 (del2 r k m) r' k' = (if r' = r \<and> k' = k then None else lookup2 m r' k')"
  by (auto simp: lookup2_def del2_def split: option.splits)

lemma lookup2_empty [simp]: "lookup2 fmempty r k = None"
  by (simp add: lookup2_def)

lemma inner_empty [simp]: "inner fmempty r = fmempty"
  by (simp add: inner_def)

lemma lookup2_SomeD: "lookup2 m r k = Some v \<Longrightarrow> \<exists>i. fmlookup m r = Some i \<and> fmlookup i k = Some v"
  by (auto simp: lookup2_def split: option.splits)

lemma fmdom_put2 [simp]: "fmlookup (put2 r k v m) r' = None \<longleftrightarrow> r' \<noteq> r \<and> fmlookup m r' = None"
  by (auto simp: put2_def)

lemma fmdom_del2 [simp]: "fmlookup (del2 r k m) r' = None \<longleftrightarrow> fmlookup m r' = None"
  by (auto simp: del2_def split: option.splits)

text \<open>Well-formedness of a nested map: its outer keys and its rows.\<close>

definition rows_ok ::
    "('a \<Rightarrow> bool) \<Rightarrow> ('a \<Rightarrow> 'k \<Rightarrow> 'v \<Rightarrow> bool) \<Rightarrow> ('a, ('k, 'v) fmap) fmap \<Rightarrow> bool" where
  "rows_ok P Q m \<longleftrightarrow>
    (\<forall>c. fmlookup m c = None \<or> P c) \<and> (\<forall>c k v. lookup2 m c k = Some v \<longrightarrow> Q c k v)"

lemma rows_ok_empty [simp, intro]: "rows_ok P Q fmempty"
  by (simp add: rows_ok_def lookup2_def)

lemma rows_ok_put2 [intro]: "rows_ok P Q m \<Longrightarrow> P c \<Longrightarrow> Q c k v \<Longrightarrow> rows_ok P Q (put2 c k v m)"
  by (auto simp: rows_ok_def)

lemma rows_ok_del2 [intro]: "rows_ok P Q m \<Longrightarrow> rows_ok P Q (del2 c k m)"
  by (auto simp: rows_ok_def)

lemma rows_ok_new [intro]: "rows_ok P Q m \<Longrightarrow> P c \<Longrightarrow> rows_ok P Q (fmupd c fmempty m)"
  by (auto simp: rows_ok_def lookup2_def)

lemma lookup2_fmfilter: "lookup2 (fmfilter keep m) c k = (if keep c then lookup2 m c k else None)"
  by (simp add: lookup2_def)

lemma rows_ok_filter:
  assumes "rows_ok P Q m" and keep: "\<And>c. P c \<Longrightarrow> fmlookup m c \<noteq> None \<Longrightarrow> keep c \<Longrightarrow> P' c"
  shows "rows_ok P' Q (fmfilter keep m)"
proof -
  have "fmlookup m c = None \<or> P' c" if "keep c" for c
    using assms(1) keep [of c] that by (cases "fmlookup m c = None") (simp_all add: rows_ok_def, blast)
  then show ?thesis using assms(1) by (simp add: rows_ok_def lookup2_fmfilter)
qed

lemma rows_ok_mono: "rows_ok P Q m \<Longrightarrow> (\<And>c. P c \<Longrightarrow> P' c) \<Longrightarrow> rows_ok P' Q m"
  by (auto simp: rows_ok_def)

lemma rows_okD:
  assumes "rows_ok P Q m" "lookup2 m c k = Some v"
  shows "Q c k v" "P c"
proof -
  show "Q c k v" using assms by (simp add: rows_ok_def)
  obtain i where "fmlookup m c = Some i" using lookup2_SomeD [OF assms(2)] by blast
  then show "P c" using assms(1) by (metis option.discI rows_ok_def)
qed

text \<open>Two nested maps with the same keys at both levels.\<close>

definition same_keys :: "('a, ('k, 'v) fmap) fmap \<Rightarrow> ('a, ('k, 'w) fmap) fmap \<Rightarrow> bool" where
  "same_keys m r \<longleftrightarrow>
    (\<forall>c. fmlookup r c = None \<longleftrightarrow> fmlookup m c = None) \<and>
    (\<forall>c k. lookup2 r c k = None \<longleftrightarrow> lookup2 m c k = None)"

lemma same_keys_empty [simp, intro]: "same_keys fmempty fmempty"
  by (simp add: same_keys_def lookup2_def)

lemma same_keys_put2 [intro]: "same_keys m r \<Longrightarrow> same_keys (put2 c k v m) (put2 c k w r)"
  by (auto simp: same_keys_def)

lemma same_keys_del2 [intro]: "same_keys m r \<Longrightarrow> same_keys (del2 c k m) (del2 c k r)"
  by (auto simp: same_keys_def)

lemma same_keys_new [intro]: "same_keys m r \<Longrightarrow> same_keys (fmupd c fmempty m) (fmupd c fmempty r)"
  by (auto simp: same_keys_def lookup2_def)

lemma same_keys_filter [intro]: "same_keys m r \<Longrightarrow> same_keys (fmfilter keep m) (fmfilter keep r)"
  by (auto simp: same_keys_def lookup2_fmfilter)

lemma same_keys_overwrite: "same_keys m r \<Longrightarrow> lookup2 m c k \<noteq> None \<Longrightarrow> same_keys (put2 c k v m) r"
  by (auto simp: same_keys_def dest: lookup2_SomeD)

lemma fmpred_keep_entries [intro]: "fmpred P m \<Longrightarrow> fmpred P (keep_entries keep m)"
  by (auto simp: fmpred_iff split: if_splits option.splits)

lemma fmpred_update:
  "fmpred P m \<Longrightarrow> fmlookup m k = Some v \<Longrightarrow> (P k v \<Longrightarrow> P k w) \<Longrightarrow> fmpred P (fmupd k w m)"
  by (auto simp: fmpred_iff)

lemma fmpredD: "fmpred P m \<Longrightarrow> fmlookup m k = Some v \<Longrightarrow> P k v"
  by (simp add: fmpred_iff)

text \<open>A column of a map whose values do not repeat.\<close>

definition unique_on :: "('v \<Rightarrow> 'c) \<Rightarrow> ('k, 'v) fmap \<Rightarrow> bool" where
  "unique_on f m \<longleftrightarrow>
    (\<forall>i j a b. fmlookup m i = Some a \<longrightarrow> fmlookup m j = Some b \<longrightarrow> f a = f b \<longrightarrow> i = j)"

lemma unique_on_insert:
  "unique_on f m \<Longrightarrow> \<forall>k v. fmlookup m k = Some v \<longrightarrow> f v \<noteq> f x \<Longrightarrow> unique_on f (fmupd k x m)"
  by (fastforce simp: unique_on_def)

lemma unique_on_update:
  "unique_on f m \<Longrightarrow> fmlookup m k = Some v \<Longrightarrow> f w = f v \<Longrightarrow> unique_on f (fmupd k w m)"
  by (fastforce simp: unique_on_def)

lemma unique_on_drop: "unique_on f m \<Longrightarrow> unique_on f (fmdrop k m)"
  by (auto simp: unique_on_def)

lemma unique_on_keep: "unique_on f m \<Longrightarrow> unique_on f (keep_entries P m)"
  by (fastforce simp: unique_on_def split: option.splits if_splits)

lemma fmpred_fmupd_iff: "fmpred P (fmupd k v m) \<longleftrightarrow> P k v \<and> fmpred P (fmdrop k m)"
  by (auto simp: fmpred_iff)

lemma fmpred_fmdrop: "fmpred P m \<Longrightarrow> fmpred P (fmdrop k m)"
  by (auto simp: fmpred_iff)

text \<open>What keeps a well-formed map well formed.\<close>

lemmas keep_simps = fmpred_fmupd_iff fmpred_fmdrop fmpred_keep_entries rows_ok_put2 rows_ok_del2
  rows_ok_new same_keys_put2 same_keys_del2 same_keys_new unique_on_drop unique_on_keep

section \<open>Sorting\<close>

text \<open>
  \<open>sort.Slice\<close> and \<open>slices.SortFunc\<close> return some sorted permutation. Where the key is injective on
  the slice there is only one, which is the reason a listing does not depend on map order.
\<close>

lemma sort_key_unique:
  assumes "mset xs = mset ys" and "inj_on f (set xs)"
  shows "sort_key f xs = sort_key f ys"
  by (rule sort_key_inj_key_eq) (use assms in simp_all)

section \<open>Loops that stop at the first failure\<close>

text \<open>\<open>for _, x := range xs { if err := check(x); err != nil { return err } }\<close>\<close>

fun first_error :: "('a \<Rightarrow> 'e option) \<Rightarrow> 'a list \<Rightarrow> 'e option" where
  "first_error f [] = None"
| "first_error f (x # xs) = (case f x of Some e \<Rightarrow> Some e | None \<Rightarrow> first_error f xs)"

lemma first_error_None [simp]: "first_error f xs = None \<longleftrightarrow> (\<forall>x \<in> set xs. f x = None)"
  by (induction xs) (auto split: option.splits)

lemma first_error_SomeD: "first_error f xs = Some e \<Longrightarrow> \<exists>x \<in> set xs. f x = Some e"
  by (induction xs) (auto split: option.splits)

section \<open>Cursor pagination\<close>

text \<open>
  Every listing of the store ends with the same loop: take names in order until the page is full,
  and then leave the last name taken as the cursor of the next page. \<open>page_loop\<close> is that loop, with
  the counter and the previous name as its state.
\<close>

fun page_loop :: "nat \<Rightarrow> nat \<Rightarrow> string \<Rightarrow> string list \<Rightarrow> string list \<times> string" where
  "page_loop limit i prev [] = ([], [])"
| "page_loop limit i prev (n # ns) =
     (if i = limit then ([], prev)
      else case page_loop limit (Suc i) n ns of (ms, next) \<Rightarrow> (n # ms, next))"

definition page_names :: "nat \<Rightarrow> string list \<Rightarrow> string list \<times> string" where
  "page_names limit ns = page_loop limit 0 [] ns"

lemma page_loop_eq:
  "i \<le> limit \<Longrightarrow> page_loop limit i prev ns =
     (take (limit - i) ns,
      if length ns \<le> limit - i then [] else (if limit = i then prev else ns ! (limit - i - 1)))"
proof (induction ns arbitrary: i prev)
  case (Cons n ns)
  show ?case
  proof (cases "i = limit")
    case False
    with Cons.prems have "Suc i \<le> limit" by simp
    with False Cons.IH [of "Suc i" n] show ?thesis
      by (auto simp: take_Cons' nth_Cons' Suc_diff_Suc)
  qed simp
qed simp

lemma page_names_eq:
  "0 < limit \<Longrightarrow> page_names limit ns =
     (take limit ns, if length ns \<le> limit then [] else ns ! (limit - 1))"
  by (simp add: page_names_def page_loop_eq)

text \<open>
  A client that follows the cursors from the empty one: \<open>walk page fuel cursor\<close> fetches at most
  \<open>fuel\<close> pages and concatenates them.
\<close>

fun walk :: "(string \<Rightarrow> string list \<times> string) \<Rightarrow> nat \<Rightarrow> string \<Rightarrow> string list option" where
  "walk page 0 cursor = None"
| "walk page (Suc fuel) cursor =
     (case page cursor of (ns, next) \<Rightarrow>
        if next = [] then Some ns else map_option ((@) ns) (walk page fuel next))"

text \<open>
  What a keyset listing promises its clients: one page is the first \<open>limit\<close> keys after the cursor,
  in order, and the next cursor is the last of them when more follow.
\<close>

locale keyset_listing =
  fixes page :: "string \<Rightarrow> string list \<times> string"
    and visible :: "string list"
    and limit :: nat
  assumes limit_pos: "0 < limit"
    and visible_sorted: "sorted visible" "distinct visible"
    and page_eq: "page cursor = page_names limit (filter (\<lambda>n. cursor < n) visible)"
begin

lemma page_items: "fst (page cursor) = take limit (filter (\<lambda>n. cursor < n) visible)"
  by (simp add: page_eq page_names_eq limit_pos)

lemma page_sound: "n \<in> set (fst (page cursor)) \<Longrightarrow> n \<in> set visible \<and> cursor < n"
  by (auto simp: page_items dest: in_set_takeD)

lemma cursor_visible: "snd (page cursor) \<noteq> [] \<Longrightarrow> snd (page cursor) \<in> set visible"
  by (auto simp: page_eq page_names_eq limit_pos split: if_splits)
     (metis filter_is_subset less_imp_diff_less not_le_imp_less nth_mem subsetD)

lemma rest_after_page:
  assumes "\<not> length (filter (\<lambda>n. cursor < n) visible) \<le> limit"
  shows "filter (\<lambda>n. snd (page cursor) < n) visible = drop limit (filter (\<lambda>n. cursor < n) visible)"
proof -
  let ?vs = "filter (\<lambda>n. cursor < n) visible"
  let ?c = "?vs ! (limit - 1)"
  have c: "snd (page cursor) = ?c"
    using assms limit_pos by (simp add: page_eq page_names_eq)
  have srt: "sorted ?vs" "distinct ?vs" using visible_sorted by (simp_all add: sorted_wrt_filter)
  have idx: "limit - 1 < length ?vs" using assms by simp
  have "cursor < ?c" using nth_mem [OF idx] by simp
  then have "filter (\<lambda>n. ?c < n) visible = filter (\<lambda>n. ?c < n) ?vs"
    by (auto intro!: filter_cong)
  also have "\<dots> = filter (\<lambda>n. ?c < n) (take limit ?vs @ drop limit ?vs)" by simp
  also have "\<dots> = filter (\<lambda>n. ?c < n) (take limit ?vs) @ filter (\<lambda>n. ?c < n) (drop limit ?vs)"
    by (simp only: filter_append)
  also have "filter (\<lambda>n. ?c < n) (take limit ?vs) = []"
  proof -
    have "\<not> ?c < x" if "x \<in> set (take limit ?vs)" for x
    proof -
      from that obtain i where i: "i < limit" "i < length ?vs" "x = ?vs ! i"
        by (auto simp: in_set_conv_nth)
      then have "x \<le> ?c" using sorted_nth_mono [OF srt(1), of i "limit - 1"] idx by simp
      then show ?thesis by simp
    qed
    then show ?thesis by (simp add: filter_empty_conv)
  qed
  also have "filter (\<lambda>n. ?c < n) (drop limit ?vs) = drop limit ?vs"
  proof -
    have "?c < x" if "x \<in> set (drop limit ?vs)" for x
    proof -
      from that obtain i where i: "i < length ?vs - limit" "x = ?vs ! (limit + i)"
        by (auto simp: in_set_conv_nth)
      then have "?c \<le> x" using sorted_nth_mono [OF srt(1), of "limit - 1" "limit + i"] by simp
      moreover have "?c \<noteq> x"
        using i idx limit_pos srt(2) by (auto simp: nth_eq_iff_index_eq)
      ultimately show ?thesis by simp
    qed
    then show ?thesis by (simp add: filter_id_conv)
  qed
  finally show ?thesis using c by simp
qed

text \<open>Following the cursors lists every visible key once, in order, in finitely many pages.\<close>

lemma walk_complete:
  "length (filter (\<lambda>n. cursor < n) visible) < fuel \<Longrightarrow>
     (\<forall>n \<in> set visible. n \<noteq> []) \<Longrightarrow>
     walk page fuel cursor = Some (filter (\<lambda>n. cursor < n) visible)"
proof (induction fuel arbitrary: cursor)
  case (Suc fuel)
  let ?vs = "filter (\<lambda>n. cursor < n) visible"
  show ?case
  proof (cases "length ?vs \<le> limit")
    case True
    then show ?thesis by (simp add: page_eq page_names_eq limit_pos)
  next
    case False
    let ?c = "snd (page cursor)"
    have c: "?c = ?vs ! (limit - 1)" using False limit_pos by (simp add: page_eq page_names_eq)
    then have "?c \<in> set ?vs" using False by (simp del: set_filter)
    then have ne: "?c \<noteq> []" using Suc.prems(2) by auto
    have rest: "filter (\<lambda>n. ?c < n) visible = drop limit ?vs"
      by (rule rest_after_page [OF False])
    have "length (filter (\<lambda>n. ?c < n) visible) < fuel"
      using rest Suc.prems(1) False limit_pos by simp
    then have "walk page fuel ?c = Some (drop limit ?vs)"
      using Suc.IH [of ?c] Suc.prems(2) rest by simp
    moreover obtain ns nx where pg: "page cursor = (ns, nx)" by (cases "page cursor")
    moreover have "ns = take limit ?vs" using page_items [of cursor] pg by simp
    ultimately show ?thesis using ne append_take_drop_id [of limit ?vs] by simp
  qed
qed simp

end

section \<open>Signed 64-bit integers\<close>

text \<open>What an \<^verbatim>\<open>int64\<close> holds after an addition whose exact result is \<open>n\<close>: two's complement wraps
  around. Wrapping after every addition of a sum is wrapping the sum.\<close>

definition wrap64 :: "int \<Rightarrow> int" where
  "wrap64 n = (n + 2 ^ 63) mod 2 ^ 64 - 2 ^ 63"

lemma wrap64_range: "- (2 ^ 63) \<le> wrap64 n" "wrap64 n < 2 ^ 63"
  by (simp_all add: wrap64_def)

lemma wrap64_id [simp]: "- (2 ^ 63) \<le> n \<Longrightarrow> n < 2 ^ 63 \<Longrightarrow> wrap64 n = n"
  by (simp add: wrap64_def)

lemma wrap64_add [simp]: "wrap64 (wrap64 a + b) = wrap64 (a + b)" "wrap64 (a + wrap64 b) = wrap64 (a + b)"
proof -
  have "(((a + 2 ^ 63) mod 2 ^ 64 - 2 ^ 63) + b + 2 ^ 63) mod 2 ^ 64 = (a + b + 2 ^ 63) mod (2 ^ 64 :: int)" for a b :: int
    using mod_add_left_eq [of "a + 2 ^ 63" "2 ^ 64" b] by (simp add: algebra_simps)
  then have "wrap64 (wrap64 a + b) = wrap64 (a + b)" for a b by (simp add: wrap64_def)
  then show "wrap64 (wrap64 a + b) = wrap64 (a + b)" "wrap64 (a + wrap64 b) = wrap64 (a + b)"
    by (simp, metis add.commute)
qed

lemma wrap64_twice: "wrap64 (wrap64 a) = wrap64 a"
  using wrap64_add(1) [of a 0] by simp

lemma wrap64_overflow: "wrap64 (2 ^ 63 - 1 + 1) = - (2 ^ 63)"
  by (simp add: wrap64_def)

end
