(* ===== verification/Repo_Name.thy ===== *)
theory Repo_Name
  imports Trove_Prelude
begin

text \<open>
  The repository-name grammar (\<open>src/internal/reponame/reponame.go\<close>) and the routing helpers built on
  it (\<open>src/internal/repo/repo.go\<close>): which names are legal, how a name divides into the entity it
  routes to and the remainder inside it, and which names an entity may take.

  A refusal carries the refused name; the human-readable reason is not modelled. \<open>ToLower\<close> is
  modelled on ASCII: a name with a byte outside it is refused by the pattern whatever \<open>ToLower\<close> does
  to it, so the set of accepted names is unaffected.
\<close>

section \<open>The grammar\<close>

definition MaxLength :: nat where
  "MaxLength = 255"

definition is_alnum :: "char \<Rightarrow> bool" where
  "is_alnum c \<longleftrightarrow> (CHR ''a'' \<le> c \<and> c \<le> CHR ''z'') \<or> (CHR ''0'' \<le> c \<and> c \<le> CHR ''9'')"

definition alphanumeric :: rexp where
  "alphanumeric = RPlus (RClass is_alnum)"

definition separator :: rexp where
  "separator = RAlt (RClass (\<lambda>c. c = CHR ''.'' \<or> c = CHR ''_''))
     (RAlt (RSeq (RChr CHR ''_'') (RChr CHR ''_'')) (RPlus (RChr CHR ''-'')))"

definition path_component :: rexp where
  "path_component = RSeq alphanumeric (RStar (RSeq separator alphanumeric))"

definition pattern :: rexp where
  "pattern = RSeq path_component (RStar (RSeq (RChr CHR ''/'') path_component))"

datatype name_error = InvalidName string

definition to_lower_char :: "char \<Rightarrow> char" where
  "to_lower_char c =
     (if CHR ''A'' \<le> c \<and> c \<le> CHR ''Z''
      then case c of Char b0 b1 b2 b3 b4 b5 b6 b7 \<Rightarrow> Char b0 b1 b2 b3 b4 True b6 b7
      else c)"

definition ToLower :: "string \<Rightarrow> string" where
  "ToLower s = map to_lower_char s"

definition Validate_name :: "string \<Rightarrow> name_error option" where
  "Validate_name name =
     (if name = [] then Some (InvalidName name)
      else if MaxLength < length name then Some (InvalidName name)
      else if ToLower name \<noteq> name then Some (InvalidName name)
      else if \<not> MatchString pattern name then Some (InvalidName name)
      else None)"

definition Valid_name :: "string \<Rightarrow> bool" where
  "Valid_name name \<longleftrightarrow> Validate_name name = None"

definition Segments :: "string \<Rightarrow> string list" where
  "Segments name = SplitOn CHR ''/'' name"

definition Prefix :: "string \<Rightarrow> string" where
  "Prefix name =
     (case Cut name CHR ''/'' of (first, _, found) \<Rightarrow> if \<not> found then name else first)"

section \<open>Entities and remainders\<close>

definition ReservedPrefix :: string where
  "ReservedPrefix = ''system''"

definition Split :: "string \<Rightarrow> name_error + (string \<times> string)" where
  "Split name =
     (case Validate_name name of
        Some e \<Rightarrow> Inl e
      | None \<Rightarrow> (case Cut name CHR ''/'' of (entity, remainder, _) \<Rightarrow> Inr (entity, remainder)))"

definition ValidateEntityName :: "string \<Rightarrow> name_error option" where
  "ValidateEntityName name =
     (case Validate_name name of
        Some e \<Rightarrow> Some e
      | None \<Rightarrow>
          if CHR ''/'' \<in> set name then Some (InvalidName name)
          else if name = ReservedPrefix then Some (InvalidName name)
          else None)"

section \<open>The shape of legal names\<close>

lemma to_lower_alnum [simp]: "is_alnum c \<Longrightarrow> to_lower_char c = c"
proof -
  assume "is_alnum c"
  moreover have "CHR ''Z'' < CHR ''a''" "CHR ''9'' < CHR ''A''" by simp_all
  ultimately have "\<not> (CHR ''A'' \<le> c \<and> c \<le> CHR ''Z'')"
    unfolding is_alnum_def by (metis leD order_trans)
  then show ?thesis by (simp only: to_lower_char_def if_False)
qed

lemma to_lower_punct: "c \<in> set ''._-/'' \<Longrightarrow> to_lower_char c = c"
  by (auto simp: to_lower_char_def)

lemma alnum_not_special:
  "is_alnum c \<Longrightarrow> c \<noteq> CHR ''/'' \<and> c \<noteq> CHR ''.'' \<and> c \<noteq> CHR ''*'' \<and> c \<noteq> CHR '':''"
  by (auto simp: is_alnum_def)

lemma in_alphanumeric: "in_lang alphanumeric w \<longleftrightarrow> w \<noteq> [] \<and> (\<forall>c \<in> set w. is_alnum c)"
proof
  assume "in_lang alphanumeric w"
  then obtain c ts where "w = [c] @ concat ts" "is_alnum c" "\<forall>t \<in> set ts. in_lang (RClass is_alnum) t"
    by (auto simp: alphanumeric_def RPlus_def in_Star_list)
  then show "w \<noteq> [] \<and> (\<forall>c \<in> set w. is_alnum c)" by auto
next
  assume w: "w \<noteq> [] \<and> (\<forall>c \<in> set w. is_alnum c)"
  then obtain c v where cv: "w = [c] @ v" by (cases w) auto
  have "in_lang (RStar (RClass is_alnum)) v"
    unfolding in_Star_list using w cv by (intro exI [of _ "map (\<lambda>x. [x]) v"]) auto
  then show "in_lang alphanumeric w"
    using w cv in_Seq [of "RClass is_alnum" "[c]"] by (auto simp: alphanumeric_def RPlus_def)
qed

lemma in_path_component:
  "in_lang path_component w \<longleftrightarrow>
     (\<exists>a ts. w = a @ concat ts \<and> in_lang alphanumeric a \<and>
        (\<forall>t \<in> set ts. \<exists>x y. t = x @ y \<and> in_lang separator x \<and> in_lang alphanumeric y))"
  unfolding path_component_def by (fastforce simp: in_Star_list intro: in_Seq)

lemma pattern_segments:
  "in_lang pattern s \<longleftrightarrow> (\<forall>w \<in> set (Segments s). in_lang path_component w)"
proof
  assume "in_lang pattern s"
  then obtain ws where ws: "ws \<noteq> []" "s = Join ws [CHR ''/'']" "\<forall>w \<in> set ws. in_lang path_component w"
    by (auto simp: pattern_def in_lang_separated)
  have "CHR ''/'' \<notin> set w" if "w \<in> set ws" for w
  proof
    assume "CHR ''/'' \<in> set w"
    then have "rexp_byte path_component CHR ''/''" using ws(3) that in_lang_bytes by blast
    then show False
      by (simp add: path_component_def alphanumeric_def separator_def RPlus_def RChr_def is_alnum_def)
  qed
  then have "Segments s = ws" unfolding Segments_def using ws by (auto intro: SplitOn_Join)
  with ws show "\<forall>w \<in> set (Segments s). in_lang path_component w" by simp
next
  assume "\<forall>w \<in> set (Segments s). in_lang path_component w"
  then show "in_lang pattern s"
    unfolding pattern_def in_lang_separated
    by (intro exI [of _ "Segments s"]) (auto simp: Segments_def Join_SplitOn)
qed

lemma pattern_bytes:
  "in_lang pattern s \<Longrightarrow> c \<in> set s \<Longrightarrow> is_alnum c \<or> c \<in> set ''._-/''"
  by (drule (1) in_lang_bytes)
     (auto simp: pattern_def path_component_def alphanumeric_def separator_def RPlus_def RChr_def)

lemma pattern_lower: "in_lang pattern s \<Longrightarrow> ToLower s = s"
  unfolding ToLower_def by (rule map_idI) (auto dest!: pattern_bytes simp: to_lower_punct)

lemma pattern_nonempty: "in_lang pattern s \<Longrightarrow> s \<noteq> []"
  unfolding pattern_segments
  by (auto simp: Segments_def in_path_component in_alphanumeric)

lemma Valid_name_iff: "Valid_name s \<longleftrightarrow> length s \<le> MaxLength \<and> in_lang pattern s"
  using pattern_lower pattern_nonempty
  by (auto simp: Valid_name_def Validate_name_def MatchString_iff)

lemma Valid_name_segments:
  "Valid_name s \<longleftrightarrow> length s \<le> MaxLength \<and> (\<forall>w \<in> set (Segments s). in_lang path_component w)"
  by (simp add: Valid_name_iff pattern_segments)

lemma Valid_name_bytes: "Valid_name s \<Longrightarrow> c \<in> set s \<Longrightarrow> is_alnum c \<or> c \<in> set ''._-/''"
  by (auto simp: Valid_name_iff dest: pattern_bytes)

lemma Valid_name_no_star: "Valid_name s \<Longrightarrow> CHR ''*'' \<notin> set s"
  by (auto dest!: Valid_name_bytes dest: alnum_not_special)

lemma Valid_name_nonempty: "Valid_name s \<Longrightarrow> s \<noteq> []"
  by (auto simp: Valid_name_iff dest: pattern_nonempty)

text \<open>No name has two dots in a row, which with the non-empty segments below is what rules out every
  traversal sequence.\<close>

fun no_dotdot :: "string \<Rightarrow> bool" where
  "no_dotdot [] = True"
| "no_dotdot [c] = True"
| "no_dotdot (c # d # s) = (\<not> (c = CHR ''.'' \<and> d = CHR ''.'') \<and> no_dotdot (d # s))"

lemma no_dotdot_append:
  "no_dotdot x \<Longrightarrow> no_dotdot y \<Longrightarrow> (x = [] \<or> last x \<noteq> CHR ''.'') \<Longrightarrow> no_dotdot (x @ y)"
proof (induction x rule: no_dotdot.induct)
  case (2 v)
  then show ?case by (cases y) auto
qed auto

lemma no_dotdot_notin: "CHR ''.'' \<notin> set x \<Longrightarrow> no_dotdot x"
  by (induction x rule: no_dotdot.induct) auto

lemma alphanumeric_ends:
  "in_lang alphanumeric w \<Longrightarrow> w \<noteq> [] \<and> is_alnum (hd w) \<and> is_alnum (last w) \<and> no_dotdot w"
  by (auto simp: in_alphanumeric intro: no_dotdot_notin dest: alnum_not_special)

lemma separator_no_dotdot: "in_lang separator x \<Longrightarrow> no_dotdot x"
proof -
  have "no_dotdot x" if "in_lang (RPlus (RChr CHR ''-'')) x"
    using in_lang_bytes [OF that] by (auto simp: RPlus_def RChr_def intro: no_dotdot_notin)
  then show "in_lang separator x \<Longrightarrow> no_dotdot x"
    by (auto simp: separator_def RChr_def)
qed

lemma separator_alnum_no_dotdot:
  assumes "in_lang separator x" and "in_lang alphanumeric y"
  shows "no_dotdot (x @ y)"
proof -
  have hd: "hd y \<noteq> CHR ''.''" "y \<noteq> []" "no_dotdot y"
    using alphanumeric_ends [OF assms(2)] alnum_not_special by auto
  have "no_dotdot x" using assms(1) by (rule separator_no_dotdot)
  then show ?thesis using hd
  proof (induction x rule: no_dotdot.induct)
    case (2 v)
    then show ?case by (cases y) auto
  qed auto
qed

lemma path_component_shape:
  assumes "in_lang path_component w"
  shows "w \<noteq> [] \<and> is_alnum (hd w) \<and> is_alnum (last w) \<and> no_dotdot w"
proof -
  from assms obtain a ts where w: "w = a @ concat ts" and a: "in_lang alphanumeric a"
    and ts: "\<forall>t \<in> set ts. \<exists>x y. t = x @ y \<and> in_lang separator x \<and> in_lang alphanumeric y"
    by (auto simp: in_path_component)
  from ts have tail: "no_dotdot (concat ts) \<and> (concat ts = [] \<or> is_alnum (last (concat ts)))"
  proof (induction ts rule: rev_induct)
    case (snoc t ts)
    then obtain x y where t: "t = x @ y" "in_lang separator x" "in_lang alphanumeric y" by auto
    have t': "is_alnum (last t)" "no_dotdot t" "t \<noteq> []"
      using alphanumeric_ends [OF t(3)] separator_alnum_no_dotdot [OF t(2,3)] t(1) by auto
    have "concat ts = [] \<or> last (concat ts) \<noteq> CHR ''.''"
      using snoc alnum_not_special by auto
    then have "no_dotdot (concat ts @ t)"
      using snoc t' by (auto intro!: no_dotdot_append)
    with t' show ?case by (simp add: last_append)
  qed simp
  have a': "a \<noteq> []" "is_alnum (hd a)" "is_alnum (last a)" "no_dotdot a"
    using alphanumeric_ends [OF a] by auto
  then have "no_dotdot (a @ concat ts)"
    using tail alnum_not_special by (intro no_dotdot_append) auto
  with a' tail show ?thesis unfolding w by (auto simp: last_append)
qed

section \<open>Prefixes, splitting and entity names\<close>

lemma Prefix_cases [case_names whole under]:
  obtains "Prefix name = name" "CHR ''/'' \<notin> set name"
  | r where "name = Prefix name @ CHR ''/'' # r" "CHR ''/'' \<notin> set (Prefix name)"
proof (cases name "CHR ''/''" rule: Cut_cases)
  case (found a b)
  then show thesis using that(2) by (simp add: Prefix_def)
next
  case missing
  then show thesis using that(1) by (simp add: Prefix_def)
qed

lemma Prefix_slash: "CHR ''/'' \<notin> set a \<Longrightarrow> Prefix (a @ CHR ''/'' # b) = a"
  using Cut_found [of "a @ CHR ''/'' # b" "CHR ''/''" a b] by (simp add: Prefix_def)

lemma Prefix_no_slash [simp]: "CHR ''/'' \<notin> set (Prefix name)"
  by (cases name rule: Prefix_cases) auto

lemma Prefix_plain: "CHR ''/'' \<notin> set a \<Longrightarrow> Prefix a = a"
  using Cut_notin [of "CHR ''/''" a] by (simp add: Prefix_def)

lemma Prefix_hd_Segments: "Prefix s = hd (Segments s)"
proof (cases s "CHR ''/''" rule: Cut_cases)
  case (found a b)
  then show ?thesis by (simp add: Prefix_slash Segments_def SplitOn_append)
next
  case missing
  then show ?thesis by (simp add: Prefix_plain Segments_def SplitOn_notin)
qed

lemma Segments_slash:
  "CHR ''/'' \<notin> set a \<Longrightarrow> Segments (a @ CHR ''/'' # b) = a # Segments b"
  by (simp add: Segments_def SplitOn_append)

lemma Segments_append: "Segments (a @ CHR ''/'' # b) = Segments a @ Segments b"
proof (induction "length a" arbitrary: a rule: less_induct)
  case less
  show ?case
  proof (cases a "CHR ''/''" rule: Cut_cases)
    case (found x y)
    then show ?thesis using less [of y] by (simp add: Segments_slash)
  next
    case missing
    then show ?thesis by (simp add: Segments_slash) (simp add: Segments_def SplitOn_notin)
  qed
qed

lemma Valid_name_join:
  "Valid_name (a @ CHR ''/'' # b) \<longleftrightarrow>
     Valid_name a \<and> Valid_name b \<and> length a + length b < MaxLength"
  by (auto simp: Valid_name_segments Segments_append)

lemma Valid_name_Prefix: "Valid_name s \<Longrightarrow> Valid_name (Prefix s)"
  by (cases s rule: Prefix_cases) (auto, metis Valid_name_join)

lemma Split_Inr_iff:
  "Split name = Inr (entity, remainder) \<longleftrightarrow>
     Valid_name name \<and> Valid_name entity \<and> CHR ''/'' \<notin> set entity \<and> entity = Prefix name \<and>
     (remainder = [] \<and> name = entity \<or>
      Valid_name remainder \<and> name = entity @ CHR ''/'' # remainder)"
proof (cases name "CHR ''/''" rule: Cut_cases)
  case (found a b)
  then show ?thesis
    using Prefix_slash [of a b] Valid_name_join [of a b]
    by (auto simp: Split_def Valid_name_def split: option.splits)
next
  case missing
  then show ?thesis
    using Prefix_plain [of name]
    by (auto simp: Split_def Valid_name_def split: option.splits)
qed

section \<open>Properties of the name grammar\<close>

text \<open>C35: A legal repository name cannot carry a traversal sequence: every path segment is non-empty,
  starts and ends with a letter or digit and has no two dots in a row, and the whole name uses only
  the bytes of the grammar.\<close>

theorem name_traversal_safe:
  assumes "Valid_name s"
  shows "(\<forall>w \<in> set (Segments s). w \<noteq> [] \<and> is_alnum (hd w) \<and> is_alnum (last w) \<and> no_dotdot w) \<and>
    (\<forall>c \<in> set s. is_alnum c \<or> c \<in> set ''._-/'')"
  using assms path_component_shape Valid_name_bytes by (auto simp: Valid_name_segments)

theorem name_traversal_safe_witness:
  "Valid_name ''team-a/api.v1'' \<and> no_dotdot ''team-a'' \<and> no_dotdot ''api.v1''"
proof -
  have v: "Valid_name ''team-a/api.v1''" by code_simp
  have "set (Segments ''team-a/api.v1'') = {''team-a'', ''api.v1''}" by code_simp
  then show ?thesis using v name_traversal_safe [OF v] by simp
qed

text \<open>Of the three checks \<open>Validate\<close> makes before the pattern, only the length bound refuses a
  name the pattern accepts; the other two never change the answer. (The source comment says the
  pattern alone rejects everything the early checks do; for the length bound it does not.)\<close>

theorem length_check_is_the_strict_one:
  assumes "MatchString pattern s"
  shows "Validate_name s \<noteq> None \<longleftrightarrow> MaxLength < length s"
  using assms pattern_lower pattern_nonempty
  by (auto simp: Validate_name_def MatchString_iff)

lemma replicate_a_matches: "0 < n \<Longrightarrow> MatchString pattern (replicate n CHR ''a'')"
proof -
  assume n: "0 < n"
  have "in_lang alphanumeric (replicate n CHR ''a'')"
    using n by (simp add: in_alphanumeric is_alnum_def)
  then have "in_lang path_component (replicate n CHR ''a'')"
    unfolding in_path_component by (intro exI [of _ "replicate n CHR ''a''"] exI [of _ "[]"]) simp
  moreover have "Segments (replicate n CHR ''a'') = [replicate n CHR ''a'']"
    unfolding Segments_def by (rule SplitOn_notin) simp
  ultimately show ?thesis by (simp add: MatchString_iff pattern_segments)
qed

theorem length_check_is_the_strict_one_witness:
  "MatchString pattern (replicate 256 CHR ''a'') \<and> Validate_name (replicate 256 CHR ''a'') \<noteq> None"
  using length_check_is_the_strict_one [OF replicate_a_matches [of 256]] replicate_a_matches [of 256]
  by (simp add: MaxLength_def)

lemma ValidateEntityName_iff:
  "ValidateEntityName name = None \<longleftrightarrow> Valid_name name \<and> CHR ''/'' \<notin> set name \<and> name \<noteq> ReservedPrefix"
  by (simp add: ValidateEntityName_def Valid_name_def split: option.splits)

lemma Split_refuses: "\<not> Valid_name name \<Longrightarrow> Split name = Inl (InvalidName name)"
  by (auto simp: Split_def Valid_name_def Validate_name_def)

lemma Split_under:
  assumes "Valid_name name" "CHR ''/'' \<notin> set name"
  shows "Split (name @ CHR ''/'' # sub) =
    (if Valid_name sub \<and> length name + length sub < MaxLength then Inr (name, sub)
     else Inl (InvalidName (name @ CHR ''/'' # sub)))"
proof (cases "Valid_name sub \<and> length name + length sub < MaxLength")
  case True
  then show ?thesis using assms Prefix_slash [of name sub] by (simp add: Split_Inr_iff Valid_name_join)
next
  case False
  then have "\<not> Valid_name (name @ CHR ''/'' # sub)" by (auto simp: Valid_name_join)
  then show ?thesis using False Split_refuses by simp
qed

text \<open>C36: \<open>Split\<close> accepts exactly the legal names, with or without a remainder, and what it returns puts
  the name back together: a legal one-segment entity, and either no remainder, when the name is the
  entity itself, or a legal name inside the entity. Every other name is refused, by name.\<close>

theorem Split_roundtrip:
  "(Split name = Inr (entity, remainder) \<longleftrightarrow>
      Valid_name name \<and> Valid_name entity \<and> CHR ''/'' \<notin> set entity \<and> entity = Prefix name \<and>
      (remainder = [] \<and> name = entity \<or>
       Valid_name remainder \<and> name = entity @ CHR ''/'' # remainder)) \<and>
   (Split name = Inl (InvalidName name) \<longleftrightarrow> \<not> Valid_name name)"
  using Split_refuses [of name] by (auto simp: Split_Inr_iff) (auto simp: Split_def Valid_name_def split: prod.splits)

text \<open>C37: The router and the creator agree about what an entity is. A name may be created as an entity
  exactly when it routes to itself with nothing inside and is not the reserved word. Then every
  sub-path under it routes to it, with the sub-path as the remainder, if the sub-path is a legal name
  and the whole fits in the length bound, and is refused otherwise. And whatever a name routes to may
  be created, the reserved word apart.\<close>

theorem entity_names_route_to_themselves:
  "(ValidateEntityName name = None \<longleftrightarrow> Split name = Inr (name, []) \<and> name \<noteq> ReservedPrefix) \<and>
   (ValidateEntityName name = None \<longrightarrow>
      Split (name @ CHR ''/'' # sub) =
        (if Valid_name sub \<and> length name + length sub < MaxLength then Inr (name, sub)
         else Inl (InvalidName (name @ CHR ''/'' # sub)))) \<and>
   (Split full = Inr (entity, remainder) \<longrightarrow>
      (ValidateEntityName entity = None \<longleftrightarrow> entity \<noteq> ReservedPrefix))"
proof -
  have "Valid_name name \<and> CHR ''/'' \<notin> set name \<longleftrightarrow> Split name = Inr (name, [])"
    using Prefix_plain [of name] by (auto simp: Split_Inr_iff)
  moreover have "Valid_name entity \<and> CHR ''/'' \<notin> set entity" if "Split full = Inr (entity, remainder)"
    using that unfolding Split_Inr_iff by blast
  ultimately show ?thesis using Split_under [of name sub] unfolding ValidateEntityName_iff by blast
qed

theorem entity_names_route_to_themselves_witness:
  "ValidateEntityName ''hub'' = None \<and> Split ''hub/library/nginx'' = Inr (''hub'', ''library/nginx'') \<and>
   Split ''system/x'' = Inr (''system'', ''x'') \<and> ValidateEntityName ''system'' \<noteq> None"
proof -
  have v: "ValidateEntityName ''hub'' = None" "Valid_name ''library/nginx''" by code_simp+
  have s: "Split ''system/x'' = Inr (''system'', ''x'')" by code_simp
  have "Split (''hub'' @ CHR ''/'' # ''library/nginx'') = Inr (''hub'', ''library/nginx'')"
    using entity_names_route_to_themselves [of "''hub''" "''library/nginx''", THEN conjunct2, THEN conjunct1] v
    by (simp add: MaxLength_def)
  moreover have "ValidateEntityName ''system'' \<noteq> None"
    using entity_names_route_to_themselves [of _ _ "''system/x''" "''system''" "''x''", THEN conjunct2, THEN conjunct2] s
    by (simp add: ReservedPrefix_def)
  ultimately show ?thesis using v(1) s by simp
qed

end
