(* ===== verification/Authz.thy ===== *)
theory Authz
  imports Repo_Name
begin

text \<open>
  The authorization core, \<^verbatim>\<open>src/internal/authz\<close>: the closed verb vocabulary
  (\<^verbatim>\<open>verbs.go\<close>), roles and the built-in roles (\<^verbatim>\<open>roles.go\<close>), the scope grammar and the
  matcher (\<^verbatim>\<open>scope.go\<close>), the compilation of scopes into query filters (\<^verbatim>\<open>scope_sql.go\<close>),
  bindings (\<^verbatim>\<open>binding.go\<close>), the decision (\<^verbatim>\<open>decide.go\<close>) and the self-lockout check
  (\<^verbatim>\<open>lockout.go\<close>).  Everything in that package is pure, and so is everything here.  The
  rendering functions (\<^verbatim>\<open>String\<close>, the texts of the errors) are not modelled: an error is
  its class and the value it names.
\<close>

section \<open>The vocabulary\<close>

type_synonym Verb = string

abbreviation RepoList :: Verb where "RepoList \<equiv> ''repo:list''"
abbreviation RepoRead :: Verb where "RepoRead \<equiv> ''repo:read''"
abbreviation RepoWrite :: Verb where "RepoWrite \<equiv> ''repo:write''"
abbreviation TagDelete :: Verb where "TagDelete \<equiv> ''tag:delete''"
abbreviation ManifestDelete :: Verb where "ManifestDelete \<equiv> ''manifest:delete''"
abbreviation ReferrerRead :: Verb where "ReferrerRead \<equiv> ''referrer:read''"
abbreviation RepoCreate :: Verb where "RepoCreate \<equiv> ''repo:create''"
abbreviation RepoConfigure :: Verb where "RepoConfigure \<equiv> ''repo:configure''"
abbreviation RepoDelete :: Verb where "RepoDelete \<equiv> ''repo:delete''"
abbreviation ScanRead :: Verb where "ScanRead \<equiv> ''scan:read''"
abbreviation ScanTrigger :: Verb where "ScanTrigger \<equiv> ''scan:trigger''"
abbreviation PolicyRead :: Verb where "PolicyRead \<equiv> ''policy:read''"
abbreviation PolicyWrite :: Verb where "PolicyWrite \<equiv> ''policy:write''"
abbreviation PolicyApply :: Verb where "PolicyApply \<equiv> ''policy:apply''"
abbreviation GateOverride :: Verb where "GateOverride \<equiv> ''gate:override''"
abbreviation ProxyRead :: Verb where "ProxyRead \<equiv> ''proxy:read''"
abbreviation ProxyWrite :: Verb where "ProxyWrite \<equiv> ''proxy:write''"
abbreviation ProxyCredentials :: Verb where "ProxyCredentials \<equiv> ''proxy:credentials''"
abbreviation QuotaRead :: Verb where "QuotaRead \<equiv> ''quota:read''"
abbreviation QuotaWrite :: Verb where "QuotaWrite \<equiv> ''quota:write''"
abbreviation WebhookRead :: Verb where "WebhookRead \<equiv> ''webhook:read''"
abbreviation WebhookWrite :: Verb where "WebhookWrite \<equiv> ''webhook:write''"
abbreviation SearchRead :: Verb where "SearchRead \<equiv> ''search:read''"
abbreviation UserRead :: Verb where "UserRead \<equiv> ''user:read''"
abbreviation UserWrite :: Verb where "UserWrite \<equiv> ''user:write''"
abbreviation RoleRead :: Verb where "RoleRead \<equiv> ''role:read''"
abbreviation RoleWrite :: Verb where "RoleWrite \<equiv> ''role:write''"
abbreviation AuditRead :: Verb where "AuditRead \<equiv> ''audit:read''"
abbreviation GCRun :: Verb where "GCRun \<equiv> ''gc:run''"
abbreviation SystemMaintenance :: Verb where "SystemMaintenance \<equiv> ''system:maintenance''"

definition verbs :: "Verb list" where
  "verbs = [
    RepoList, RepoRead, RepoWrite, TagDelete, ManifestDelete, ReferrerRead,
    RepoCreate, RepoConfigure, RepoDelete,
    ScanRead, ScanTrigger,
    PolicyRead, PolicyWrite, PolicyApply, GateOverride,
    ProxyRead, ProxyWrite, ProxyCredentials,
    QuotaRead, QuotaWrite, WebhookRead, WebhookWrite, SearchRead,
    UserRead, UserWrite, RoleRead, RoleWrite, AuditRead, GCRun, SystemMaintenance]"

definition AllVerbs :: "Verb list" where
  "AllVerbs = sort verbs"

definition Valid_verb :: "Verb \<Rightarrow> bool" where
  "Valid_verb v \<longleftrightarrow> v \<in> set verbs"

datatype role_error = UnknownVerb string | EmptyRoleName

definition ParseVerb :: "string \<Rightarrow> role_error + Verb" where
  "ParseVerb s = (if \<not> Valid_verb s then Inl (UnknownVerb s) else Inr s)"

definition ParseVerbs :: "string list \<Rightarrow> role_error + Verb list" where
  "ParseVerbs values =
    (let out = filter Valid_verb values;
         unknown = filter (\<lambda>s. \<not> Valid_verb s) values
     in if unknown \<noteq> [] then Inl (UnknownVerb (Join unknown '', '')) else Inr out)"

section \<open>Roles\<close>

record Role =
  rl_Name :: string
  rl_Builtin :: bool
  rl_Verbs :: "Verb list"

abbreviation RoleAdmin :: string where "RoleAdmin \<equiv> ''admin''"
abbreviation RoleOperator :: string where "RoleOperator \<equiv> ''operator''"
abbreviation RolePublisher :: string where "RolePublisher \<equiv> ''publisher''"
abbreviation RoleDeveloper :: string where "RoleDeveloper \<equiv> ''developer''"
abbreviation RoleAuditor :: string where "RoleAuditor \<equiv> ''auditor''"
abbreviation RoleAnonymousReader :: string where "RoleAnonymousReader \<equiv> ''anonymous-reader''"

definition verbsExcept :: "string list \<Rightarrow> Verb list" where
  "verbsExcept pres =
    filter (\<lambda>verb. \<not> (\<exists>pre\<in>set pres. HasPrefix verb pre)) AllVerbs"

definition readVerbs :: "Verb list" where
  "readVerbs = RepoList # filter (\<lambda>verb. HasSuffix verb '':read'') AllVerbs"

definition builtinRoles :: "(string, Role) fmap" where
  "builtinRoles =
    fmap_of_list (map (\<lambda>(name, vs). (name, \<lparr>rl_Name = name, rl_Builtin = True, rl_Verbs = sort vs\<rparr>))
      [(RoleAdmin, AllVerbs),
       (RoleOperator, verbsExcept [''user:'', ''role:'']),
       (RolePublisher,
         [RepoList, RepoRead, RepoWrite, TagDelete, ReferrerRead, ScanRead, SearchRead]),
       (RoleDeveloper, [RepoList, RepoRead, ReferrerRead, ScanRead, SearchRead]),
       (RoleAuditor, readVerbs),
       (RoleAnonymousReader, [RepoList, RepoRead, ReferrerRead])])"

definition BuiltinRoles :: "Role list" where
  "BuiltinRoles = map (\<lambda>name. the (fmlookup builtinRoles name)) (keys_of builtinRoles)"

definition BuiltinRole :: "string \<Rightarrow> Role option" where
  "BuiltinRole name = fmlookup builtinRoles name"

definition IsBuiltin :: "string \<Rightarrow> bool" where
  "IsBuiltin name \<longleftrightarrow> fmlookup builtinRoles name \<noteq> None"

definition Role_Grants :: "Role \<Rightarrow> Verb \<Rightarrow> bool" where
  "Role_Grants r verb \<longleftrightarrow> verb \<in> set (rl_Verbs r)"

definition Validate_role :: "Role \<Rightarrow> role_error option" where
  "Validate_role r =
    (if rl_Name r = [] then Some EmptyRoleName
     else first_error (\<lambda>verb. if \<not> Valid_verb verb then Some (UnknownVerb verb) else None)
            (rl_Verbs r))"

text \<open>
  \<^verbatim>\<open>dedupeVerbs\<close> works in place: \<^verbatim>\<open>out := verbs[:1]\<close> shares its array with \<^verbatim>\<open>verbs\<close>, and
  \<^verbatim>\<open>append\<close> writes the array the loop is still reading.  The loop below keeps the one array
  \<^term>\<open>arr\<close>, the length \<^term>\<open>k\<close> of \<^verbatim>\<open>out\<close> and the index \<^term>\<open>i\<close> being read.
\<close>

function dedupe_loop :: "Verb list \<Rightarrow> nat \<Rightarrow> nat \<Rightarrow> Verb list" where
  "dedupe_loop arr k i =
    (if i < length arr then
       if arr ! i \<noteq> arr ! (k - 1) then dedupe_loop (arr[k := arr ! i]) (k + 1) (i + 1)
       else dedupe_loop arr k (i + 1)
     else take k arr)"
  by pat_completeness auto
termination
  by (relation "measure (\<lambda>(arr, k, i). length arr - i)") auto

declare dedupe_loop.simps [simp del]

definition dedupeVerbs :: "Verb list \<Rightarrow> Verb list" where
  "dedupeVerbs vs = (if vs = [] then [] else dedupe_loop (sort vs) 1 1)"

definition NewRole :: "string \<Rightarrow> string list \<Rightarrow> role_error + Role" where
  "NewRole name vs =
    (case ParseVerbs vs of
       Inl e \<Rightarrow> Inl e
     | Inr parsed \<Rightarrow>
         (let role = \<lparr>rl_Name = name, rl_Builtin = False, rl_Verbs = dedupeVerbs parsed\<rparr>
          in case Validate_role role of Some e \<Rightarrow> Inl e | None \<Rightarrow> Inr role))"

section \<open>Scopes and resources\<close>

type_synonym Scope = string

datatype scope_error = InvalidScope string

abbreviation SystemScope :: Scope where "SystemScope \<equiv> ''system''"
abbreviation AllRepositories :: Scope where "AllRepositories \<equiv> ''*''"
abbreviation wildcardSuffix :: string where "wildcardSuffix \<equiv> ''/*''"

definition checkNotReserved :: "string \<Rightarrow> string \<Rightarrow> scope_error option" where
  "checkNotReserved scope name =
    (if Prefix name \<noteq> SystemScope then None else Some (InvalidScope scope))"

definition ParseScope :: "string \<Rightarrow> scope_error + Scope" where
  "ParseScope s =
    (if s = [] then Inl (InvalidScope s)
     else if s = SystemScope then Inr SystemScope
     else if s = AllRepositories then Inr AllRepositories
     else case CutSuffix s wildcardSuffix of
       Some pre \<Rightarrow>
         (case Validate_name pre of
            Some _ \<Rightarrow> Inl (InvalidScope s)
          | None \<Rightarrow> (case checkNotReserved s pre of Some e \<Rightarrow> Inl e | None \<Rightarrow> Inr s))
     | None \<Rightarrow>
         (case Validate_name s of
            Some _ \<Rightarrow> Inl (InvalidScope s)
          | None \<Rightarrow> (case checkNotReserved s s of Some e \<Rightarrow> Inl e | None \<Rightarrow> Inr s)))"

definition Validate_scope :: "Scope \<Rightarrow> scope_error option" where
  "Validate_scope s = (case ParseScope s of Inl e \<Rightarrow> Some e | Inr _ \<Rightarrow> None)"

datatype resourceKind = resourceInvalid | resourceSystem | resourceRepository

record Resource =
  res_kind :: resourceKind
  res_name :: string

definition System :: Resource where
  "System = \<lparr>res_kind = resourceSystem, res_name = []\<rparr>"

definition Repository :: "string \<Rightarrow> name_error + Resource" where
  "Repository name =
    (case Validate_name name of
       Some e \<Rightarrow> Inl e
     | None \<Rightarrow> Inr \<lparr>res_kind = resourceRepository, res_name = name\<rparr>)"

definition IsSystem :: "Resource \<Rightarrow> bool" where
  "IsSystem r \<longleftrightarrow> res_kind r = resourceSystem"

definition IsRepository :: "Resource \<Rightarrow> bool" where
  "IsRepository r \<longleftrightarrow> res_kind r = resourceRepository"

definition Scope_Matches :: "Scope \<Rightarrow> Resource \<Rightarrow> bool" where
  "Scope_Matches s r =
    (if Validate_scope s \<noteq> None then False
     else case res_kind r of
       resourceSystem \<Rightarrow> s = SystemScope
     | resourceRepository \<Rightarrow>
         (if s = SystemScope then False
          else if s = AllRepositories then True
          else case CutSuffix s wildcardSuffix of
            Some pre \<Rightarrow>
              HasPrefix (res_name r) (pre @ ''/'') \<and> length (res_name r) > length pre + 1
          | None \<Rightarrow> s = res_name r)
     | resourceInvalid \<Rightarrow> False)"

section \<open>Filters\<close>

record Filter =
  fl_All :: bool
  fl_Exact :: string
  fl_Prefix :: string

definition Filter_Matches :: "Filter \<Rightarrow> string \<Rightarrow> bool" where
  "Filter_Matches f name =
    (if fl_All f then True
     else if fl_Exact f \<noteq> [] then name = fl_Exact f
     else if fl_Prefix f \<noteq> [] then
       HasPrefix name (fl_Prefix f) \<and> length name > length (fl_Prefix f)
     else False)"

definition Scope_Filter :: "Scope \<Rightarrow> Filter option" where
  "Scope_Filter s =
    (if Validate_scope s \<noteq> None then None
     else if s = SystemScope then None
     else if s = AllRepositories then Some \<lparr>fl_All = True, fl_Exact = [], fl_Prefix = []\<rparr>
     else case CutSuffix s wildcardSuffix of
       Some pre \<Rightarrow> Some \<lparr>fl_All = False, fl_Exact = [], fl_Prefix = pre @ ''/''\<rparr>
     | None \<Rightarrow> Some \<lparr>fl_All = False, fl_Exact = s, fl_Prefix = []\<rparr>)"

definition Filters :: "Scope list \<Rightarrow> Filter list" where
  "Filters scopes = List.map_filter Scope_Filter scopes"

section \<open>Bindings and the decision\<close>

record Binding =
  bd_ID :: string
  bd_Role :: string
  bd_Scope :: Scope
  bd_Verbs :: "Verb list"
  bd_ViaGroup :: string

datatype binding_error = EmptyBindingRole | BindingScope scope_error | BindingVerb string

definition Validate_binding :: "Binding \<Rightarrow> binding_error option" where
  "Validate_binding b =
    (if bd_Role b = [] then Some EmptyBindingRole
     else case Validate_scope (bd_Scope b) of
       Some e \<Rightarrow> Some (BindingScope e)
     | None \<Rightarrow> first_error (\<lambda>verb. if \<not> Valid_verb verb then Some (BindingVerb verb) else None)
                 (bd_Verbs b))"

definition Binding_Grants :: "Binding \<Rightarrow> Verb \<Rightarrow> bool" where
  "Binding_Grants b verb \<longleftrightarrow> verb \<in> set (bd_Verbs b)"

definition Binding_Allows :: "Binding \<Rightarrow> Verb \<Rightarrow> Resource \<Rightarrow> bool" where
  "Binding_Allows b verb resource \<longleftrightarrow>
    Binding_Grants b verb \<and> Scope_Matches (bd_Scope b) resource"

definition SortBindings :: "Binding list \<Rightarrow> Binding list" where
  "SortBindings bs = sort_key bd_ID bs"

definition VisibleScopes :: "Binding list \<Rightarrow> Verb \<Rightarrow> Scope list" where
  "VisibleScopes bindings verb = map bd_Scope (filter (\<lambda>b. Binding_Grants b verb) bindings)"

record Decision =
  dec_Allowed :: bool
  dec_Verb :: Verb
  dec_Resource :: Resource
  dec_Matched :: "Binding list"

text \<open>The loop of \<^verbatim>\<open>Decide\<close>, over the decision built so far.\<close>

fun decide_loop :: "Decision \<Rightarrow> Binding list \<Rightarrow> Decision" where
  "decide_loop d [] = d"
| "decide_loop d (b # bs) =
    decide_loop
      (if Binding_Allows b (dec_Verb d) (dec_Resource d)
       then d\<lparr>dec_Allowed := True, dec_Matched := dec_Matched d @ [b]\<rparr> else d) bs"

definition Decide :: "Binding list \<Rightarrow> Verb \<Rightarrow> Resource \<Rightarrow> Decision" where
  "Decide bindings verb resource =
    (let decision = \<lparr>dec_Allowed = False, dec_Verb = verb, dec_Resource = resource,
                     dec_Matched = []\<rparr>
     in if \<not> Valid_verb verb then decision
        else let d = decide_loop decision bindings
             in d\<lparr>dec_Matched := SortBindings (dec_Matched d)\<rparr>)"

definition Allows :: "Binding list \<Rightarrow> Verb \<Rightarrow> Resource \<Rightarrow> bool" where
  "Allows bindings verb resource = dec_Allowed (Decide bindings verb resource)"

section \<open>Self-lockout prevention\<close>

datatype lockout_error = ErrLastAdmin

definition AdminGrant :: "Binding list \<Rightarrow> bool" where
  "AdminGrant bindings = Allows bindings RoleWrite System"

definition EnsureAdminRemains :: "Binding list list \<Rightarrow> lockout_error option" where
  "EnsureAdminRemains after = (if list_ex AdminGrant after then None else Some ErrLastAdmin)"

definition without :: "Binding list \<Rightarrow> (Binding \<Rightarrow> bool) \<Rightarrow> Binding list" where
  "without bindings drp = filter (\<lambda>b. \<not> drp b) bindings"

definition WithoutBinding :: "Binding list \<Rightarrow> string \<Rightarrow> Binding list" where
  "WithoutBinding bindings bid = without bindings (\<lambda>b. bd_ID b = bid)"

definition WithoutRole :: "Binding list \<Rightarrow> string \<Rightarrow> Binding list" where
  "WithoutRole bindings role = without bindings (\<lambda>b. bd_Role b = role)"

definition WithoutGroup :: "Binding list \<Rightarrow> string \<Rightarrow> Binding list" where
  "WithoutGroup bindings grp = without bindings (\<lambda>b. bd_ViaGroup b = grp)"

section \<open>Roles are canonical\<close>

lemma dedupe_loop_eq:
  assumes "1 \<le> k" "k \<le> i" "i \<le> length arr"
  shows "dedupe_loop arr k i = take (k - 1) arr @ remdups_adj (arr ! (k - 1) # drop i arr)"
  using assms
proof (induction arr k i rule: dedupe_loop.induct)
  case (1 arr k i)
  have front: "take k arr = take (k - 1) arr @ [arr ! (k - 1)]" if "k \<le> length arr"
    using that 1(3) take_Suc_conv_app_nth [of "k - 1" arr] by simp
  show ?case
  proof (cases "i < length arr")
    case False
    then show ?thesis using 1(3-5) front by (subst dedupe_loop.simps) simp
  next
    case True
    note next_byte = Cons_nth_drop_Suc [OF True]
    show ?thesis
    proof (cases "arr ! i = arr ! (k - 1)")
      case same: True
      then show ?thesis
        using 1(2) [OF True] 1(3-5) True next_byte by (subst dedupe_loop.simps) (simp, metis remdups_adj.simps(3))
    next
      case diff: False
      then show ?thesis
        using 1(1) [OF True diff] 1(3-5) True front next_byte
        by (subst dedupe_loop.simps) (simp, metis remdups_adj.simps(3))
    qed
  qed
qed

lemma distinct_remdups_adj_sorted:
  "sorted xs \<Longrightarrow> distinct (remdups_adj xs)" for xs :: "'a::linorder list"
  by (induction xs rule: remdups_adj.induct) (auto simp: order_less_le)

lemma sorted_remdups_adj_eq:
  "sorted xs \<Longrightarrow> remdups_adj xs = sorted_list_of_set (set xs)" for xs :: "'a::linorder list"
  using sorted_list_of_set.idem_if_sorted_distinct [of "remdups_adj xs"]
  by (simp add: distinct_remdups_adj_sorted sorted_remdups_adj)

lemma dedupeVerbs_eq: "dedupeVerbs vs = sorted_list_of_set (set vs)"
proof (cases "vs = []")
  case True
  then show ?thesis by (simp add: dedupeVerbs_def)
next
  case False
  then have "0 < length (sort vs)" by simp
  then have "sort vs = sort vs ! 0 # drop 1 (sort vs)"
    using Cons_nth_drop_Suc [of 0 "sort vs"] by simp
  then have "dedupeVerbs vs = remdups_adj (sort vs)"
    using dedupe_loop_eq [of 1 1 "sort vs"] False \<open>0 < length (sort vs)\<close>
    by (simp add: dedupeVerbs_def Suc_le_eq)
  then show ?thesis using sorted_remdups_adj_eq [of "sort vs"] by simp
qed

lemma ParseVerbs_Inr: "ParseVerbs vs = Inr out \<longleftrightarrow> (\<forall>v \<in> set vs. Valid_verb v) \<and> out = vs"
  by (auto simp: ParseVerbs_def Let_def filter_empty_conv)

lemma Validate_role_None:
  "Validate_role r = None \<longleftrightarrow> rl_Name r \<noteq> [] \<and> (\<forall>v \<in> set (rl_Verbs r). Valid_verb v)"
  by (auto simp: Validate_role_def)

text \<open>C34: \<^verbatim>\<open>NewRole\<close> accepts exactly a non-empty name with vocabulary verbs only, and what it
  stores is the canonical list: the strictly increasing list of the verbs named, whatever order and
  repeats they were given in.  In particular the in-place loop of \<^verbatim>\<open>dedupeVerbs\<close>, whose
  output shares the array it reads, never overwrites a verb it has not read yet.\<close>
theorem NewRole_canonical:
  "NewRole name vs = Inr r \<longleftrightarrow>
     name \<noteq> [] \<and> set vs \<subseteq> set verbs \<and>
     r = \<lparr>rl_Name = name, rl_Builtin = False, rl_Verbs = sorted_list_of_set (set vs)\<rparr>"
proof (cases "ParseVerbs vs")
  case (Inl e)
  then have "\<not> set vs \<subseteq> set verbs"
    using ParseVerbs_Inr [of vs vs] by (auto simp: Valid_verb_def)
  then show ?thesis using Inl by (simp add: NewRole_def)
next
  case (Inr parsed)
  then have "set vs \<subseteq> set verbs" "parsed = vs"
    using ParseVerbs_Inr [of vs parsed] by (auto simp: Valid_verb_def)
  moreover from this
  have "Validate_role \<lparr>rl_Name = name, rl_Builtin = False, rl_Verbs = dedupeVerbs vs\<rparr> = None
    \<longleftrightarrow> name \<noteq> []"
    by (auto simp: Validate_role_None dedupeVerbs_eq Valid_verb_def)
  ultimately show ?thesis
    using Inr by (auto simp: NewRole_def Let_def dedupeVerbs_eq split: option.splits)
qed

section \<open>The built-in roles\<close>

lemma set_AllVerbs [simp]: "set AllVerbs = set verbs"
  by (simp add: AllVerbs_def)

lemma distinct_verbs: "distinct verbs"
  by (simp add: verbs_def)

lemma builtinRoles_lookup:
  "fmlookup builtinRoles name =
    map_of [(RoleAdmin, \<lparr>rl_Name = RoleAdmin, rl_Builtin = True, rl_Verbs = sort AllVerbs\<rparr>),
      (RoleOperator, \<lparr>rl_Name = RoleOperator, rl_Builtin = True,
         rl_Verbs = sort (verbsExcept [''user:'', ''role:''])\<rparr>),
      (RolePublisher, \<lparr>rl_Name = RolePublisher, rl_Builtin = True, rl_Verbs =
         sort [RepoList, RepoRead, RepoWrite, TagDelete, ReferrerRead, ScanRead, SearchRead]\<rparr>),
      (RoleDeveloper, \<lparr>rl_Name = RoleDeveloper, rl_Builtin = True, rl_Verbs =
         sort [RepoList, RepoRead, ReferrerRead, ScanRead, SearchRead]\<rparr>),
      (RoleAuditor, \<lparr>rl_Name = RoleAuditor, rl_Builtin = True, rl_Verbs = sort readVerbs\<rparr>),
      (RoleAnonymousReader, \<lparr>rl_Name = RoleAnonymousReader, rl_Builtin = True, rl_Verbs =
         sort [RepoList, RepoRead, ReferrerRead]\<rparr>)] name"
  by (simp add: builtinRoles_def fmlookup_of_list)

text \<open>The three derived roles hold the rule ADR 0001 words, over the whole vocabulary.\<close>

lemma builtin_grants:
  "\<exists>r. BuiltinRole RoleAdmin = Some r \<and> (\<forall>v. Role_Grants r v \<longleftrightarrow> Valid_verb v)"
  "\<exists>r. BuiltinRole RoleOperator = Some r \<and>
     (\<forall>v. Role_Grants r v \<longleftrightarrow> Valid_verb v \<and> \<not> HasPrefix v ''user:'' \<and> \<not> HasPrefix v ''role:'')"
  "\<exists>r. BuiltinRole RoleAuditor = Some r \<and>
     (\<forall>v. Role_Grants r v \<longleftrightarrow> v = RepoList \<or> Valid_verb v \<and> HasSuffix v '':read'')"
  by (auto simp: BuiltinRole_def builtinRoles_lookup Role_Grants_def Valid_verb_def
      verbsExcept_def readVerbs_def set_insort_key)

section \<open>The scope grammar\<close>

text \<open>What a scope is, as the four forms of ADR 0001.\<close>

inductive scope_form :: "string \<Rightarrow> bool" where
  system: "scope_form SystemScope"
| everything: "scope_form AllRepositories"
| subtree: "Valid_name p \<Longrightarrow> Prefix p \<noteq> SystemScope \<Longrightarrow> scope_form (p @ wildcardSuffix)"
| exact: "Valid_name n \<Longrightarrow> Prefix n \<noteq> SystemScope \<Longrightarrow> scope_form n"

lemma Valid_name_not_wildcard: "\<not> Valid_name (p @ wildcardSuffix)"
  using Valid_name_no_star [of "p @ wildcardSuffix"] by auto

lemma CutSuffix_Valid_name: "Valid_name n \<Longrightarrow> CutSuffix n wildcardSuffix = None"
  using Valid_name_not_wildcard by (cases "CutSuffix n wildcardSuffix") auto

lemma Valid_name_not_keyword: "Valid_name n \<Longrightarrow> n \<noteq> AllRepositories"
  using Valid_name_no_star [of n] by auto

lemma wildcard_not_keyword [simp]:
  "p @ wildcardSuffix \<noteq> SystemScope" "p @ wildcardSuffix = AllRepositories \<longleftrightarrow> False"
  by (auto simp: append_eq_Cons_conv)

lemma Prefix_SystemScope [simp]: "Prefix SystemScope = SystemScope"
  by (rule Prefix_plain) simp

lemma ParseScope_wildcard:
  "ParseScope (p @ wildcardSuffix) =
    (if Valid_name p \<and> Prefix p \<noteq> SystemScope then Inr (p @ wildcardSuffix)
     else Inl (InvalidScope (p @ wildcardSuffix)))"
  by (auto simp: ParseScope_def checkNotReserved_def Valid_name_def split: option.splits)

lemma ParseScope_exact:
  assumes "CutSuffix s wildcardSuffix = None"
  shows "ParseScope s =
    (if s = SystemScope \<or> s = AllRepositories \<or> Valid_name s \<and> Prefix s \<noteq> SystemScope then Inr s
     else Inl (InvalidScope s))"
  using assms Valid_name_nonempty [of s]
  by (auto simp: ParseScope_def checkNotReserved_def Valid_name_def split: option.splits)

lemma scope_form_iff:
  "scope_form s \<longleftrightarrow> s = SystemScope \<or> s = AllRepositories \<or>
     (\<exists>p. s = p @ wildcardSuffix \<and> Valid_name p \<and> Prefix p \<noteq> SystemScope) \<or>
     Valid_name s \<and> Prefix s \<noteq> SystemScope"
  by (subst scope_form.simps) blast

lemma ParseScope_eq: "ParseScope s = (if scope_form s then Inr s else Inl (InvalidScope s))"
proof (cases "CutSuffix s wildcardSuffix")
  case None
  then have "\<nexists>p. s = p @ wildcardSuffix" by (simp add: CutSuffix_None_iff)
  then show ?thesis using None by (simp add: ParseScope_exact scope_form_iff)
next
  case (Some p)
  then have "s = p @ wildcardSuffix" by simp
  then show ?thesis
    using Valid_name_not_wildcard [of p] by (simp add: ParseScope_wildcard scope_form_iff)
qed

lemma Validate_scope_None [simp]: "Validate_scope s = None \<longleftrightarrow> scope_form s"
  by (simp add: Validate_scope_def ParseScope_eq)

text \<open>What a scope covers, as a specification: repository names strictly under a prefix, one
  name, every name, or the system alone.\<close>

fun covers_name :: "Scope \<Rightarrow> string \<Rightarrow> bool" where
  "covers_name s n \<longleftrightarrow> s = AllRepositories \<or>
     (\<exists>p rest. s = p @ wildcardSuffix \<and> n = p @ ''/'' @ rest \<and> rest \<noteq> []) \<or>
     (s \<noteq> SystemScope \<and> s = n)"

declare covers_name.simps [simp del]

lemma HasPrefix_strict:
  "HasPrefix n p \<and> length n > length p \<longleftrightarrow> (\<exists>rest. n = p @ rest \<and> rest \<noteq> [])"
  by (auto simp: HasPrefix_iff)

lemma Scope_Matches_repository:
  assumes "Repository n = Inr r"
  shows "Scope_Matches s r \<longleftrightarrow> scope_form s \<and> covers_name s n"
proof -
  have r: "r = \<lparr>res_kind = resourceRepository, res_name = n\<rparr>" and n: "Valid_name n"
    using assms by (auto simp: Repository_def Valid_name_def split: option.splits)
  have star: "n \<noteq> p @ wildcardSuffix" for p
    using n Valid_name_not_wildcard by auto
  show ?thesis
  proof (cases "CutSuffix s wildcardSuffix")
    case None
    then have "\<nexists>p. s = p @ wildcardSuffix" by (simp add: CutSuffix_None_iff)
    then show ?thesis using None by (auto simp: Scope_Matches_def r covers_name.simps)
  next
    case (Some p)
    then show ?thesis
      using star HasPrefix_strict [of n "p @ ''/''"]
      by (auto simp: Scope_Matches_def r covers_name.simps)
  qed
qed

lemma Scope_Matches_System: "Scope_Matches s System \<longleftrightarrow> s = SystemScope"
  by (auto simp: Scope_Matches_def System_def intro: scope_form.system)

lemma Scope_Matches_invalid: "res_kind r = resourceInvalid \<Longrightarrow> \<not> Scope_Matches s r"
  by (simp add: Scope_Matches_def)

lemma not_covers_system: "Valid_name n \<Longrightarrow> covers_name SystemScope n \<longleftrightarrow> False"
  by (auto simp: covers_name.simps append_eq_Cons_conv)

text \<open>C31: The scope grammar is total and is the four forms of ADR 0001 and nothing else: every
  string parses to itself when it is \<^verbatim>\<open>system\<close>, \<^verbatim>\<open>*\<close>, one legal repository name or a legal
  name followed by \<^verbatim>\<open>/*\<close>, the last two outside the reserved \<^verbatim>\<open>system\<close> prefix; and every other
  string is the typed error naming it.\<close>
theorem ParseScope_grammar:
  "ParseScope s =
    (if s = SystemScope \<or> s = AllRepositories \<or>
        (\<exists>p. s = p @ wildcardSuffix \<and> Valid_name p \<and> hd (Segments p) \<noteq> SystemScope) \<or>
        Valid_name s \<and> hd (Segments s) \<noteq> SystemScope
     then Inr s else Inl (InvalidScope s))"
  by (simp add: ParseScope_eq scope_form_iff Prefix_hd_Segments)

text \<open>C32: The system scope and the repository scopes are disjoint: a scope that covers the system
  covers no repository; the scope \<^verbatim>\<open>*\<close> covers every repository and not the system; and a
  resource nobody built is covered by nothing.\<close>
theorem scopes_disjoint:
  assumes "Repository n = Inr r"
  shows "\<not> (Scope_Matches s System \<and> Scope_Matches s r) \<and>
    Scope_Matches AllRepositories r \<and> \<not> Scope_Matches AllRepositories System \<and>
    \<not> Scope_Matches s \<lparr>res_kind = resourceInvalid, res_name = m\<rparr>"
proof -
  have "Valid_name n"
    using assms by (auto simp: Repository_def Valid_name_def split: option.splits)
  then show ?thesis
    using not_covers_system [of n] scope_form.everything
    by (simp add: Scope_Matches_System Scope_Matches_repository [OF assms] Scope_Matches_invalid)
       (simp add: covers_name.simps)
qed

lemma scopes_disjoint_witness:
  "Repository ''team-a/api'' = Inr \<lparr>res_kind = resourceRepository, res_name = ''team-a/api''\<rparr> \<and>
   Scope_Matches AllRepositories \<lparr>res_kind = resourceRepository, res_name = ''team-a/api''\<rparr>"
proof -
  have r: "Repository ''team-a/api'' = Inr \<lparr>res_kind = resourceRepository, res_name = ''team-a/api''\<rparr>"
    by code_simp
  show ?thesis using scopes_disjoint [OF r] r by blast
qed

section \<open>Filters agree with the matcher\<close>

text \<open>What the query layer needs of a compilation of scopes: the compiled form selects exactly the
  repositories the scope covers.  Two implementations of "what does this scope cover" agree because
  each is an instance of this interface.\<close>

locale scope_compiler =
  fixes compile :: "Scope \<Rightarrow> 'f option"
    and selects :: "'f \<Rightarrow> string \<Rightarrow> bool"
  assumes agrees: "res_kind r = resourceRepository \<Longrightarrow>
    (\<exists>f. compile s = Some f \<and> selects f (res_name r)) \<longleftrightarrow> Scope_Matches s r"
begin

lemma compiled_selects:
  assumes "Repository n = Inr r"
  shows "(\<exists>f \<in> set (List.map_filter compile ss). selects f n) \<longleftrightarrow> (\<exists>s \<in> set ss. Scope_Matches s r)"
proof -
  have "res_kind r = resourceRepository" "res_name r = n"
    using assms by (auto simp: Repository_def split: option.splits)
  then have "(\<exists>f. compile s = Some f \<and> selects f n) \<longleftrightarrow> Scope_Matches s r" for s
    using agrees [of r s] by simp
  then show ?thesis
    by (induction ss) (force simp: map_filter_simps split: option.splits)+
qed

end

lemma Scope_Filter_agrees:
  assumes "res_kind r = resourceRepository"
  shows "(\<exists>f. Scope_Filter s = Some f \<and> Filter_Matches f (res_name r)) \<longleftrightarrow> Scope_Matches s r"
proof (cases "CutSuffix s wildcardSuffix")
  case None
  have "s \<noteq> []" if "scope_form s"
    using that Valid_name_nonempty by (auto simp: scope_form_iff)
  then show ?thesis
    using None assms by (auto simp: Scope_Filter_def Scope_Matches_def Filter_Matches_def)
next
  case (Some p)
  then show ?thesis
    using assms by (auto simp: Scope_Filter_def Scope_Matches_def Filter_Matches_def)
qed

interpretation go_filter: scope_compiler Scope_Filter Filter_Matches
  by unfold_locales (rule Scope_Filter_agrees)

section \<open>The decision is a union\<close>

lemma decide_loop_eq:
  "decide_loop d bs =
    (let ms = filter (\<lambda>b. Binding_Allows b (dec_Verb d) (dec_Resource d)) bs
     in d\<lparr>dec_Allowed := dec_Allowed d \<or> ms \<noteq> [], dec_Matched := dec_Matched d @ ms\<rparr>)"
  by (induction bs arbitrary: d) (auto simp: Let_def)

lemma Decide_eq:
  "Decide bs v r =
    (let ms = if Valid_verb v then filter (\<lambda>b. Binding_Allows b v r) bs else []
     in \<lparr>dec_Allowed = (ms \<noteq> []), dec_Verb = v, dec_Resource = r, dec_Matched = SortBindings ms\<rparr>)"
  by (simp add: Decide_def decide_loop_eq Let_def SortBindings_def)

lemma Allows_iff: "Allows bs v r \<longleftrightarrow> Valid_verb v \<and> (\<exists>b \<in> set bs. Binding_Allows b v r)"
  by (auto simp: Allows_def Decide_eq Let_def filter_empty_conv)

lemma Allows_append [simp]: "Allows (bs @ cs) v r \<longleftrightarrow> Allows bs v r \<or> Allows cs v r"
  by (auto simp: Allows_iff)

lemma Allows_mono: "set bs \<subseteq> set cs \<Longrightarrow> Allows bs v r \<Longrightarrow> Allows cs v r"
  by (auto simp: Allows_iff)

text \<open>C28: \<^verbatim>\<open>Decide\<close> is a union with no subtraction: a verb of the vocabulary is allowed exactly when
  some binding holds it at a scope covering the resource, a verb outside the vocabulary never is, and
  the explanation lists exactly the bindings that grant it, ordered by id.\<close>
theorem Decide_is_union:
  "(dec_Allowed (Decide bs v r) \<longleftrightarrow>
      v \<in> set verbs \<and> (\<exists>b \<in> set bs. v \<in> set (bd_Verbs b) \<and> Scope_Matches (bd_Scope b) r)) \<and>
   mset (dec_Matched (Decide bs v r)) =
     {# b \<in># mset bs. v \<in> set verbs \<and> v \<in> set (bd_Verbs b) \<and> Scope_Matches (bd_Scope b) r #} \<and>
   sorted (map bd_ID (dec_Matched (Decide bs v r)))"
  by (auto simp: Decide_eq Let_def filter_empty_conv Binding_Allows_def Binding_Grants_def
      Valid_verb_def SortBindings_def)

lemma SortBindings_unique:
  assumes "mset bs = mset cs" "inj_on bd_ID (set bs)"
  shows "SortBindings bs = SortBindings cs"
  unfolding SortBindings_def using assms by (rule sort_key_unique)

text \<open>C30: The order bindings are stored or fetched in cannot matter: permuting a subject's bindings
  changes neither the answer nor, ids being unique, one byte of the explanation; and adding bindings
  never takes access away.\<close>
theorem Decide_order_and_growth:
  assumes "mset cs = mset bs" "inj_on bd_ID (set bs)"
  shows "Decide cs v r = Decide bs v r \<and>
    (dec_Allowed (Decide bs v r) \<longrightarrow> dec_Allowed (Decide (cs @ extra) v r))"
proof
  let ?P = "\<lambda>b. Binding_Allows b v r"
  have m: "mset (filter ?P bs) = mset (filter ?P cs)" using assms(1) by simp
  then have "SortBindings (filter ?P bs) = SortBindings (filter ?P cs)"
    by (rule SortBindings_unique) (use assms(2) in \<open>auto intro: inj_on_subset\<close>)
  moreover have "filter ?P bs = [] \<longleftrightarrow> filter ?P cs = []"
    using m by (metis mset_zero_iff)
  ultimately show "Decide cs v r = Decide bs v r" by (simp add: Decide_eq Let_def)
  then show "dec_Allowed (Decide bs v r) \<longrightarrow> dec_Allowed (Decide (cs @ extra) v r)"
    by (simp add: Decide_eq Let_def split: if_splits)
qed

lemma Decide_order_and_growth_witness:
  "Decide [\<lparr>bd_ID = ''b2'', bd_Role = ''developer'', bd_Scope = ''team-a/*'', bd_Verbs = [RepoRead],
             bd_ViaGroup = ''ops''\<rparr>,
           \<lparr>bd_ID = ''b1'', bd_Role = ''auditor'', bd_Scope = ''*'', bd_Verbs = [RepoList],
             bd_ViaGroup = []\<rparr>] RepoRead System =
   Decide [\<lparr>bd_ID = ''b1'', bd_Role = ''auditor'', bd_Scope = ''*'', bd_Verbs = [RepoList],
             bd_ViaGroup = []\<rparr>,
           \<lparr>bd_ID = ''b2'', bd_Role = ''developer'', bd_Scope = ''team-a/*'', bd_Verbs = [RepoRead],
             bd_ViaGroup = ''ops''\<rparr>] RepoRead System"
  by (rule conjunct1 [OF Decide_order_and_growth]) simp_all

text \<open>C29: A permission-filtered listing and a decision cannot disagree: for a verb of the
  vocabulary, the filters compiled from the scopes granting it select a repository name exactly when
  \<^verbatim>\<open>Allows\<close> grants the verb on that repository; and a subject no binding of which grants the verb
  compiles to no filter, which selects nothing.\<close>
theorem listing_agrees_with_decision:
  assumes "Valid_verb v" "Repository n = Inr r"
  shows "(\<exists>f \<in> set (Filters (VisibleScopes bs v)). Filter_Matches f n) \<longleftrightarrow> Allows bs v r"
  unfolding Filters_def go_filter.compiled_selects [OF assms(2)]
  using assms(1) by (auto simp: VisibleScopes_def Allows_iff Binding_Allows_def)

lemma listing_agrees_with_decision_witness:
  "Valid_verb RepoList \<and>
   Repository ''team-a/api'' = Inr \<lparr>res_kind = resourceRepository, res_name = ''team-a/api''\<rparr> \<and>
   Allows [\<lparr>bd_ID = ''b1'', bd_Role = ''developer'', bd_Scope = ''team-a/*'', bd_Verbs = [RepoList],
             bd_ViaGroup = []\<rparr>] RepoList \<lparr>res_kind = resourceRepository, res_name = ''team-a/api''\<rparr>"
  (is "_ \<and> ?R \<and> Allows ?bs _ _")
proof -
  have v: "Valid_verb RepoList" by (simp add: Valid_verb_def verbs_def)
  have r: ?R by code_simp
  have "\<exists>f \<in> set (Filters (VisibleScopes ?bs RepoList)). Filter_Matches f ''team-a/api''"
    by code_simp
  then show ?thesis using listing_agrees_with_decision [OF v r] v r by blast
qed

section \<open>Self-lockout\<close>

lemma RoleWrite_valid: "Valid_verb RoleWrite"
  by (simp add: Valid_verb_def verbs_def)

lemma AdminGrant_iff:
  "AdminGrant bs \<longleftrightarrow> (\<exists>b \<in> set bs. bd_Scope b = SystemScope \<and> RoleWrite \<in> set (bd_Verbs b))"
  by (auto simp: AdminGrant_def Allows_iff Binding_Allows_def Binding_Grants_def Scope_Matches_System
      RoleWrite_valid)

lemmas without_defs = without_def WithoutBinding_def WithoutRole_def WithoutGroup_def

text \<open>C33: \<^verbatim>\<open>EnsureAdminRemains\<close> refuses exactly the states in which no remaining subject holds a
  binding at the system scope whose role has \<^verbatim>\<open>role:write\<close>.  Simulating a removal can only turn an
  accepted state into a refused one, never the reverse, and breadth is not administration: bindings
  at \<^verbatim>\<open>*\<close> alone are refused whatever verbs they hold.\<close>
theorem lockout_is_exact:
  "(EnsureAdminRemains after = None \<longleftrightarrow>
      (\<exists>bs \<in> set after. \<exists>b \<in> set bs. bd_Scope b = SystemScope \<and> RoleWrite \<in> set (bd_Verbs b))) \<and>
   (EnsureAdminRemains (map (\<lambda>bs. without bs drp) after) = None \<longrightarrow>
      EnsureAdminRemains after = None) \<and>
   ((\<forall>bs \<in> set after. \<forall>b \<in> set bs. bd_Scope b = AllRepositories) \<longrightarrow>
      EnsureAdminRemains after = Some ErrLastAdmin)"
  by (auto simp: EnsureAdminRemains_def list_ex_iff AdminGrant_iff without_def)

lemma lockout_is_exact_witness:
  "EnsureAdminRemains [WithoutBinding
      [\<lparr>bd_ID = ''b1'', bd_Role = ''admin'', bd_Scope = SystemScope, bd_Verbs = [RoleWrite],
        bd_ViaGroup = []\<rparr>,
       \<lparr>bd_ID = ''b2'', bd_Role = ''admin'', bd_Scope = AllRepositories, bd_Verbs = [RoleWrite],
        bd_ViaGroup = []\<rparr>] ''b1''] = Some ErrLastAdmin"
  using lockout_is_exact [of "[[\<lparr>bd_ID = ''b2'', bd_Role = ''admin'', bd_Scope = AllRepositories,
    bd_Verbs = [RoleWrite], bd_ViaGroup = []\<rparr>]]"]
  by (simp add: without_defs)

lemma admin_grants: "Role_Grants (the (BuiltinRole RoleAdmin)) v \<longleftrightarrow> v \<in> set verbs"
proof -
  obtain r where "BuiltinRole RoleAdmin = Some r" "\<forall>v. Role_Grants r v \<longleftrightarrow> Valid_verb v"
    using builtin_grants(1) by blast
  then show ?thesis by (simp add: Valid_verb_def)
qed

lemma operator_grants:
  "Role_Grants (the (BuiltinRole RoleOperator)) v \<longleftrightarrow>
     v \<in> set verbs - {UserRead, UserWrite, RoleRead, RoleWrite}"
proof -
  obtain r where r: "BuiltinRole RoleOperator = Some r"
    "\<forall>v. Role_Grants r v \<longleftrightarrow> Valid_verb v \<and> \<not> HasPrefix v ''user:'' \<and> \<not> HasPrefix v ''role:''"
    using builtin_grants(2) by blast
  then have "Role_Grants (the (BuiltinRole RoleOperator)) v \<longleftrightarrow>
      v \<in> set (filter (\<lambda>v. \<not> HasPrefix v ''user:'' \<and> \<not> HasPrefix v ''role:'') verbs)"
    by (simp add: Valid_verb_def)
  also have "\<dots> \<longleftrightarrow> v \<in> set (filter (\<lambda>v. v \<notin> {UserRead, UserWrite, RoleRead, RoleWrite}) verbs)"
    by (simp add: verbs_def HasPrefix_def)
  finally show ?thesis by simp
qed

lemma auditor_grants:
  "Role_Grants (the (BuiltinRole RoleAuditor)) v \<longleftrightarrow>
     v \<in> {RepoList, RepoRead, ReferrerRead, ScanRead, PolicyRead, ProxyRead, QuotaRead,
          WebhookRead, SearchRead, UserRead, RoleRead, AuditRead}"
proof -
  obtain r where r: "BuiltinRole RoleAuditor = Some r"
    "\<forall>v. Role_Grants r v \<longleftrightarrow> v = RepoList \<or> Valid_verb v \<and> HasSuffix v '':read''"
    using builtin_grants(3) by blast
  then have "Role_Grants (the (BuiltinRole RoleAuditor)) v \<longleftrightarrow>
      v \<in> set (RepoList # filter (\<lambda>v. HasSuffix v '':read'') verbs)"
    by (simp add: Valid_verb_def)
  then show ?thesis by (simp add: verbs_def HasSuffix_def)
qed

lemma IsBuiltin_iff:
  "IsBuiltin name \<longleftrightarrow> name \<in> {RoleAdmin, RoleOperator, RolePublisher, RoleDeveloper,
     RoleAuditor, RoleAnonymousReader}"
  by (simp add: IsBuiltin_def builtinRoles_lookup)

text \<open>The built-in roles are the rules ADR 0001 words, verb by verb over the vocabulary: the
  administrator holds every verb, the operator every verb outside user and role administration, and
  the auditor only reads; and no name other than the six is a built-in.\<close>

lemma builtin_roles_exact:
  "(\<forall>v. Role_Grants (the (BuiltinRole RoleAdmin)) v \<longleftrightarrow> v \<in> set verbs) \<and>
   (\<forall>v. Role_Grants (the (BuiltinRole RoleOperator)) v \<longleftrightarrow>
      v \<in> set verbs - {UserRead, UserWrite, RoleRead, RoleWrite}) \<and>
   (\<forall>v. Role_Grants (the (BuiltinRole RoleAuditor)) v \<longleftrightarrow>
      v \<in> {RepoList, RepoRead, ReferrerRead, ScanRead, PolicyRead, ProxyRead, QuotaRead,
           WebhookRead, SearchRead, UserRead, RoleRead, AuditRead}) \<and>
   (\<forall>name. IsBuiltin name \<longleftrightarrow> name \<in> {RoleAdmin, RoleOperator, RolePublisher, RoleDeveloper,
      RoleAuditor, RoleAnonymousReader})"
  by (simp only: admin_grants operator_grants auditor_grants IsBuiltin_iff simp_thms)

end
