(* ===== verification/Meta_Types.thy ===== *)
theory Meta_Types
  imports Repo_Name
begin

text \<open>
  The vocabulary of the metadata store, \<^verbatim>\<open>src/internal/meta\<close>: the stored records
  (\<^verbatim>\<open>types.go\<close>, \<^verbatim>\<open>identity.go\<close>, \<^verbatim>\<open>credentials.go\<close>), the typed errors (\<^verbatim>\<open>errors.go\<close>), what
  a listing may see (\<^verbatim>\<open>ScopeFilter\<close>, \<^verbatim>\<open>Visibility\<close>) and how it pages (\<^verbatim>\<open>ListOptions\<close>).

  The string-typed enumerations of the source (\<^verbatim>\<open>RepositoryType\<close>, \<^verbatim>\<open>RefKind\<close>, \<^verbatim>\<open>CachedKind\<close>,
  \<^verbatim>\<open>SubjectKind\<close>, \<^verbatim>\<open>PrincipalKind\<close>) stay strings, so that a value outside them can be presented to
  an operation and refused by its \<^verbatim>\<open>Valid\<close> check.  \<^verbatim>\<open>json.RawMessage\<close> is an optional string,
  \<^term>\<open>None\<close> the nil slice; \<^verbatim>\<open>[]byte\<close> and digests are strings; \<^verbatim>\<open>time.Time\<close> is an integer with
  \<^term>\<open>0::int\<close> the zero time.  Counters are unbounded integers.
\<close>

type_synonym Digest = string
type_synonym RawMessage = "string option"

section \<open>Errors\<close>

text \<open>\<^term>\<open>Panic\<close> is the runtime panic of a write into a nil map: a branch of the model so that it can
  be proved unreachable.\<close>

datatype merror =
    CtxErr ctx_err
  | Closed
  | Invalid string
  | NotFound string string
  | Conflict string string
  | Stale
  | Referenced string string "string list"
  | Panic

text \<open>\<^verbatim>\<open>errors.Is(err, meta.ErrNotFound)\<close>.\<close>

fun is_NotFound :: "merror \<Rightarrow> bool" where
  "is_NotFound (NotFound _ _) = True"
| "is_NotFound _ = False"

section \<open>Repositories and content\<close>

abbreviation Hosted :: string where "Hosted \<equiv> ''hosted''"
abbreviation Proxy :: string where "Proxy \<equiv> ''proxy''"
abbreviation Group :: string where "Group \<equiv> ''group''"

definition Valid_type :: "string \<Rightarrow> bool" where
  "Valid_type t \<longleftrightarrow> t = Hosted \<or> t = Proxy \<or> t = Group"

record Repository_meta =
  rp_Name :: string
  rp_Type :: string
  rp_Config :: RawMessage
  rp_ConfigVersion :: int
  rp_CreatedAt :: gotime
  rp_UpdatedAt :: gotime

record ConfigRevision =
  cr_Repository :: string
  cr_Version :: int
  cr_Config :: RawMessage
  cr_Actor :: string
  cr_At :: gotime

record ProxyCredential =
  pc_Repository :: string
  pc_Sealed :: string
  pc_RotatedAt :: gotime

record ProxyCredentialStatus =
  ps_Repository :: string
  ps_Set :: bool
  ps_RotatedAt :: gotime

record GroupMember =
  gm_Repository :: string
  gm_Position :: int
  gm_Required :: bool
  gm_WriteTarget :: bool

record Manifest =
  mf_Repository :: string
  mf_Digest :: Digest
  mf_MediaType :: string
  mf_ArtifactType :: string
  mf_Subject :: Digest
  mf_Payload :: string
  mf_Size :: int
  mf_CreatedAt :: gotime

abbreviation RefConfig :: string where "RefConfig \<equiv> ''config''"
abbreviation RefLayer :: string where "RefLayer \<equiv> ''layer''"
abbreviation RefChild :: string where "RefChild \<equiv> ''child-manifest''"
abbreviation RefSubject :: string where "RefSubject \<equiv> ''subject''"

definition Valid_refkind :: "string \<Rightarrow> bool" where
  "Valid_refkind k \<longleftrightarrow> k = RefConfig \<or> k = RefLayer \<or> k = RefChild \<or> k = RefSubject"

record ManifestRef =
  mr_Child :: Digest
  mr_Kind :: string

record Tag =
  tg_Repository :: string
  tg_Name :: string
  tg_Digest :: Digest
  tg_CreatedAt :: gotime
  tg_UpdatedAt :: gotime

record Blob =
  bl_Digest :: Digest
  bl_Size :: int
  bl_CreatedAt :: gotime

record GCRun =
  gr_ID :: string
  gr_StartedAt :: gotime
  gr_FinishedAt :: gotime
  gr_SweepBefore :: gotime
  gr_Cursor :: Digest
  gr_Scanned :: int
  gr_Deleted :: int
  gr_FreedBytes :: int
  gr_Failure :: string

record UploadSession =
  up_ID :: string
  up_Repository :: string
  up_Digest :: Digest
  up_Bytes :: int
  up_StartedAt :: gotime
  up_LastChunkAt :: gotime

record PullRecord =
  pr_Repository :: string
  pr_Reference :: string
  pr_At :: gotime
  pr_Count :: int

record PullStats =
  pl_Repository :: string
  pl_Reference :: string
  pl_LastPulledAt :: gotime
  pl_Count :: int

record Event =
  ev_ID :: string
  ev_Type :: string
  ev_Repository :: string
  ev_Resource :: string
  ev_Actor :: string
  ev_Payload :: RawMessage
  ev_At :: gotime

section \<open>Cached content\<close>

record CachedManifest =
  cm_Repository :: string
  cm_Digest :: Digest
  cm_MediaType :: string
  cm_ArtifactType :: string
  cm_Subject :: Digest
  cm_Payload :: string
  cm_Size :: int
  cm_CachedAt :: gotime
  cm_LastAccessAt :: gotime

record CachedManifestRef =
  cf_Child :: Digest
  cf_Kind :: string

record CachedBlob =
  cb_Repository :: string
  cb_Digest :: Digest
  cb_Size :: int
  cb_CachedAt :: gotime
  cb_LastAccessAt :: gotime

record TagLease =
  tl_Repository :: string
  tl_Tag :: string
  tl_Digest :: Digest
  tl_ETag :: string
  tl_FetchedAt :: gotime
  tl_TTL :: duration
  tl_Stale :: bool

abbreviation CachedManifestKind :: string where "CachedManifestKind \<equiv> ''manifest''"
abbreviation CachedBlobKind :: string where "CachedBlobKind \<equiv> ''blob''"

definition Valid_cachedkind :: "string \<Rightarrow> bool" where
  "Valid_cachedkind k \<longleftrightarrow> k = CachedManifestKind \<or> k = CachedBlobKind"

record CachedItem =
  ci_Repository :: string
  ci_Digest :: Digest
  ci_Kind :: string
  ci_Size :: int
  ci_LastAccessAt :: gotime

record CacheUsage =
  cu_Bytes :: int
  cu_ManifestBytes :: int
  cu_BlobBytes :: int
  cu_Manifests :: int
  cu_Blobs :: int

record CacheAccess =
  ca_Repository :: string
  ca_Digest :: Digest
  ca_Kind :: string
  ca_At :: gotime

record NegativeEntry =
  ne_Repository :: string
  ne_Reference :: string
  ne_ObservedAt :: gotime
  ne_TTL :: duration

section \<open>Identity\<close>

abbreviation User :: string where "User \<equiv> ''user''"
abbreviation Robot :: string where "Robot \<equiv> ''robot''"
abbreviation Anonymous :: string where "Anonymous \<equiv> ''anonymous''"

definition Valid_subjectkind :: "string \<Rightarrow> bool" where
  "Valid_subjectkind k \<longleftrightarrow> k = User \<or> k = Robot \<or> k = Anonymous"

abbreviation AnonymousSubjectName :: string where "AnonymousSubjectName \<equiv> ''anonymous''"
abbreviation AnonymousSubjectID :: string where "AnonymousSubjectID \<equiv> ''anonymous''"

record Subject =
  sj_ID :: string
  sj_Kind :: string
  sj_Name :: string
  sj_Disabled :: bool
  sj_CreatedAt :: gotime

record SubjectGroup =
  sg_ID :: string
  sg_Name :: string
  sg_CreatedAt :: gotime

record Role_meta =
  ro_Name :: string
  ro_Builtin :: bool
  ro_Verbs :: "string list"

abbreviation PrincipalSubject :: string where "PrincipalSubject \<equiv> ''subject''"
abbreviation PrincipalGroup :: string where "PrincipalGroup \<equiv> ''group''"

definition Valid_principalkind :: "string \<Rightarrow> bool" where
  "Valid_principalkind k \<longleftrightarrow> k = PrincipalSubject \<or> k = PrincipalGroup"

record Binding_meta =
  bi_ID :: string
  bi_PrincipalKind :: string
  bi_PrincipalID :: string
  bi_Role :: string
  bi_Scope :: string
  bi_CreatedAt :: gotime

record EffectiveBinding =
  eb_Binding :: Binding_meta
  eb_ViaGroup :: string

record UserCredential =
  uc_Subject :: string
  uc_Hash :: string
  uc_MustRotate :: bool
  uc_RotatedAt :: gotime

record RobotCredential =
  rc_Subject :: string
  rc_SecretHash :: string
  rc_ExpiresAt :: gotime
  rc_RotatedAt :: gotime

record AccessToken =
  at_ID :: string
  at_Subject :: string
  at_Name :: string
  at_TokenHash :: string
  at_CreatedAt :: gotime
  at_ExpiresAt :: gotime
  at_LastUsedAt :: gotime

definition AccessToken_Expired :: "AccessToken \<Rightarrow> gotime \<Rightarrow> bool" where
  "AccessToken_Expired t now \<longleftrightarrow> at_ExpiresAt t \<noteq> 0 \<and> \<not> now < at_ExpiresAt t"

record Session =
  se_ID :: string
  se_Subject :: string
  se_CSRFToken :: string
  se_CreatedAt :: gotime
  se_IdleExpiresAt :: gotime
  se_AbsoluteExpiresAt :: gotime

definition Session_Expired :: "Session \<Rightarrow> gotime \<Rightarrow> bool" where
  "Session_Expired s now \<longleftrightarrow> \<not> now < se_IdleExpiresAt s \<or> \<not> now < se_AbsoluteExpiresAt s"

section \<open>Visibility and paging\<close>

record ScopeFilter =
  sf_All :: bool
  sf_Exact :: string
  sf_Prefix :: string

definition ScopeFilter_Matches :: "ScopeFilter \<Rightarrow> string \<Rightarrow> bool" where
  "ScopeFilter_Matches f name =
    (if sf_All f then True
     else if sf_Exact f \<noteq> [] then name = sf_Exact f
     else if sf_Prefix f \<noteq> [] then
       length name > length (sf_Prefix f) \<and> take (length (sf_Prefix f)) name = sf_Prefix f
     else False)"

record Visibility =
  vi_unrestricted :: bool
  vi_filters :: "ScopeFilter list"

definition Unrestricted :: Visibility where
  "Unrestricted = \<lparr>vi_unrestricted = True, vi_filters = []\<rparr>"

definition VisibleTo :: "ScopeFilter list \<Rightarrow> Visibility" where
  "VisibleTo filters = \<lparr>vi_unrestricted = False, vi_filters = filters\<rparr>"

definition Visibility_Allows :: "Visibility \<Rightarrow> string \<Rightarrow> bool" where
  "Visibility_Allows v name =
    (if vi_unrestricted v then True else list_ex (\<lambda>f. ScopeFilter_Matches f name) (vi_filters v))"

record ListOptions =
  lo_Visibility :: Visibility
  lo_Limit :: int
  lo_Cursor :: string

abbreviation DefaultPageSize :: int where "DefaultPageSize \<equiv> 100"
abbreviation MaxPageSize :: int where "MaxPageSize \<equiv> 1000"

definition EffectiveLimit :: "ListOptions \<Rightarrow> nat" where
  "EffectiveLimit opts =
    nat (if lo_Limit opts \<le> 0 then DefaultPageSize
         else if lo_Limit opts > MaxPageSize then MaxPageSize
         else lo_Limit opts)"

lemma EffectiveLimit_bounds: "0 < EffectiveLimit opts" "EffectiveLimit opts \<le> 1000"
  by (auto simp: EffectiveLimit_def)

section \<open>The store\<close>

record Store =
  st_repos :: "(string, Repository_meta) fmap"
  st_members :: "(string, GroupMember list) fmap"
  st_configHistory :: "(string, ConfigRevision list) fmap"
  st_proxyCredentials :: "(string, ProxyCredential) fmap"
  st_manifests :: "(string, (Digest, Manifest) fmap) fmap"
  st_refs :: "(string, (Digest, ManifestRef list) fmap) fmap"
  st_tags :: "(string, (string, Tag) fmap) fmap"
  st_blobs :: "(Digest, Blob) fmap"
  st_uploads :: "(string, UploadSession) fmap"
  st_gcRuns :: "(string, GCRun) fmap"
  st_cachedManifests :: "(string, (Digest, CachedManifest) fmap) fmap"
  st_cachedRefs :: "(string, (Digest, CachedManifestRef list) fmap) fmap"
  st_cachedBlobs :: "(string, (Digest, CachedBlob) fmap) fmap"
  st_tagLeases :: "(string, (string, TagLease) fmap) fmap"
  st_negativeCache :: "(string, (string, NegativeEntry) fmap) fmap"
  st_pullStats :: "(string \<times> string, PullStats) fmap"
  st_events :: "(string, Event) fmap"
  st_subjects :: "(string, Subject) fmap"
  st_subjectGroups :: "(string, SubjectGroup) fmap"
  st_groupMembers :: "(string, string fset) fmap"
  st_roles :: "(string, Role_meta) fmap"
  st_bindings :: "(string, Binding_meta) fmap"
  st_userCredentials :: "(string, UserCredential) fmap"
  st_robotCredentials :: "(string, RobotCredential) fmap"
  st_accessTokens :: "(string, AccessToken) fmap"
  st_sessions :: "(string, Session) fmap"
  st_closed :: bool

end
