(* ===== verification/Meta_Store.thy ===== *)
theory Meta_Store
  imports Meta_Types "HOL-Library.Product_Lexorder"
begin

text \<open>
  The reference metadata store, \<^verbatim>\<open>src/internal/meta/memory/memory.go\<close>: repositories and their
  configuration history, upstream credentials, group members, manifests, tags, blobs, upload sessions
  and pull statistics.  Each method is a function of the cancellation state of its context
  (\<^term>\<open>None\<close> when \<^verbatim>\<open>ctx.Err()\<close> is nil), its arguments and the store; a reader returns
  its result, a writer its result with the new store.  The mutex makes a method atomic, so a history
  of the store is a sequence of calls.  Every check of a writer precedes its first mutation, so an
  error carries no store.

  A Go map is a finite map.  \<^verbatim>\<open>range\<close> over a map visits the keys in an unspecified order; the
  model visits them in increasing order, and where a method collects what it visits it sorts the
  result by a unique key, so the order cannot show.  The deep copies (\<^verbatim>\<open>cloneJSON\<close>,
  \<^verbatim>\<open>cloneManifest\<close>) are the identity on values.
\<close>

section \<open>Helpers\<close>

definition entityOf :: "string \<Rightarrow> string" where
  "entityOf name = Prefix name"

definition belongsTo :: "string \<Rightarrow> string \<Rightarrow> bool" where
  "belongsTo name entity \<longleftrightarrow> name = entity \<or> HasPrefix name (entity @ ''/'')"

definition newEmpty :: Store where
  "newEmpty = \<lparr>
    st_repos = fmempty, st_members = fmempty, st_configHistory = fmempty,
    st_proxyCredentials = fmempty, st_manifests = fmempty, st_refs = fmempty, st_tags = fmempty,
    st_blobs = fmempty, st_uploads = fmempty, st_gcRuns = fmempty,
    st_cachedManifests = fmempty, st_cachedRefs = fmempty, st_cachedBlobs = fmempty,
    st_tagLeases = fmempty, st_negativeCache = fmempty, st_pullStats = fmempty,
    st_events = fmempty, st_subjects = fmempty, st_subjectGroups = fmempty,
    st_groupMembers = fmempty, st_roles = fmempty, st_bindings = fmempty,
    st_userCredentials = fmempty, st_robotCredentials = fmempty, st_accessTokens = fmempty,
    st_sessions = fmempty, st_closed = False\<rparr>"

definition New :: Store where
  "New = newEmpty\<lparr>st_subjects := fmupd AnonymousSubjectName
    \<lparr>sj_ID = AnonymousSubjectID, sj_Kind = Anonymous, sj_Name = AnonymousSubjectName,
     sj_Disabled = False, sj_CreatedAt = 0\<rparr> (st_subjects newEmpty)\<rparr>"

definition Close :: "Store \<Rightarrow> Store" where
  "Close s = s\<lparr>st_closed := True\<rparr>"

definition checkOpen :: "Store \<Rightarrow> merror option" where
  "checkOpen s = (if st_closed s then Some Closed else None)"

text \<open>The opening of every method: the context, then the lock, then \<^verbatim>\<open>checkOpen\<close>.\<close>

definition with_open :: "ctx_err option \<Rightarrow> Store \<Rightarrow> (merror + 'a) \<Rightarrow> merror + 'a" where
  "with_open ctx s body =
    (case ctx of
       Some e \<Rightarrow> Inl (CtxErr e)
     | None \<Rightarrow> (case checkOpen s of Some e \<Rightarrow> Inl e | None \<Rightarrow> body))"

definition repoExists :: "Store \<Rightarrow> string \<Rightarrow> bool" where
  "repoExists s entity \<longleftrightarrow> fmlookup (st_repos s) entity \<noteq> None"

definition knownContentName :: "Store \<Rightarrow> string \<Rightarrow> bool" where
  "knownContentName s name =
    (let entity = entityOf name
     in if \<not> repoExists s entity then False
        else name = entity \<or> entries (inner (st_manifests s) name) \<noteq> [])"

section \<open>Repositories\<close>

definition CreateRepository ::
    "ctx_err option \<Rightarrow> Repository_meta \<Rightarrow> Store \<Rightarrow> merror + Repository_meta \<times> Store" where
  "CreateRepository ctx repo s = with_open ctx s
    (if rp_Name repo = [] then Inl (Invalid ''name'')
     else if \<not> Valid_type (rp_Type repo) then Inl (Invalid ''type'')
     else if fmlookup (st_repos s) (rp_Name repo) \<noteq> None
       then Inl (Conflict ''repository'' (rp_Name repo))
     else let stored = repo\<lparr>rp_ConfigVersion := 1\<rparr>
          in Inr (stored, s\<lparr>st_repos := fmupd (rp_Name repo) stored (st_repos s)\<rparr>))"

definition GetRepository ::
    "ctx_err option \<Rightarrow> string \<Rightarrow> Store \<Rightarrow> merror + Repository_meta" where
  "GetRepository ctx name s = with_open ctx s
    (case fmlookup (st_repos s) name of
       None \<Rightarrow> Inl (NotFound ''repository'' name)
     | Some repo \<Rightarrow> Inr repo)"

definition ListRepositories ::
    "ctx_err option \<Rightarrow> ListOptions \<Rightarrow> Store \<Rightarrow> merror + Repository_meta list \<times> string" where
  "ListRepositories ctx opts s = with_open ctx s
    (let names = sort (filter (\<lambda>name. Visibility_Allows (lo_Visibility opts) name \<and> name > lo_Cursor opts)
                         (keys_of (st_repos s)))
     in case page_names (EffectiveLimit opts) names of
          (shown, next) \<Rightarrow> Inr (map (\<lambda>name. the (fmlookup (st_repos s) name)) shown, next))"

definition UpdateRepositoryConfig ::
    "ctx_err option \<Rightarrow> string \<Rightarrow> RawMessage \<Rightarrow> int \<Rightarrow> string \<Rightarrow> gotime \<Rightarrow> Store
      \<Rightarrow> merror + Repository_meta \<times> Store" where
  "UpdateRepositoryConfig ctx name config expectedVersion actor at s = with_open ctx s
    (case fmlookup (st_repos s) name of
       None \<Rightarrow> Inl (NotFound ''repository'' name)
     | Some repo \<Rightarrow>
         if rp_ConfigVersion repo \<noteq> expectedVersion then Inl Stale
         else
           let history = (case fmlookup (st_configHistory s) name of None \<Rightarrow> [] | Some h \<Rightarrow> h)
                 @ [\<lparr>cr_Repository = name, cr_Version = rp_ConfigVersion repo,
                     cr_Config = rp_Config repo, cr_Actor = actor, cr_At = at\<rparr>];
               repo' = repo\<lparr>rp_Config := config, rp_ConfigVersion := rp_ConfigVersion repo + 1,
                            rp_UpdatedAt := at\<rparr>
           in Inr (repo', s\<lparr>st_configHistory := fmupd name history (st_configHistory s),
                            st_repos := fmupd name repo' (st_repos s)\<rparr>))"

definition ListConfigHistory ::
    "ctx_err option \<Rightarrow> string \<Rightarrow> Store \<Rightarrow> merror + ConfigRevision list" where
  "ListConfigHistory ctx name s = with_open ctx s
    (Inr (case fmlookup (st_configHistory s) name of None \<Rightarrow> [] | Some h \<Rightarrow> h))"

section \<open>Upstream credentials\<close>

definition PutProxyCredential ::
    "ctx_err option \<Rightarrow> ProxyCredential \<Rightarrow> Store \<Rightarrow> merror + Store" where
  "PutProxyCredential ctx cred s = with_open ctx s
    (if pc_Sealed cred = [] then Inl (Invalid ''sealed'')
     else case fmlookup (st_repos s) (pc_Repository cred) of
       None \<Rightarrow> Inl (NotFound ''repository'' (pc_Repository cred))
     | Some owner \<Rightarrow>
         if rp_Type owner \<noteq> Proxy then Inl (Invalid ''repository'')
         else Inr (s\<lparr>st_proxyCredentials :=
                fmupd (pc_Repository cred) cred (st_proxyCredentials s)\<rparr>))"

definition GetProxyCredential ::
    "ctx_err option \<Rightarrow> string \<Rightarrow> Store \<Rightarrow> merror + ProxyCredential" where
  "GetProxyCredential ctx repository s = with_open ctx s
    (case fmlookup (st_proxyCredentials s) repository of
       None \<Rightarrow> Inl (NotFound ''proxy credential'' repository)
     | Some cred \<Rightarrow> Inr cred)"

definition ProxyCredentialStatus_of ::
    "ctx_err option \<Rightarrow> string \<Rightarrow> Store \<Rightarrow> merror + ProxyCredentialStatus" where
  "ProxyCredentialStatus_of ctx repository s = with_open ctx s
    (Inr (case fmlookup (st_proxyCredentials s) repository of
       None \<Rightarrow> \<lparr>ps_Repository = repository, ps_Set = False, ps_RotatedAt = 0\<rparr>
     | Some cred \<Rightarrow> \<lparr>ps_Repository = repository, ps_Set = True,
                     ps_RotatedAt = pc_RotatedAt cred\<rparr>))"

definition DeleteProxyCredential ::
    "ctx_err option \<Rightarrow> string \<Rightarrow> Store \<Rightarrow> merror + Store" where
  "DeleteProxyCredential ctx repository s = with_open ctx s
    (case fmlookup (st_proxyCredentials s) repository of
       None \<Rightarrow> Inl (NotFound ''proxy credential'' repository)
     | Some _ \<Rightarrow> Inr (s\<lparr>st_proxyCredentials := fmdrop repository (st_proxyCredentials s)\<rparr>))"

section \<open>Deleting a repository\<close>

definition deleteCachedContent :: "string \<Rightarrow> Store \<Rightarrow> Store" where
  "deleteCachedContent entity s =
    (let gone = (\<lambda>content. fmlookup (st_cachedManifests s) content \<noteq> None \<and> belongsTo content entity)
     in s\<lparr>st_cachedManifests := fmfilter (\<lambda>content. \<not> gone content) (st_cachedManifests s),
          st_cachedRefs := fmfilter (\<lambda>content. \<not> gone content) (st_cachedRefs s),
          st_cachedBlobs := fmfilter (\<lambda>content. \<not> belongsTo content entity) (st_cachedBlobs s),
          st_tagLeases := fmfilter (\<lambda>content. \<not> belongsTo content entity) (st_tagLeases s),
          st_negativeCache := fmfilter (\<lambda>content. \<not> belongsTo content entity) (st_negativeCache s)\<rparr>)"

text \<open>What \<^verbatim>\<open>DeleteRepository\<close> removes, in the order it removes it.\<close>

definition remove_repository :: "string \<Rightarrow> Store \<Rightarrow> Store" where
  "remove_repository name s =
    (let gone = (\<lambda>content. fmlookup (st_manifests s) content \<noteq> None \<and> belongsTo content name);
         s1 = s\<lparr>st_repos := fmdrop name (st_repos s),
                st_members := fmdrop name (st_members s),
                st_configHistory := fmdrop name (st_configHistory s),
                st_proxyCredentials := fmdrop name (st_proxyCredentials s)\<rparr>;
         s2 = s1\<lparr>st_manifests := fmfilter (\<lambda>content. \<not> gone content) (st_manifests s1),
                 st_refs := fmfilter (\<lambda>content. \<not> gone content) (st_refs s1),
                 st_tags := fmfilter (\<lambda>content. \<not> gone content) (st_tags s1)\<rparr>;
         s3 = s2\<lparr>st_tags := fmfilter (\<lambda>content. \<not> belongsTo content name) (st_tags s2)\<rparr>;
         s4 = deleteCachedContent name s3;
         s5 = s4\<lparr>st_uploads := keep_entries (\<lambda>_ session. \<not> belongsTo (up_Repository session) name)
                   (st_uploads s4)\<rparr>
     in s5\<lparr>st_members :=
          fmmap (\<lambda>members. filter (\<lambda>m. gm_Repository m \<noteq> name) members) (st_members s5)\<rparr>)"

definition DeleteRepository :: "ctx_err option \<Rightarrow> string \<Rightarrow> Store \<Rightarrow> merror + Store" where
  "DeleteRepository ctx name s = with_open ctx s
    (if fmlookup (st_repos s) name = None then Inl (NotFound ''repository'' name)
     else Inr (remove_repository name s))"

section \<open>Group members\<close>

text \<open>The validation loop of \<^verbatim>\<open>SetGroupMembers\<close>, with the positions seen and the write targets
  counted so far.\<close>

fun check_members ::
    "Store \<Rightarrow> string \<Rightarrow> int list \<Rightarrow> nat \<Rightarrow> GroupMember list \<Rightarrow> merror + nat" where
  "check_members s grp seenPosition writeTargets [] = Inr writeTargets"
| "check_members s grp seenPosition writeTargets (m # ms) =
    (case fmlookup (st_repos s) (gm_Repository m) of
       None \<Rightarrow> Inl (NotFound ''repository'' (gm_Repository m))
     | Some repo \<Rightarrow>
         if gm_Repository m = grp then Inl (Invalid ''members'')
         else if rp_Type repo = Group then Inl (Invalid ''members'')
         else if gm_Position m \<in> set seenPosition then Inl (Invalid ''members'')
         else check_members s grp (gm_Position m # seenPosition)
                (if gm_WriteTarget m then writeTargets + 1 else writeTargets) ms)"

definition SetGroupMembers ::
    "ctx_err option \<Rightarrow> string \<Rightarrow> GroupMember list \<Rightarrow> Store \<Rightarrow> merror + Store" where
  "SetGroupMembers ctx grp members s = with_open ctx s
    (case fmlookup (st_repos s) grp of
       None \<Rightarrow> Inl (NotFound ''repository'' grp)
     | Some repo \<Rightarrow>
         if rp_Type repo \<noteq> Group then Inl (Invalid ''group'')
         else case check_members s grp [] 0 members of
           Inl e \<Rightarrow> Inl e
         | Inr writeTargets \<Rightarrow>
             if writeTargets > 1 then Inl (Invalid ''members'')
             else Inr (s\<lparr>st_members := fmupd grp (sort_key gm_Position members) (st_members s)\<rparr>))"

definition ListGroupMembers ::
    "ctx_err option \<Rightarrow> string \<Rightarrow> Store \<Rightarrow> merror + GroupMember list" where
  "ListGroupMembers ctx grp s = with_open ctx s
    (if fmlookup (st_repos s) grp = None then Inl (NotFound ''repository'' grp)
     else Inr (case fmlookup (st_members s) grp of None \<Rightarrow> [] | Some ms \<Rightarrow> ms))"

section \<open>Manifests\<close>

definition check_ref :: "ManifestRef \<Rightarrow> merror option" where
  "check_ref r =
    (if \<not> Valid_refkind (mr_Kind r) then Some (Invalid ''refs'')
     else if mr_Child r = [] then Some (Invalid ''refs'')
     else None)"

definition PutManifest ::
    "ctx_err option \<Rightarrow> Manifest \<Rightarrow> ManifestRef list \<Rightarrow> Store \<Rightarrow> merror + Store" where
  "PutManifest ctx m refs s = with_open ctx s
    (let entity = entityOf (mf_Repository m)
     in if \<not> repoExists s entity then Inl (NotFound ''repository'' entity)
        else if mf_Digest m = [] then Inl (Invalid ''digest'')
        else case first_error check_ref refs of
          Some e \<Rightarrow> Inl e
        | None \<Rightarrow>
            let s1 = (if fmlookup (st_manifests s) (mf_Repository m) = None
                      then s\<lparr>st_manifests := fmupd (mf_Repository m) fmempty (st_manifests s),
                             st_refs := fmupd (mf_Repository m) fmempty (st_refs s)\<rparr>
                      else s);
                s2 = s1\<lparr>st_manifests := put2 (mf_Repository m) (mf_Digest m) m (st_manifests s1)\<rparr>
            in if fmlookup (st_refs s2) (mf_Repository m) = None then Inl Panic
               else Inr (s2\<lparr>st_refs := put2 (mf_Repository m) (mf_Digest m) refs (st_refs s2)\<rparr>))"

definition GetManifest ::
    "ctx_err option \<Rightarrow> string \<Rightarrow> Digest \<Rightarrow> Store \<Rightarrow> merror + Manifest" where
  "GetManifest ctx repo digest s = with_open ctx s
    (case lookup2 (st_manifests s) repo digest of
       None \<Rightarrow> Inl (NotFound ''manifest'' digest)
     | Some m \<Rightarrow> Inr m)"

definition lists_child :: "Digest \<Rightarrow> ManifestRef list \<Rightarrow> bool" where
  "lists_child digest edges \<longleftrightarrow> list_ex (\<lambda>e. mr_Child e = digest \<and> mr_Kind e = RefChild) edges"

definition DeleteManifest ::
    "ctx_err option \<Rightarrow> string \<Rightarrow> Digest \<Rightarrow> Store \<Rightarrow> merror + Store" where
  "DeleteManifest ctx repo digest s = with_open ctx s
    (if lookup2 (st_manifests s) repo digest = None then Inl (NotFound ''manifest'' digest)
     else
       let parents = map fst (filter (\<lambda>(parent, edges). parent \<noteq> digest \<and> lists_child digest edges)
                                (entries (inner (st_refs s) repo)))
       in if parents \<noteq> [] then Inl (Referenced ''manifest'' digest (sort parents))
          else Inr (s\<lparr>st_manifests := del2 repo digest (st_manifests s),
                      st_refs := del2 repo digest (st_refs s),
                      st_tags := (case fmlookup (st_tags s) repo of
                          None \<Rightarrow> st_tags s
                        | Some ts \<Rightarrow> fmupd repo (keep_entries (\<lambda>_ tag. tg_Digest tag \<noteq> digest) ts)
                                      (st_tags s))\<rparr>))"

definition ListManifestRefs ::
    "ctx_err option \<Rightarrow> string \<Rightarrow> Digest \<Rightarrow> Store \<Rightarrow> merror + ManifestRef list" where
  "ListManifestRefs ctx repo digest s = with_open ctx s
    (if lookup2 (st_manifests s) repo digest = None then Inl (NotFound ''manifest'' digest)
     else Inr (case lookup2 (st_refs s) repo digest of None \<Rightarrow> [] | Some edges \<Rightarrow> edges))"

definition ListIndexParents ::
    "ctx_err option \<Rightarrow> string \<Rightarrow> Digest \<Rightarrow> Store \<Rightarrow> merror + Digest list" where
  "ListIndexParents ctx repo child s = with_open ctx s
    (Inr (sort (map fst (filter (\<lambda>(parent, edges). lists_child child edges)
                           (entries (inner (st_refs s) repo))))))"

definition ListReferrers ::
    "ctx_err option \<Rightarrow> string \<Rightarrow> Digest \<Rightarrow> string \<Rightarrow> Store \<Rightarrow> merror + Manifest list" where
  "ListReferrers ctx repo subject artifactType s = with_open ctx s
    (Inr (sort_key mf_Digest
      (filter (\<lambda>m. mf_Subject m = subject \<and> (artifactType = [] \<or> mf_ArtifactType m = artifactType))
        (map snd (entries (inner (st_manifests s) repo))))))"

section \<open>Tags\<close>

definition PutTag :: "ctx_err option \<Rightarrow> Tag \<Rightarrow> Store \<Rightarrow> merror + Store" where
  "PutTag ctx tag s = with_open ctx s
    (if tg_Name tag = [] then Inl (Invalid ''name'')
     else let entity = entityOf (tg_Repository tag)
     in if \<not> repoExists s entity then Inl (NotFound ''repository'' entity)
     else if lookup2 (st_manifests s) (tg_Repository tag) (tg_Digest tag) = None
       then Inl (NotFound ''manifest'' (tg_Digest tag))
     else
       let tag' = (case lookup2 (st_tags s) (tg_Repository tag) (tg_Name tag) of
             Some existing \<Rightarrow> tag\<lparr>tg_CreatedAt := tg_CreatedAt existing\<rparr>
           | None \<Rightarrow> tag)
       in Inr (s\<lparr>st_tags := put2 (tg_Repository tag) (tg_Name tag) tag' (st_tags s)\<rparr>))"

definition GetTag :: "ctx_err option \<Rightarrow> string \<Rightarrow> string \<Rightarrow> Store \<Rightarrow> merror + Tag" where
  "GetTag ctx repo name s = with_open ctx s
    (case lookup2 (st_tags s) repo name of
       None \<Rightarrow> Inl (NotFound ''tag'' name)
     | Some tag \<Rightarrow> Inr tag)"

definition ListTags ::
    "ctx_err option \<Rightarrow> string \<Rightarrow> ListOptions \<Rightarrow> Store \<Rightarrow> merror + Tag list \<times> string" where
  "ListTags ctx repo opts s = with_open ctx s
    (if \<not> knownContentName s repo \<or> \<not> Visibility_Allows (lo_Visibility opts) repo
     then Inl (NotFound ''repository'' repo)
     else
       let names = sort (filter (\<lambda>name. name > lo_Cursor opts) (keys_of (inner (st_tags s) repo)))
       in case page_names (EffectiveLimit opts) names of
            (shown, next) \<Rightarrow> Inr (map (\<lambda>name. the (lookup2 (st_tags s) repo name)) shown, next))"

definition DeleteTag ::
    "ctx_err option \<Rightarrow> string \<Rightarrow> string \<Rightarrow> Store \<Rightarrow> merror + Store" where
  "DeleteTag ctx repo name s = with_open ctx s
    (if lookup2 (st_tags s) repo name = None then Inl (NotFound ''tag'' name)
     else Inr (s\<lparr>st_tags := del2 repo name (st_tags s)\<rparr>))"

text \<open>\<^verbatim>\<open>collect\<close> of \<^verbatim>\<open>ListContentNames\<close>: the names gathered so far double as the set of names
  seen, since a name is added to both or to neither.\<close>

definition collect :: "ListOptions \<Rightarrow> string \<Rightarrow> bool \<Rightarrow> string list \<Rightarrow> string list" where
  "collect opts name held names =
    (if \<not> held then names
     else if name \<in> set names then names
     else if Visibility_Allows (lo_Visibility opts) name \<and> name > lo_Cursor opts then names @ [name]
     else names)"

definition ListContentNames ::
    "ctx_err option \<Rightarrow> ListOptions \<Rightarrow> Store \<Rightarrow> merror + string list \<times> string" where
  "ListContentNames ctx opts s = with_open ctx s
    (let names1 = fold (\<lambda>(name, ms). collect opts name (entries ms \<noteq> [])) (entries (st_manifests s)) [];
         names2 = fold (\<lambda>(name, ms). collect opts name (entries ms \<noteq> []))
                    (entries (st_cachedManifests s)) names1
     in Inr (page_names (EffectiveLimit opts) (sort names2)))"

section \<open>Blobs\<close>

definition PutBlob :: "ctx_err option \<Rightarrow> Blob \<Rightarrow> Store \<Rightarrow> merror + Store" where
  "PutBlob ctx blob s = with_open ctx s
    (if bl_Digest blob = [] then Inl (Invalid ''digest'')
     else if bl_Size blob < 0 then Inl (Invalid ''size'')
     else if fmlookup (st_blobs s) (bl_Digest blob) \<noteq> None then Inr s
     else Inr (s\<lparr>st_blobs := fmupd (bl_Digest blob) blob (st_blobs s)\<rparr>))"

definition GetBlob :: "ctx_err option \<Rightarrow> Digest \<Rightarrow> Store \<Rightarrow> merror + Blob" where
  "GetBlob ctx digest s = with_open ctx s
    (case fmlookup (st_blobs s) digest of
       None \<Rightarrow> Inl (NotFound ''blob'' digest)
     | Some blob \<Rightarrow> Inr blob)"

definition DeleteBlob :: "ctx_err option \<Rightarrow> Digest \<Rightarrow> Store \<Rightarrow> merror + Store" where
  "DeleteBlob ctx digest s = with_open ctx s
    (if fmlookup (st_blobs s) digest = None then Inl (NotFound ''blob'' digest)
     else Inr (s\<lparr>st_blobs := fmdrop digest (st_blobs s)\<rparr>))"

section \<open>Upload sessions\<close>

definition CreateUpload :: "ctx_err option \<Rightarrow> UploadSession \<Rightarrow> Store \<Rightarrow> merror + Store" where
  "CreateUpload ctx session s = with_open ctx s
    (if up_ID session = [] then Inl (Invalid ''id'')
     else let entity = entityOf (up_Repository session)
     in if \<not> repoExists s entity then Inl (NotFound ''repository'' entity)
     else if fmlookup (st_uploads s) (up_ID session) \<noteq> None
       then Inl (Conflict ''upload'' (up_ID session))
     else Inr (s\<lparr>st_uploads := fmupd (up_ID session) session (st_uploads s)\<rparr>))"

definition GetUpload :: "ctx_err option \<Rightarrow> string \<Rightarrow> Store \<Rightarrow> merror + UploadSession" where
  "GetUpload ctx uid s = with_open ctx s
    (case fmlookup (st_uploads s) uid of
       None \<Rightarrow> Inl (NotFound ''upload'' uid)
     | Some session \<Rightarrow> Inr session)"

definition UpdateUpload ::
    "ctx_err option \<Rightarrow> string \<Rightarrow> int \<Rightarrow> gotime \<Rightarrow> Store \<Rightarrow> merror + Store" where
  "UpdateUpload ctx uid bytes at s = with_open ctx s
    (case fmlookup (st_uploads s) uid of
       None \<Rightarrow> Inl (NotFound ''upload'' uid)
     | Some session \<Rightarrow>
         if bytes < 0 then Inl (Invalid ''bytes'')
         else Inr (s\<lparr>st_uploads :=
                fmupd uid (session\<lparr>up_Bytes := bytes, up_LastChunkAt := at\<rparr>) (st_uploads s)\<rparr>))"

definition DeleteUpload :: "ctx_err option \<Rightarrow> string \<Rightarrow> Store \<Rightarrow> merror + Store" where
  "DeleteUpload ctx uid s = with_open ctx s
    (if fmlookup (st_uploads s) uid = None then Inl (NotFound ''upload'' uid)
     else Inr (s\<lparr>st_uploads := fmdrop uid (st_uploads s)\<rparr>))"

definition ListStaleUploads ::
    "ctx_err option \<Rightarrow> gotime \<Rightarrow> int \<Rightarrow> Store \<Rightarrow> merror + UploadSession list" where
  "ListStaleUploads ctx before limit s = with_open ctx s
    (let out = sort_key (\<lambda>u. (up_LastChunkAt u, up_ID u))
                 (filter (\<lambda>u. up_LastChunkAt u < before) (map snd (entries (st_uploads s))))
     in Inr (if limit > 0 \<and> int (length out) > limit then take (nat limit) out else out))"

section \<open>Pull statistics\<close>

definition validPullRecord :: "PullRecord \<Rightarrow> merror option" where
  "validPullRecord r =
    (if pr_Repository r = [] then Some (Invalid ''repository'')
     else if pr_Reference r = [] then Some (Invalid ''reference'')
     else if pr_Count r \<le> 0 then Some (Invalid ''count'')
     else None)"

definition record_pull ::
    "PullRecord \<Rightarrow> (string \<times> string, PullStats) fmap \<Rightarrow> (string \<times> string, PullStats) fmap" where
  "record_pull r m =
    (let key = (pr_Repository r, pr_Reference r);
         stats = (case fmlookup m key of
             Some stats \<Rightarrow> stats
           | None \<Rightarrow> \<lparr>pl_Repository = pr_Repository r, pl_Reference = pr_Reference r,
                      pl_LastPulledAt = 0, pl_Count = 0\<rparr>);
         stats1 = stats\<lparr>pl_Count := wrap64 (pl_Count stats + pr_Count r)\<rparr>;
         stats2 = (if pr_At r > pl_LastPulledAt stats1
                   then stats1\<lparr>pl_LastPulledAt := pr_At r\<rparr> else stats1)
     in fmupd key stats2 m)"

definition RecordPulls :: "ctx_err option \<Rightarrow> PullRecord list \<Rightarrow> Store \<Rightarrow> merror + Store" where
  "RecordPulls ctx records s = with_open ctx s
    (case first_error validPullRecord records of
       Some e \<Rightarrow> Inl e
     | None \<Rightarrow> Inr (s\<lparr>st_pullStats := fold record_pull records (st_pullStats s)\<rparr>))"

definition GetPullStats ::
    "ctx_err option \<Rightarrow> string \<Rightarrow> string \<Rightarrow> Store \<Rightarrow> merror + PullStats" where
  "GetPullStats ctx repo reference s = with_open ctx s
    (case fmlookup (st_pullStats s) (repo, reference) of
       None \<Rightarrow> Inl (NotFound ''pull stats'' (repo @ ''@'' @ reference))
     | Some stats \<Rightarrow> Inr stats)"

lemmas [store_defs] =
  CreateRepository_def UpdateRepositoryConfig_def PutProxyCredential_def
  DeleteProxyCredential_def SetGroupMembers_def PutManifest_def DeleteManifest_def
  PutTag_def DeleteTag_def PutBlob_def DeleteBlob_def CreateUpload_def UpdateUpload_def
  DeleteUpload_def RecordPulls_def

section \<open>Steps\<close>

text \<open>The successful calls of the methods above that change the store, \<^verbatim>\<open>DeleteRepository\<close> apart.\<close>

inductive content_step :: "Store \<Rightarrow> Store \<Rightarrow> bool" where
  create_repository: "CreateRepository ctx repo s = Inr (r, s') \<Longrightarrow> content_step s s'"
| update_config: "UpdateRepositoryConfig ctx name config v actor at s = Inr (r, s') \<Longrightarrow> content_step s s'"
| put_credential: "PutProxyCredential ctx cred s = Inr s' \<Longrightarrow> content_step s s'"
| delete_credential: "DeleteProxyCredential ctx name s = Inr s' \<Longrightarrow> content_step s s'"
| set_members: "SetGroupMembers ctx name ms s = Inr s' \<Longrightarrow> content_step s s'"
| put_manifest: "PutManifest ctx m refs s = Inr s' \<Longrightarrow> content_step s s'"
| delete_manifest: "DeleteManifest ctx name digest s = Inr s' \<Longrightarrow> content_step s s'"
| put_tag: "PutTag ctx tag s = Inr s' \<Longrightarrow> content_step s s'"
| delete_tag: "DeleteTag ctx name tname s = Inr s' \<Longrightarrow> content_step s s'"
| put_blob: "PutBlob ctx blob s = Inr s' \<Longrightarrow> content_step s s'"
| delete_blob: "DeleteBlob ctx digest s = Inr s' \<Longrightarrow> content_step s s'"
| create_upload: "CreateUpload ctx session s = Inr s' \<Longrightarrow> content_step s s'"
| update_upload: "UpdateUpload ctx uid bytes at s = Inr s' \<Longrightarrow> content_step s s'"
| delete_upload: "DeleteUpload ctx uid s = Inr s' \<Longrightarrow> content_step s s'"
| record_pulls: "RecordPulls ctx records s = Inr s' \<Longrightarrow> content_step s s'"

section \<open>Reading a successful call\<close>

text \<open>A call that succeeds took every branch that does not refuse; these turn
  \<^term>\<open>f x = Inr y\<close> into the conjunction of the conditions passed and the equation for
  \<^term>\<open>y\<close>.\<close>

lemma with_open_Inr [ok_simps]:
  "with_open ctx s body = Inr x \<longleftrightarrow> ctx = None \<and> \<not> st_closed s \<and> body = Inr x"
  by (simp add: with_open_def checkOpen_def split: option.splits)

lemma if_Inl_Inr [ok_simps]: "(if c then Inl e else y) = Inr x \<longleftrightarrow> \<not> c \<and> y = Inr x"
  by simp

lemma case_None_Inl [ok_simps]:
  "(case v of None \<Rightarrow> Inl e | Some a \<Rightarrow> f a) = Inr x \<longleftrightarrow> (\<exists>a. v = Some a \<and> f a = Inr x)"
  by (simp split: option.splits)

lemma case_Some_Inl [ok_simps]:
  "(case v of None \<Rightarrow> y | Some a \<Rightarrow> Inl (g a)) = Inr x \<longleftrightarrow> v = None \<and> y = Inr x"
  by (simp split: option.splits)

lemma case_sum_Inl [ok_simps]:
  "(case v of Inl e \<Rightarrow> Inl (g e) | Inr a \<Rightarrow> f a) = Inr x \<longleftrightarrow> (\<exists>a. v = Inr a \<and> f a = Inr x)"
  by (simp split: sum.splits)

lemma Let_Inr [ok_simps]: "(let a = v in f a) = Inr x \<longleftrightarrow> f v = Inr x"
  by simp

lemma entityOf_belongsTo: "entityOf c = e \<Longrightarrow> belongsTo c e"
  by (cases c rule: Prefix_cases) (auto simp: entityOf_def belongsTo_def HasPrefix_iff)

end
