(* ===== verification/Meta_Cached.thy ===== *)
theory Meta_Cached
  imports Meta_Store
begin

text \<open>
  Cached proxy content, \<^verbatim>\<open>src/internal/meta/memory/cached.go\<close>: manifests, blobs, tag leases and
  recorded absences held under proxy repositories, with what eviction reads and writes.
\<close>

section \<open>Storing\<close>

definition requireProxyEntity :: "Store \<Rightarrow> string \<Rightarrow> merror option" where
  "requireProxyEntity s name =
    (let entity = entityOf name
     in case fmlookup (st_repos s) entity of
          None \<Rightarrow> Some (NotFound ''repository'' entity)
        | Some repo \<Rightarrow> if rp_Type repo \<noteq> Proxy then Some (Invalid ''repository'') else None)"

definition check_cached_ref :: "CachedManifestRef \<Rightarrow> merror option" where
  "check_cached_ref r =
    (if \<not> Valid_refkind (cf_Kind r) then Some (Invalid ''refs'')
     else if cf_Child r = [] then Some (Invalid ''refs'')
     else None)"

definition PutCachedManifest ::
    "ctx_err option \<Rightarrow> CachedManifest \<Rightarrow> CachedManifestRef list \<Rightarrow> Store \<Rightarrow> merror + Store" where
  "PutCachedManifest ctx m refs s = with_open ctx s
    (case requireProxyEntity s (cm_Repository m) of
       Some e \<Rightarrow> Inl e
     | None \<Rightarrow>
         if cm_Digest m = [] then Inl (Invalid ''digest'')
         else case first_error check_cached_ref refs of
           Some e \<Rightarrow> Inl e
         | None \<Rightarrow>
             let s1 = (if fmlookup (st_cachedManifests s) (cm_Repository m) = None
                       then s\<lparr>st_cachedManifests := fmupd (cm_Repository m) fmempty (st_cachedManifests s),
                              st_cachedRefs := fmupd (cm_Repository m) fmempty (st_cachedRefs s)\<rparr>
                       else s);
                 s2 = s1\<lparr>st_cachedManifests :=
                        put2 (cm_Repository m) (cm_Digest m) m (st_cachedManifests s1)\<rparr>
             in if fmlookup (st_cachedRefs s2) (cm_Repository m) = None then Inl Panic
                else Inr (s2\<lparr>st_cachedRefs :=
                        put2 (cm_Repository m) (cm_Digest m) refs (st_cachedRefs s2)\<rparr>))"

definition GetCachedManifest ::
    "ctx_err option \<Rightarrow> string \<Rightarrow> Digest \<Rightarrow> Store \<Rightarrow> merror + CachedManifest" where
  "GetCachedManifest ctx repo digest s = with_open ctx s
    (case lookup2 (st_cachedManifests s) repo digest of
       None \<Rightarrow> Inl (NotFound ''cached manifest'' digest)
     | Some m \<Rightarrow> Inr m)"

definition ListCachedManifestRefs ::
    "ctx_err option \<Rightarrow> string \<Rightarrow> Digest \<Rightarrow> Store \<Rightarrow> merror + CachedManifestRef list" where
  "ListCachedManifestRefs ctx repo digest s = with_open ctx s
    (if lookup2 (st_cachedManifests s) repo digest = None
     then Inl (NotFound ''cached manifest'' digest)
     else Inr (case lookup2 (st_cachedRefs s) repo digest of None \<Rightarrow> [] | Some edges \<Rightarrow> edges))"

definition PutCachedBlob :: "ctx_err option \<Rightarrow> CachedBlob \<Rightarrow> Store \<Rightarrow> merror + Store" where
  "PutCachedBlob ctx b s = with_open ctx s
    (case requireProxyEntity s (cb_Repository b) of
       Some e \<Rightarrow> Inl e
     | None \<Rightarrow>
         if cb_Digest b = [] then Inl (Invalid ''digest'')
         else Inr (s\<lparr>st_cachedBlobs := put2 (cb_Repository b) (cb_Digest b) b (st_cachedBlobs s)\<rparr>))"

definition GetCachedBlob ::
    "ctx_err option \<Rightarrow> string \<Rightarrow> Digest \<Rightarrow> Store \<Rightarrow> merror + CachedBlob" where
  "GetCachedBlob ctx repo digest s = with_open ctx s
    (case lookup2 (st_cachedBlobs s) repo digest of
       None \<Rightarrow> Inl (NotFound ''cached blob'' digest)
     | Some b \<Rightarrow> Inr b)"

definition PutTagLease :: "ctx_err option \<Rightarrow> TagLease \<Rightarrow> Store \<Rightarrow> merror + Store" where
  "PutTagLease ctx lease s = with_open ctx s
    (case requireProxyEntity s (tl_Repository lease) of
       Some e \<Rightarrow> Inl e
     | None \<Rightarrow>
         if tl_Tag lease = [] then Inl (Invalid ''tag'')
         else if tl_Digest lease = [] then Inl (Invalid ''digest'')
         else Inr (s\<lparr>st_tagLeases := put2 (tl_Repository lease) (tl_Tag lease) lease (st_tagLeases s)\<rparr>))"

definition GetTagLease ::
    "ctx_err option \<Rightarrow> string \<Rightarrow> string \<Rightarrow> Store \<Rightarrow> merror + TagLease" where
  "GetTagLease ctx repo tag s = with_open ctx s
    (case lookup2 (st_tagLeases s) repo tag of
       None \<Rightarrow> Inl (NotFound ''tag lease'' tag)
     | Some lease \<Rightarrow> Inr lease)"

definition DeleteTagLease ::
    "ctx_err option \<Rightarrow> string \<Rightarrow> string \<Rightarrow> Store \<Rightarrow> merror + Store" where
  "DeleteTagLease ctx repo tag s = with_open ctx s
    (if lookup2 (st_tagLeases s) repo tag = None then Inl (NotFound ''tag lease'' tag)
     else Inr (s\<lparr>st_tagLeases := del2 repo tag (st_tagLeases s)\<rparr>))"

definition PutNegativeEntry :: "ctx_err option \<Rightarrow> NegativeEntry \<Rightarrow> Store \<Rightarrow> merror + Store" where
  "PutNegativeEntry ctx entry s = with_open ctx s
    (case requireProxyEntity s (ne_Repository entry) of
       Some e \<Rightarrow> Inl e
     | None \<Rightarrow>
         if ne_Reference entry = [] then Inl (Invalid ''reference'')
         else Inr (s\<lparr>st_negativeCache :=
                put2 (ne_Repository entry) (ne_Reference entry) entry (st_negativeCache s)\<rparr>))"

definition GetNegativeEntry ::
    "ctx_err option \<Rightarrow> string \<Rightarrow> string \<Rightarrow> Store \<Rightarrow> merror + NegativeEntry" where
  "GetNegativeEntry ctx repo reference s = with_open ctx s
    (case lookup2 (st_negativeCache s) repo reference of
       None \<Rightarrow> Inl (NotFound ''negative cache entry'' reference)
     | Some entry \<Rightarrow> Inr entry)"

definition DeleteNegativeEntry ::
    "ctx_err option \<Rightarrow> string \<Rightarrow> string \<Rightarrow> Store \<Rightarrow> merror + Store" where
  "DeleteNegativeEntry ctx repo reference s = with_open ctx s
    (if lookup2 (st_negativeCache s) repo reference = None
     then Inl (NotFound ''negative cache entry'' reference)
     else Inr (s\<lparr>st_negativeCache := del2 repo reference (st_negativeCache s)\<rparr>))"

section \<open>Usage and eviction\<close>

definition inCacheScope :: "string \<Rightarrow> string \<Rightarrow> bool" where
  "inCacheScope content entity \<longleftrightarrow> entity = [] \<or> belongsTo content entity"

text \<open>The rows of a family that an entity's scope reaches, as the nested loops visit them.\<close>

definition rows_in_scope ::
    "string \<Rightarrow> (string, (Digest, 'v) fmap) fmap \<Rightarrow> (string \<times> Digest \<times> 'v) list" where
  "rows_in_scope entity m =
    concat (map (\<lambda>(content, rows).
        if \<not> inCacheScope content entity then []
        else map (\<lambda>(digest, v). (content, digest, v)) (entries rows)) (entries m))"

definition CachedUsage :: "ctx_err option \<Rightarrow> string \<Rightarrow> Store \<Rightarrow> merror + CacheUsage" where
  "CachedUsage ctx entity s = with_open ctx s
    (let ms = rows_in_scope entity (st_cachedManifests s);
         bs = rows_in_scope entity (st_cachedBlobs s);
         mbytes = wrap64 (sum_list (map (\<lambda>(_, _, m). cm_Size m) ms));
         bbytes = wrap64 (sum_list (map (\<lambda>(_, _, b). cb_Size b) bs))
     in Inr \<lparr>cu_Bytes = wrap64 (mbytes + bbytes), cu_ManifestBytes = mbytes, cu_BlobBytes = bbytes,
             cu_Manifests = int (length ms), cu_Blobs = int (length bs)\<rparr>)"

definition evict_key :: "CachedItem \<Rightarrow> gotime \<times> string \<times> Digest \<times> string" where
  "evict_key i = (ci_LastAccessAt i, ci_Repository i, ci_Digest i, ci_Kind i)"

definition cached_items :: "string \<Rightarrow> Store \<Rightarrow> CachedItem list" where
  "cached_items entity s =
    map (\<lambda>(content, digest, m). \<lparr>ci_Repository = content, ci_Digest = digest,
          ci_Kind = CachedManifestKind, ci_Size = cm_Size m, ci_LastAccessAt = cm_LastAccessAt m\<rparr>)
      (rows_in_scope entity (st_cachedManifests s)) @
    map (\<lambda>(content, digest, b). \<lparr>ci_Repository = content, ci_Digest = digest,
          ci_Kind = CachedBlobKind, ci_Size = cb_Size b, ci_LastAccessAt = cb_LastAccessAt b\<rparr>)
      (rows_in_scope entity (st_cachedBlobs s))"

definition ListEvictable ::
    "ctx_err option \<Rightarrow> string \<Rightarrow> int \<Rightarrow> Store \<Rightarrow> merror + CachedItem list" where
  "ListEvictable ctx entity limit s = with_open ctx s
    (if limit \<le> 0 then Inr []
     else let items = sort_key evict_key (cached_items entity s)
          in Inr (if int (length items) > limit then take (nat limit) items else items))"

definition DeleteCachedManifest ::
    "ctx_err option \<Rightarrow> string \<Rightarrow> Digest \<Rightarrow> Store \<Rightarrow> merror + Store" where
  "DeleteCachedManifest ctx repo digest s = with_open ctx s
    (if lookup2 (st_cachedManifests s) repo digest = None
     then Inl (NotFound ''cached manifest'' digest)
     else Inr (s\<lparr>st_cachedManifests := del2 repo digest (st_cachedManifests s),
                 st_cachedRefs := del2 repo digest (st_cachedRefs s)\<rparr>))"

definition blobClaims :: "Store \<Rightarrow> Digest \<Rightarrow> int" where
  "blobClaims s digest =
    int (length (filter (\<lambda>(_, blobs). fmlookup blobs digest \<noteq> None) (entries (st_cachedBlobs s))))"

definition DeleteCachedBlob ::
    "ctx_err option \<Rightarrow> string \<Rightarrow> Digest \<Rightarrow> Store \<Rightarrow> merror + int \<times> Store" where
  "DeleteCachedBlob ctx repo digest s = with_open ctx s
    (if lookup2 (st_cachedBlobs s) repo digest = None then Inl (NotFound ''cached blob'' digest)
     else let s' = s\<lparr>st_cachedBlobs := del2 repo digest (st_cachedBlobs s)\<rparr>
          in Inr (blobClaims s' digest, s'))"

definition CachedBlobClaims :: "ctx_err option \<Rightarrow> Digest \<Rightarrow> Store \<Rightarrow> merror + int" where
  "CachedBlobClaims ctx digest s = with_open ctx s (Inr (blobClaims s digest))"

definition check_access :: "CacheAccess \<Rightarrow> merror option" where
  "check_access a =
    (if \<not> Valid_cachedkind (ca_Kind a) then Some (Invalid ''kind'')
     else if ca_Digest a = [] then Some (Invalid ''digest'')
     else None)"

definition touch :: "CacheAccess \<Rightarrow> Store \<Rightarrow> Store" where
  "touch a s =
    (if ca_Kind a = CachedManifestKind then
       (case lookup2 (st_cachedManifests s) (ca_Repository a) (ca_Digest a) of
          None \<Rightarrow> s
        | Some m \<Rightarrow>
            if \<not> ca_At a > cm_LastAccessAt m then s
            else s\<lparr>st_cachedManifests := put2 (ca_Repository a) (ca_Digest a)
                     (m\<lparr>cm_LastAccessAt := ca_At a\<rparr>) (st_cachedManifests s)\<rparr>)
     else if ca_Kind a = CachedBlobKind then
       (case lookup2 (st_cachedBlobs s) (ca_Repository a) (ca_Digest a) of
          None \<Rightarrow> s
        | Some b \<Rightarrow>
            if \<not> ca_At a > cb_LastAccessAt b then s
            else s\<lparr>st_cachedBlobs := put2 (ca_Repository a) (ca_Digest a)
                     (b\<lparr>cb_LastAccessAt := ca_At a\<rparr>) (st_cachedBlobs s)\<rparr>)
     else s)"

text \<open>An empty batch returns before the store is looked at, so it succeeds on a closed store.\<close>

definition TouchCached :: "ctx_err option \<Rightarrow> CacheAccess list \<Rightarrow> Store \<Rightarrow> merror + Store" where
  "TouchCached ctx accesses s =
    (case ctx of
       Some e \<Rightarrow> Inl (CtxErr e)
     | None \<Rightarrow>
         if accesses = [] then Inr s
         else case checkOpen s of
           Some e \<Rightarrow> Inl e
         | None \<Rightarrow>
             (case first_error check_access accesses of
                Some e \<Rightarrow> Inl e
              | None \<Rightarrow> Inr (fold touch accesses s)))"

lemmas [store_defs] =
  PutCachedManifest_def PutCachedBlob_def PutTagLease_def DeleteTagLease_def
  PutNegativeEntry_def DeleteNegativeEntry_def DeleteCachedManifest_def DeleteCachedBlob_def

section \<open>Steps\<close>

inductive cached_step :: "Store \<Rightarrow> Store \<Rightarrow> bool" where
  put_cached_manifest: "PutCachedManifest ctx m refs s = Inr s' \<Longrightarrow> cached_step s s'"
| put_cached_blob: "PutCachedBlob ctx b s = Inr s' \<Longrightarrow> cached_step s s'"
| put_lease: "PutTagLease ctx lease s = Inr s' \<Longrightarrow> cached_step s s'"
| delete_lease: "DeleteTagLease ctx name tname s = Inr s' \<Longrightarrow> cached_step s s'"
| put_negative: "PutNegativeEntry ctx entry s = Inr s' \<Longrightarrow> cached_step s s'"
| delete_negative: "DeleteNegativeEntry ctx name reference s = Inr s' \<Longrightarrow> cached_step s s'"
| delete_cached_manifest: "DeleteCachedManifest ctx name digest s = Inr s' \<Longrightarrow> cached_step s s'"
| delete_cached_blob: "DeleteCachedBlob ctx name digest s = Inr (n, s') \<Longrightarrow> cached_step s s'"
| touch_cached: "TouchCached ctx accesses s = Inr s' \<Longrightarrow> cached_step s s'"

end
