(* ===== verification/Meta_GC.thy ===== *)
theory Meta_GC
  imports Meta_Cached
begin

text \<open>
  What a garbage-collection sweep asks of the metadata store,
  \<^verbatim>\<open>src/internal/meta/memory/gc.go\<close>: which hosted blobs nothing references, the conditional delete,
  and the durable progress of a run.
\<close>

definition referencedAsBlob :: "Store \<Rightarrow> Digest \<Rightarrow> bool" where
  "referencedAsBlob s digest =
    list_ex (\<lambda>(_, manifests). list_ex (\<lambda>(_, refs).
        list_ex (\<lambda>ref. mr_Child ref = digest \<and> (mr_Kind ref = RefConfig \<or> mr_Kind ref = RefLayer)) refs)
      (entries manifests)) (entries (st_refs s))"

definition pinnedByUpload :: "Store \<Rightarrow> Digest \<Rightarrow> bool" where
  "pinnedByUpload s digest = list_ex (\<lambda>(_, session). up_Digest session = digest) (entries (st_uploads s))"

definition sweepable :: "Store \<Rightarrow> Blob \<Rightarrow> gotime \<Rightarrow> bool" where
  "sweepable s blob before \<longleftrightarrow>
    bl_CreatedAt blob < before \<and> \<not> referencedAsBlob s (bl_Digest blob)
    \<and> \<not> pinnedByUpload s (bl_Digest blob)"

definition ListSweepCandidates ::
    "ctx_err option \<Rightarrow> gotime \<Rightarrow> Digest \<Rightarrow> int \<Rightarrow> Store \<Rightarrow> merror + Blob list" where
  "ListSweepCandidates ctx before after limit s = with_open ctx s
    (if limit \<le> 0 then Inr []
     else
       let candidates = sort_key bl_Digest
             (filter (\<lambda>blob. \<not> bl_Digest blob \<le> after \<and> sweepable s blob before)
               (map snd (entries (st_blobs s))))
       in Inr (if int (length candidates) > limit then take (nat limit) candidates else candidates))"

definition DeleteBlobIfUnreferenced ::
    "ctx_err option \<Rightarrow> Digest \<Rightarrow> gotime \<Rightarrow> Store \<Rightarrow> merror + bool \<times> Store" where
  "DeleteBlobIfUnreferenced ctx digest before s = with_open ctx s
    (case fmlookup (st_blobs s) digest of
       None \<Rightarrow> Inr (False, s)
     | Some blob \<Rightarrow>
         if \<not> sweepable s blob before then Inr (False, s)
         else Inr (True, s\<lparr>st_blobs := fmdrop digest (st_blobs s)\<rparr>))"

definition StartGCRun :: "ctx_err option \<Rightarrow> GCRun \<Rightarrow> Store \<Rightarrow> merror + Store" where
  "StartGCRun ctx run s = with_open ctx s
    (if gr_ID run = [] then Inl (Invalid ''id'')
     else if fmlookup (st_gcRuns s) (gr_ID run) \<noteq> None then Inl (Conflict ''gc run'' (gr_ID run))
     else Inr (s\<lparr>st_gcRuns := fmupd (gr_ID run) run (st_gcRuns s)\<rparr>))"

definition SaveGCProgress ::
    "ctx_err option \<Rightarrow> string \<Rightarrow> Digest \<Rightarrow> int \<Rightarrow> int \<Rightarrow> int \<Rightarrow> Store \<Rightarrow> merror + Store" where
  "SaveGCProgress ctx rid cursor scanned deleted freedBytes s = with_open ctx s
    (case fmlookup (st_gcRuns s) rid of
       None \<Rightarrow> Inl (NotFound ''gc run'' rid)
     | Some run \<Rightarrow>
         Inr (s\<lparr>st_gcRuns := fmupd rid
           (run\<lparr>gr_Cursor := cursor, gr_Scanned := scanned, gr_Deleted := deleted,
                gr_FreedBytes := freedBytes\<rparr>) (st_gcRuns s)\<rparr>))"

definition FinishGCRun ::
    "ctx_err option \<Rightarrow> string \<Rightarrow> gotime \<Rightarrow> string \<Rightarrow> Store \<Rightarrow> merror + Store" where
  "FinishGCRun ctx rid at failure s = with_open ctx s
    (case fmlookup (st_gcRuns s) rid of
       None \<Rightarrow> Inl (NotFound ''gc run'' rid)
     | Some run \<Rightarrow>
         Inr (s\<lparr>st_gcRuns := fmupd rid
           (run\<lparr>gr_FinishedAt := at, gr_Failure := failure\<rparr>) (st_gcRuns s)\<rparr>))"

definition GetGCRun :: "ctx_err option \<Rightarrow> string \<Rightarrow> Store \<Rightarrow> merror + GCRun" where
  "GetGCRun ctx rid s = with_open ctx s
    (case fmlookup (st_gcRuns s) rid of
       None \<Rightarrow> Inl (NotFound ''gc run'' rid)
     | Some run \<Rightarrow> Inr run)"

text \<open>The loop of \<^verbatim>\<open>ResumableGCRun\<close>: \<^term>\<open>None\<close> while nothing unfinished was found.\<close>

fun newest_unfinished :: "GCRun option \<Rightarrow> GCRun list \<Rightarrow> GCRun option" where
  "newest_unfinished newest [] = newest"
| "newest_unfinished newest (run # runs) =
    newest_unfinished
      (if gr_FinishedAt run \<noteq> 0 then newest
       else case newest of
         None \<Rightarrow> Some run
       | Some n \<Rightarrow>
           if gr_StartedAt run > gr_StartedAt n
              \<or> gr_StartedAt run = gr_StartedAt n \<and> gr_ID run > gr_ID n
           then Some run else newest) runs"

definition ResumableGCRun :: "ctx_err option \<Rightarrow> Store \<Rightarrow> merror + GCRun" where
  "ResumableGCRun ctx s = with_open ctx s
    (case newest_unfinished None (map snd (entries (st_gcRuns s))) of
       None \<Rightarrow> Inl (NotFound ''gc run'' ''unfinished'')
     | Some run \<Rightarrow> Inr run)"

lemmas [store_defs] =
  DeleteBlobIfUnreferenced_def StartGCRun_def SaveGCProgress_def FinishGCRun_def

section \<open>Steps\<close>

inductive gc_step :: "Store \<Rightarrow> Store \<Rightarrow> bool" where
  delete_unreferenced: "DeleteBlobIfUnreferenced ctx digest before s = Inr (b, s') \<Longrightarrow> gc_step s s'"
| start_run: "StartGCRun ctx run s = Inr s' \<Longrightarrow> gc_step s s'"
| save_progress: "SaveGCProgress ctx rid cursor n d f s = Inr s' \<Longrightarrow> gc_step s s'"
| finish_run: "FinishGCRun ctx rid at failure s = Inr s' \<Longrightarrow> gc_step s s'"

end
