(* ===== verification/Meta_Identity.thy ===== *)
theory Meta_Identity
  imports Meta_GC
begin

text \<open>
  Subjects, groups, roles and bindings, \<^verbatim>\<open>src/internal/meta/memory/identity.go\<close>.  A group's member set \<^verbatim>\<open>map[string]bool\<close> only ever stores \<^verbatim>\<open>true\<close>, so it is
  a finite set.
\<close>

section \<open>Subjects\<close>

definition CreateSubject :: "ctx_err option \<Rightarrow> Subject \<Rightarrow> Store \<Rightarrow> merror + Store" where
  "CreateSubject ctx subject s = with_open ctx s
    (if sj_Name subject = [] then Inl (Invalid ''name'')
     else if sj_ID subject = [] then Inl (Invalid ''id'')
     else if \<not> Valid_subjectkind (sj_Kind subject) then Inl (Invalid ''kind'')
     else if fmlookup (st_subjects s) (sj_Name subject) \<noteq> None
       then Inl (Conflict ''subject'' (sj_Name subject))
     else if list_ex (\<lambda>(_, existing). sj_ID existing = sj_ID subject) (entries (st_subjects s))
       then Inl (Conflict ''subject id'' (sj_ID subject))
     else Inr (s\<lparr>st_subjects := fmupd (sj_Name subject) subject (st_subjects s)\<rparr>))"

definition GetSubject :: "ctx_err option \<Rightarrow> string \<Rightarrow> Store \<Rightarrow> merror + Subject" where
  "GetSubject ctx name s = with_open ctx s
    (case fmlookup (st_subjects s) name of
       None \<Rightarrow> Inl (NotFound ''subject'' name)
     | Some subject \<Rightarrow> Inr subject)"

definition ListSubjects ::
    "ctx_err option \<Rightarrow> ListOptions \<Rightarrow> Store \<Rightarrow> merror + Subject list \<times> string" where
  "ListSubjects ctx opts s = with_open ctx s
    (let names = sort (filter (\<lambda>name. name > lo_Cursor opts) (keys_of (st_subjects s)))
     in case page_names (EffectiveLimit opts) names of
          (shown, next) \<Rightarrow> Inr (map (\<lambda>name. the (fmlookup (st_subjects s) name)) shown, next))"

definition SetSubjectDisabled ::
    "ctx_err option \<Rightarrow> string \<Rightarrow> bool \<Rightarrow> Store \<Rightarrow> merror + Store" where
  "SetSubjectDisabled ctx name disabled s = with_open ctx s
    (case fmlookup (st_subjects s) name of
       None \<Rightarrow> Inl (NotFound ''subject'' name)
     | Some subject \<Rightarrow>
         Inr (s\<lparr>st_subjects := fmupd name (subject\<lparr>sj_Disabled := disabled\<rparr>) (st_subjects s)\<rparr>))"

definition dropBindings :: "string \<Rightarrow> string \<Rightarrow> Store \<Rightarrow> Store" where
  "dropBindings kind pid s =
    s\<lparr>st_bindings := keep_entries (\<lambda>_ b. \<not> (bi_PrincipalKind b = kind \<and> bi_PrincipalID b = pid))
        (st_bindings s)\<rparr>"

definition DeleteSubject :: "ctx_err option \<Rightarrow> string \<Rightarrow> Store \<Rightarrow> merror + Store" where
  "DeleteSubject ctx name s = with_open ctx s
    (case fmlookup (st_subjects s) name of
       None \<Rightarrow> Inl (NotFound ''subject'' name)
     | Some subject \<Rightarrow>
         if sj_Kind subject = Anonymous then Inl (Invalid ''subject'')
         else
           let s1 = s\<lparr>st_subjects := fmdrop name (st_subjects s),
                      st_groupMembers := fmmap (\<lambda>members. members |-| {|name|}) (st_groupMembers s)\<rparr>;
               s2 = dropBindings PrincipalSubject (sj_ID subject) s1
           in Inr (s2\<lparr>st_userCredentials := fmdrop name (st_userCredentials s2),
                      st_robotCredentials := fmdrop name (st_robotCredentials s2),
                      st_accessTokens := keep_entries (\<lambda>_ token. at_Subject token \<noteq> name)
                        (st_accessTokens s2),
                      st_sessions := keep_entries (\<lambda>_ session. se_Subject session \<noteq> name)
                        (st_sessions s2)\<rparr>))"

section \<open>Groups\<close>

definition CreateGroup :: "ctx_err option \<Rightarrow> SubjectGroup \<Rightarrow> Store \<Rightarrow> merror + Store" where
  "CreateGroup ctx grp s = with_open ctx s
    (if sg_Name grp = [] then Inl (Invalid ''name'')
     else if sg_ID grp = [] then Inl (Invalid ''id'')
     else if fmlookup (st_subjectGroups s) (sg_Name grp) \<noteq> None
       then Inl (Conflict ''group'' (sg_Name grp))
     else Inr (s\<lparr>st_subjectGroups := fmupd (sg_Name grp) grp (st_subjectGroups s),
                 st_groupMembers := fmupd (sg_Name grp) {||} (st_groupMembers s)\<rparr>))"

definition GetGroup :: "ctx_err option \<Rightarrow> string \<Rightarrow> Store \<Rightarrow> merror + SubjectGroup" where
  "GetGroup ctx name s = with_open ctx s
    (case fmlookup (st_subjectGroups s) name of
       None \<Rightarrow> Inl (NotFound ''group'' name)
     | Some grp \<Rightarrow> Inr grp)"

definition ListGroups :: "ctx_err option \<Rightarrow> Store \<Rightarrow> merror + SubjectGroup list" where
  "ListGroups ctx s = with_open ctx s
    (Inr (sort_key sg_Name (map snd (entries (st_subjectGroups s)))))"

definition DeleteGroup :: "ctx_err option \<Rightarrow> string \<Rightarrow> Store \<Rightarrow> merror + Store" where
  "DeleteGroup ctx name s = with_open ctx s
    (case fmlookup (st_subjectGroups s) name of
       None \<Rightarrow> Inl (NotFound ''group'' name)
     | Some grp \<Rightarrow>
         Inr (dropBindings PrincipalGroup (sg_ID grp)
           (s\<lparr>st_subjectGroups := fmdrop name (st_subjectGroups s),
              st_groupMembers := fmdrop name (st_groupMembers s)\<rparr>)))"

text \<open>The member set of a group: a missing entry reads as the nil map, empty.\<close>

definition member_set :: "Store \<Rightarrow> string \<Rightarrow> string fset" where
  "member_set s grp = (case fmlookup (st_groupMembers s) grp of None \<Rightarrow> {||} | Some ms \<Rightarrow> ms)"

definition AddGroupMember ::
    "ctx_err option \<Rightarrow> string \<Rightarrow> string \<Rightarrow> Store \<Rightarrow> merror + Store" where
  "AddGroupMember ctx grp subject s = with_open ctx s
    (if fmlookup (st_subjectGroups s) grp = None then Inl (NotFound ''group'' grp)
     else if fmlookup (st_subjects s) subject = None then Inl (NotFound ''subject'' subject)
     else case fmlookup (st_groupMembers s) grp of
       None \<Rightarrow> Inl Panic
     | Some ms \<Rightarrow> Inr (s\<lparr>st_groupMembers := fmupd grp (finsert subject ms) (st_groupMembers s)\<rparr>))"

definition RemoveGroupMember ::
    "ctx_err option \<Rightarrow> string \<Rightarrow> string \<Rightarrow> Store \<Rightarrow> merror + Store" where
  "RemoveGroupMember ctx grp subject s = with_open ctx s
    (if fmlookup (st_subjectGroups s) grp = None then Inl (NotFound ''group'' grp)
     else if \<not> subject |\<in>| member_set s grp then Inl (NotFound ''group member'' subject)
     else Inr (s\<lparr>st_groupMembers :=
            fmupd grp (member_set s grp |-| {|subject|}) (st_groupMembers s)\<rparr>))"

definition ListGroupMemberSubjects ::
    "ctx_err option \<Rightarrow> string \<Rightarrow> Store \<Rightarrow> merror + Subject list" where
  "ListGroupMemberSubjects ctx grp s = with_open ctx s
    (if fmlookup (st_subjectGroups s) grp = None then Inl (NotFound ''group'' grp)
     else Inr (sort_key sj_Name
       (List.map_filter (fmlookup (st_subjects s)) (sorted_list_of_fset (member_set s grp)))))"

text \<open>\<^verbatim>\<open>s.subjectGroups[group]\<close> of a missing group is the zero \<^verbatim>\<open>SubjectGroup\<close>.\<close>

definition group_named :: "Store \<Rightarrow> string \<Rightarrow> SubjectGroup" where
  "group_named s grp = (case fmlookup (st_subjectGroups s) grp of
     None \<Rightarrow> \<lparr>sg_ID = [], sg_Name = [], sg_CreatedAt = 0\<rparr> | Some g \<Rightarrow> g)"

definition ListSubjectGroups ::
    "ctx_err option \<Rightarrow> string \<Rightarrow> Store \<Rightarrow> merror + SubjectGroup list" where
  "ListSubjectGroups ctx subject s = with_open ctx s
    (if fmlookup (st_subjects s) subject = None then Inl (NotFound ''subject'' subject)
     else Inr (sort_key sg_Name (map (\<lambda>(grp, _). group_named s grp)
       (filter (\<lambda>(_, members). subject |\<in>| members) (entries (st_groupMembers s))))))"

section \<open>Roles\<close>

definition PutBuiltinRole :: "ctx_err option \<Rightarrow> Role_meta \<Rightarrow> Store \<Rightarrow> merror + Store" where
  "PutBuiltinRole ctx role s = with_open ctx s
    (if \<not> ro_Builtin role then Inl (Invalid ''role'')
     else if ro_Name role = [] then Inl (Invalid ''name'')
     else if (case fmlookup (st_roles s) (ro_Name role) of
                Some existing \<Rightarrow> \<not> ro_Builtin existing | None \<Rightarrow> False)
       then Inl (Conflict ''role'' (ro_Name role))
     else Inr (s\<lparr>st_roles := fmupd (ro_Name role)
            (role\<lparr>ro_Verbs := sort (ro_Verbs role)\<rparr>) (st_roles s)\<rparr>))"

definition CreateRole :: "ctx_err option \<Rightarrow> Role_meta \<Rightarrow> Store \<Rightarrow> merror + Store" where
  "CreateRole ctx role s = with_open ctx s
    (if ro_Name role = [] then Inl (Invalid ''name'')
     else if fmlookup (st_roles s) (ro_Name role) \<noteq> None then Inl (Conflict ''role'' (ro_Name role))
     else Inr (s\<lparr>st_roles := fmupd (ro_Name role)
            (role\<lparr>ro_Verbs := sort (ro_Verbs role)\<rparr>) (st_roles s)\<rparr>))"

definition GetRole :: "ctx_err option \<Rightarrow> string \<Rightarrow> Store \<Rightarrow> merror + Role_meta" where
  "GetRole ctx name s = with_open ctx s
    (case fmlookup (st_roles s) name of
       None \<Rightarrow> Inl (NotFound ''role'' name)
     | Some role \<Rightarrow> Inr role)"

definition ListRoles :: "ctx_err option \<Rightarrow> Store \<Rightarrow> merror + Role_meta list" where
  "ListRoles ctx s = with_open ctx s (Inr (sort_key ro_Name (map snd (entries (st_roles s)))))"

definition UpdateRoleVerbs ::
    "ctx_err option \<Rightarrow> string \<Rightarrow> string list \<Rightarrow> Store \<Rightarrow> merror + Store" where
  "UpdateRoleVerbs ctx name vs s = with_open ctx s
    (case fmlookup (st_roles s) name of
       None \<Rightarrow> Inl (NotFound ''role'' name)
     | Some role \<Rightarrow>
         if ro_Builtin role then Inl (Invalid ''role'')
         else Inr (s\<lparr>st_roles := fmupd name (role\<lparr>ro_Verbs := sort vs\<rparr>) (st_roles s)\<rparr>))"

definition DeleteRole :: "ctx_err option \<Rightarrow> string \<Rightarrow> Store \<Rightarrow> merror + Store" where
  "DeleteRole ctx name s = with_open ctx s
    (case fmlookup (st_roles s) name of
       None \<Rightarrow> Inl (NotFound ''role'' name)
     | Some role \<Rightarrow>
         if ro_Builtin role then Inl (Invalid ''role'')
         else Inr (s\<lparr>st_roles := fmdrop name (st_roles s),
                     st_bindings := keep_entries (\<lambda>_ b. bi_Role b \<noteq> name) (st_bindings s)\<rparr>))"

section \<open>Bindings\<close>

definition principalExists :: "Store \<Rightarrow> string \<Rightarrow> string \<Rightarrow> bool" where
  "principalExists s kind pid =
    (if kind = PrincipalSubject
     then list_ex (\<lambda>(_, subject). sj_ID subject = pid) (entries (st_subjects s))
     else if kind = PrincipalGroup
     then list_ex (\<lambda>(_, grp). sg_ID grp = pid) (entries (st_subjectGroups s))
     else False)"

definition same_grant :: "Binding_meta \<Rightarrow> Binding_meta \<Rightarrow> bool" where
  "same_grant a b \<longleftrightarrow> bi_PrincipalKind a = bi_PrincipalKind b \<and> bi_PrincipalID a = bi_PrincipalID b
    \<and> bi_Role a = bi_Role b \<and> bi_Scope a = bi_Scope b"

definition grant_text :: "Binding_meta \<Rightarrow> string" where
  "grant_text b = bi_PrincipalKind b @ ''/'' @ bi_PrincipalID b @ '' -> '' @ bi_Role b @ '' @ ''
    @ bi_Scope b"

definition CreateBinding :: "ctx_err option \<Rightarrow> Binding_meta \<Rightarrow> Store \<Rightarrow> merror + Store" where
  "CreateBinding ctx binding s = with_open ctx s
    (if bi_ID binding = [] then Inl (Invalid ''id'')
     else if \<not> Valid_principalkind (bi_PrincipalKind binding) then Inl (Invalid ''principal_kind'')
     else if bi_Scope binding = [] then Inl (Invalid ''scope'')
     else if fmlookup (st_bindings s) (bi_ID binding) \<noteq> None
       then Inl (Conflict ''binding'' (bi_ID binding))
     else if fmlookup (st_roles s) (bi_Role binding) = None
       then Inl (NotFound ''role'' (bi_Role binding))
     else if \<not> principalExists s (bi_PrincipalKind binding) (bi_PrincipalID binding)
       then Inl (NotFound (bi_PrincipalKind binding) (bi_PrincipalID binding))
     else if list_ex (\<lambda>(_, existing). same_grant existing binding) (entries (st_bindings s))
       then Inl (Conflict ''binding'' (grant_text binding))
     else Inr (s\<lparr>st_bindings := fmupd (bi_ID binding) binding (st_bindings s)\<rparr>))"

definition GetBinding :: "ctx_err option \<Rightarrow> string \<Rightarrow> Store \<Rightarrow> merror + Binding_meta" where
  "GetBinding ctx bid s = with_open ctx s
    (case fmlookup (st_bindings s) bid of
       None \<Rightarrow> Inl (NotFound ''binding'' bid)
     | Some binding \<Rightarrow> Inr binding)"

definition ListBindings :: "ctx_err option \<Rightarrow> Store \<Rightarrow> merror + Binding_meta list" where
  "ListBindings ctx s = with_open ctx s (Inr (sort_key bi_ID (map snd (entries (st_bindings s)))))"

definition DeleteBinding :: "ctx_err option \<Rightarrow> string \<Rightarrow> Store \<Rightarrow> merror + Store" where
  "DeleteBinding ctx bid s = with_open ctx s
    (if fmlookup (st_bindings s) bid = None then Inl (NotFound ''binding'' bid)
     else Inr (s\<lparr>st_bindings := fmdrop bid (st_bindings s)\<rparr>))"

text \<open>\<^verbatim>\<open>groupIDs\<close> of \<^verbatim>\<open>ListEffectiveBindings\<close>: the ids of the subject's groups, each with the name
  of the group that was visited last under that id. Go visits a map in no fixed order, the model in that
  of the names; it matters only where two groups have one id.\<close>

definition group_ids :: "Store \<Rightarrow> string \<Rightarrow> (string, string) fmap" where
  "group_ids s subjectName =
    fold (\<lambda>(grp, members) ids.
        if subjectName |\<in>| members then fmupd (sg_ID (group_named s grp)) grp ids else ids)
      (entries (st_groupMembers s)) fmempty"

definition effective :: "Subject \<Rightarrow> (string, string) fmap \<Rightarrow> Binding_meta \<Rightarrow> EffectiveBinding option" where
  "effective subject groupIDs b =
    (if bi_PrincipalKind b = PrincipalSubject then
       (if bi_PrincipalID b = sj_ID subject then Some \<lparr>eb_Binding = b, eb_ViaGroup = []\<rparr> else None)
     else if bi_PrincipalKind b = PrincipalGroup then
       (case fmlookup groupIDs (bi_PrincipalID b) of
          Some name \<Rightarrow> Some \<lparr>eb_Binding = b, eb_ViaGroup = name\<rparr>
        | None \<Rightarrow> None)
     else None)"

definition ListEffectiveBindings ::
    "ctx_err option \<Rightarrow> string \<Rightarrow> Store \<Rightarrow> merror + EffectiveBinding list" where
  "ListEffectiveBindings ctx subjectName s = with_open ctx s
    (case fmlookup (st_subjects s) subjectName of
       None \<Rightarrow> Inl (NotFound ''subject'' subjectName)
     | Some subject \<Rightarrow>
         if sj_Disabled subject then Inr []
         else Inr (sort_key (\<lambda>e. bi_ID (eb_Binding e))
           (List.map_filter (effective subject (group_ids s subjectName))
             (map snd (entries (st_bindings s))))))"

lemmas [store_defs] =
  CreateSubject_def SetSubjectDisabled_def DeleteSubject_def CreateGroup_def DeleteGroup_def
  AddGroupMember_def RemoveGroupMember_def PutBuiltinRole_def CreateRole_def
  UpdateRoleVerbs_def DeleteRole_def CreateBinding_def DeleteBinding_def dropBindings_def

section \<open>Steps\<close>

inductive identity_step :: "Store \<Rightarrow> Store \<Rightarrow> bool" where
  create_subject: "CreateSubject ctx subject s = Inr s' \<Longrightarrow> identity_step s s'"
| disable_subject: "SetSubjectDisabled ctx name disabled s = Inr s' \<Longrightarrow> identity_step s s'"
| delete_subject: "DeleteSubject ctx name s = Inr s' \<Longrightarrow> identity_step s s'"
| create_group: "CreateGroup ctx grp s = Inr s' \<Longrightarrow> identity_step s s'"
| delete_group: "DeleteGroup ctx name s = Inr s' \<Longrightarrow> identity_step s s'"
| add_member: "AddGroupMember ctx name member s = Inr s' \<Longrightarrow> identity_step s s'"
| remove_member: "RemoveGroupMember ctx name member s = Inr s' \<Longrightarrow> identity_step s s'"
| put_builtin_role: "PutBuiltinRole ctx role s = Inr s' \<Longrightarrow> identity_step s s'"
| create_role: "CreateRole ctx role s = Inr s' \<Longrightarrow> identity_step s s'"
| update_role: "UpdateRoleVerbs ctx name vs s = Inr s' \<Longrightarrow> identity_step s s'"
| delete_role: "DeleteRole ctx name s = Inr s' \<Longrightarrow> identity_step s s'"
| create_binding: "CreateBinding ctx binding s = Inr s' \<Longrightarrow> identity_step s s'"
| delete_binding: "DeleteBinding ctx bid s = Inr s' \<Longrightarrow> identity_step s s'"

end
