(* ===== verification/Meta_Credentials.thy ===== *)
theory Meta_Credentials
  imports Meta_Identity
begin

text \<open>
  Credentials, tokens and sessions (\<^verbatim>\<open>src/internal/meta/memory/credentials.go\<close>) and the event log
  with its transaction (\<^verbatim>\<open>src/internal/meta/memory/events.go\<close>).
\<close>

section \<open>Passwords and robot secrets\<close>

definition PutUserCredential :: "ctx_err option \<Rightarrow> UserCredential \<Rightarrow> Store \<Rightarrow> merror + Store" where
  "PutUserCredential ctx cred s = with_open ctx s
    (if uc_Hash cred = [] then Inl (Invalid ''hash'')
     else if fmlookup (st_subjects s) (uc_Subject cred) = None
       then Inl (NotFound ''subject'' (uc_Subject cred))
     else Inr (s\<lparr>st_userCredentials := fmupd (uc_Subject cred) cred (st_userCredentials s)\<rparr>))"

definition GetUserCredential :: "ctx_err option \<Rightarrow> string \<Rightarrow> Store \<Rightarrow> merror + UserCredential" where
  "GetUserCredential ctx subject s = with_open ctx s
    (case fmlookup (st_userCredentials s) subject of
       None \<Rightarrow> Inl (NotFound ''user credential'' subject)
     | Some cred \<Rightarrow> Inr cred)"

definition DeleteUserCredential :: "ctx_err option \<Rightarrow> string \<Rightarrow> Store \<Rightarrow> merror + Store" where
  "DeleteUserCredential ctx subject s = with_open ctx s
    (if fmlookup (st_userCredentials s) subject = None then Inl (NotFound ''user credential'' subject)
     else Inr (s\<lparr>st_userCredentials := fmdrop subject (st_userCredentials s)\<rparr>))"

definition PutRobotCredential :: "ctx_err option \<Rightarrow> RobotCredential \<Rightarrow> Store \<Rightarrow> merror + Store" where
  "PutRobotCredential ctx cred s = with_open ctx s
    (if rc_SecretHash cred = [] then Inl (Invalid ''secret_hash'')
     else if rc_ExpiresAt cred = 0 then Inl (Invalid ''expires_at'')
     else case fmlookup (st_subjects s) (rc_Subject cred) of
       None \<Rightarrow> Inl (NotFound ''subject'' (rc_Subject cred))
     | Some subject \<Rightarrow>
         if sj_Kind subject \<noteq> Robot then Inl (Invalid ''subject'')
         else Inr (s\<lparr>st_robotCredentials := fmupd (rc_Subject cred) cred (st_robotCredentials s)\<rparr>))"

definition GetRobotCredential ::
    "ctx_err option \<Rightarrow> string \<Rightarrow> gotime \<Rightarrow> Store \<Rightarrow> merror + RobotCredential" where
  "GetRobotCredential ctx subject now s = with_open ctx s
    (case fmlookup (st_robotCredentials s) subject of
       None \<Rightarrow> Inl (NotFound ''robot credential'' subject)
     | Some cred \<Rightarrow>
         if \<not> now < rc_ExpiresAt cred then Inl (NotFound ''robot credential'' subject) else Inr cred)"

definition DeleteRobotCredential :: "ctx_err option \<Rightarrow> string \<Rightarrow> Store \<Rightarrow> merror + Store" where
  "DeleteRobotCredential ctx subject s = with_open ctx s
    (if fmlookup (st_robotCredentials s) subject = None
     then Inl (NotFound ''robot credential'' subject)
     else Inr (s\<lparr>st_robotCredentials := fmdrop subject (st_robotCredentials s)\<rparr>))"

section \<open>Access tokens\<close>

definition CreateAccessToken :: "ctx_err option \<Rightarrow> AccessToken \<Rightarrow> Store \<Rightarrow> merror + Store" where
  "CreateAccessToken ctx token s = with_open ctx s
    (if at_ID token = [] then Inl (Invalid ''id'')
     else if at_TokenHash token = [] then Inl (Invalid ''token_hash'')
     else if fmlookup (st_subjects s) (at_Subject token) = None
       then Inl (NotFound ''subject'' (at_Subject token))
     else if fmlookup (st_accessTokens s) (at_ID token) \<noteq> None
       then Inl (Conflict ''access token'' (at_ID token))
     else if list_ex (\<lambda>(_, existing). at_TokenHash existing = at_TokenHash token)
          (entries (st_accessTokens s))
       then Inl (Conflict ''access token'' ''hash already registered'')
     else Inr (s\<lparr>st_accessTokens := fmupd (at_ID token) token (st_accessTokens s)\<rparr>))"

definition GetAccessTokenByHash ::
    "ctx_err option \<Rightarrow> string \<Rightarrow> gotime \<Rightarrow> Store \<Rightarrow> merror + AccessToken" where
  "GetAccessTokenByHash ctx hash now s = with_open ctx s
    (if hash = [] then Inl (Invalid ''hash'')
     else case find (\<lambda>token. at_TokenHash token = hash) (map snd (entries (st_accessTokens s))) of
       None \<Rightarrow> Inl (NotFound ''access token'' ''presented token'')
     | Some token \<Rightarrow>
         if AccessToken_Expired token now then Inl (NotFound ''access token'' ''presented token'')
         else Inr token)"

definition ListAccessTokens ::
    "ctx_err option \<Rightarrow> string \<Rightarrow> Store \<Rightarrow> merror + AccessToken list" where
  "ListAccessTokens ctx subject s = with_open ctx s
    (if fmlookup (st_subjects s) subject = None then Inl (NotFound ''subject'' subject)
     else Inr (sort_key (\<lambda>t. (at_Name t, at_ID t))
       (filter (\<lambda>token. at_Subject token = subject) (map snd (entries (st_accessTokens s))))))"

definition TouchAccessToken :: "ctx_err option \<Rightarrow> string \<Rightarrow> gotime \<Rightarrow> Store \<Rightarrow> merror + Store" where
  "TouchAccessToken ctx tid at s = with_open ctx s
    (case fmlookup (st_accessTokens s) tid of
       None \<Rightarrow> Inl (NotFound ''access token'' tid)
     | Some token \<Rightarrow>
         Inr (s\<lparr>st_accessTokens := fmupd tid (token\<lparr>at_LastUsedAt := at\<rparr>) (st_accessTokens s)\<rparr>))"

definition DeleteAccessToken :: "ctx_err option \<Rightarrow> string \<Rightarrow> Store \<Rightarrow> merror + Store" where
  "DeleteAccessToken ctx tid s = with_open ctx s
    (if fmlookup (st_accessTokens s) tid = None then Inl (NotFound ''access token'' tid)
     else Inr (s\<lparr>st_accessTokens := fmdrop tid (st_accessTokens s)\<rparr>))"

section \<open>Sessions\<close>

definition CreateSession :: "ctx_err option \<Rightarrow> Session \<Rightarrow> Store \<Rightarrow> merror + Store" where
  "CreateSession ctx session s = with_open ctx s
    (if se_ID session = [] then Inl (Invalid ''id'')
     else if se_CSRFToken session = [] then Inl (Invalid ''csrf_token'')
     else if se_IdleExpiresAt session = 0 \<or> se_AbsoluteExpiresAt session = 0
       then Inl (Invalid ''expiry'')
     else if fmlookup (st_subjects s) (se_Subject session) = None
       then Inl (NotFound ''subject'' (se_Subject session))
     else if fmlookup (st_sessions s) (se_ID session) \<noteq> None
       then Inl (Conflict ''session'' (se_ID session))
     else Inr (s\<lparr>st_sessions := fmupd (se_ID session) session (st_sessions s)\<rparr>))"

definition GetSession :: "ctx_err option \<Rightarrow> string \<Rightarrow> gotime \<Rightarrow> Store \<Rightarrow> merror + Session" where
  "GetSession ctx sid now s = with_open ctx s
    (case fmlookup (st_sessions s) sid of
       None \<Rightarrow> Inl (NotFound ''session'' sid)
     | Some session \<Rightarrow>
         if Session_Expired session now then Inl (NotFound ''session'' sid) else Inr session)"

definition RefreshSession :: "ctx_err option \<Rightarrow> string \<Rightarrow> gotime \<Rightarrow> Store \<Rightarrow> merror + Store" where
  "RefreshSession ctx sid idleExpiresAt s = with_open ctx s
    (case fmlookup (st_sessions s) sid of
       None \<Rightarrow> Inl (NotFound ''session'' sid)
     | Some session \<Rightarrow>
         let idle = (if idleExpiresAt > se_AbsoluteExpiresAt session
                     then se_AbsoluteExpiresAt session else idleExpiresAt)
         in Inr (s\<lparr>st_sessions := fmupd sid (session\<lparr>se_IdleExpiresAt := idle\<rparr>) (st_sessions s)\<rparr>))"

definition DeleteSession :: "ctx_err option \<Rightarrow> string \<Rightarrow> Store \<Rightarrow> merror + Store" where
  "DeleteSession ctx sid s = with_open ctx s
    (if fmlookup (st_sessions s) sid = None then Inl (NotFound ''session'' sid)
     else Inr (s\<lparr>st_sessions := fmdrop sid (st_sessions s)\<rparr>))"

text \<open>The loops that remove sessions and count what they remove.\<close>

definition remove_sessions :: "(Session \<Rightarrow> bool) \<Rightarrow> Store \<Rightarrow> nat \<times> Store" where
  "remove_sessions gone s =
    (length (filter (\<lambda>(_, session). gone session) (entries (st_sessions s))),
     s\<lparr>st_sessions := keep_entries (\<lambda>_ session. \<not> gone session) (st_sessions s)\<rparr>)"

definition DeleteSubjectSessions ::
    "ctx_err option \<Rightarrow> string \<Rightarrow> Store \<Rightarrow> merror + nat \<times> Store" where
  "DeleteSubjectSessions ctx subject s = with_open ctx s
    (Inr (remove_sessions (\<lambda>session. se_Subject session = subject) s))"

definition DeleteExpiredSessions ::
    "ctx_err option \<Rightarrow> gotime \<Rightarrow> Store \<Rightarrow> merror + nat \<times> Store" where
  "DeleteExpiredSessions ctx before s = with_open ctx s
    (Inr (remove_sessions (\<lambda>session. Session_Expired session before) s))"

section \<open>Events\<close>

definition validEvent :: "Event \<Rightarrow> merror option" where
  "validEvent e =
    (if ev_ID e = [] then Some (Invalid ''id'')
     else if ev_Type e = [] then Some (Invalid ''type'')
     else if ev_At e = 0 then Some (Invalid ''at'')
     else None)"

record tx =
  tx_pending :: "Event list"
  tx_done :: bool

definition AppendEvent :: "Event \<Rightarrow> tx \<Rightarrow> merror + tx" where
  "AppendEvent event t =
    (if tx_done t then Inl (Invalid ''tx'')
     else case validEvent event of
       Some e \<Rightarrow> Inl e
     | None \<Rightarrow>
         if list_ex (\<lambda>queued. ev_ID queued = ev_ID event) (tx_pending t)
         then Inl (Conflict ''event'' (ev_ID event))
         else Inr (t\<lparr>tx_pending := tx_pending t @ [event]\<rparr>))"

text \<open>The end of \<^verbatim>\<open>WithinTx\<close>, under the lock: the batch is applied if none of its identifiers is taken. It
  does not ask again whether the store is open.\<close>

definition commit_tx :: "tx \<Rightarrow> Store \<Rightarrow> merror option \<times> Store" where
  "commit_tx t s =
    (case find (\<lambda>event. fmlookup (st_events s) (ev_ID event) \<noteq> None) (tx_pending t) of
       Some event \<Rightarrow> (Some (Conflict ''event'' (ev_ID event)), s)
     | None \<Rightarrow>
         (None, s\<lparr>st_events := fold (\<lambda>event. fmupd (ev_ID event) event) (tx_pending t) (st_events s)\<rparr>))"

text \<open>The callback of \<^verbatim>\<open>WithinTx\<close> runs without the lock, so it takes the store and gives back the
  store as it stands when it returns, whoever changed it, with the transaction and its error.\<close>

definition WithinTx ::
    "ctx_err option \<Rightarrow> (tx \<Rightarrow> Store \<Rightarrow> tx \<times> merror option \<times> Store) \<Rightarrow> Store
      \<Rightarrow> merror option \<times> Store" where
  "WithinTx ctx fn s =
    (case ctx of
       Some e \<Rightarrow> (Some (CtxErr e), s)
     | None \<Rightarrow>
         (case checkOpen s of
            Some e \<Rightarrow> (Some e, s)
          | None \<Rightarrow>
              (case fn \<lparr>tx_pending = [], tx_done = False\<rparr> s of
                 (t, Some e, s') \<Rightarrow> (Some e, s')
               | (t, None, s') \<Rightarrow> commit_tx t s')))"

definition visibleEvent :: "Visibility \<Rightarrow> Event \<Rightarrow> bool" where
  "visibleEvent v event =
    (if ev_Repository event = [] then vi_unrestricted v
     else Visibility_Allows v (ev_Repository event))"

definition ListEvents ::
    "ctx_err option \<Rightarrow> ListOptions \<Rightarrow> Store \<Rightarrow> merror + Event list \<times> string" where
  "ListEvents ctx opts s = with_open ctx s
    (let ids = sort (map fst (filter (\<lambda>(eid, event).
           \<not> (\<not> visibleEvent (lo_Visibility opts) event \<or> eid \<le> lo_Cursor opts)) (entries (st_events s))))
     in case page_names (EffectiveLimit opts) ids of
          (shown, next) \<Rightarrow> Inr (map (\<lambda>eid. the (fmlookup (st_events s) eid)) shown, next))"

lemmas [store_defs] =
  PutUserCredential_def DeleteUserCredential_def PutRobotCredential_def
  DeleteRobotCredential_def CreateAccessToken_def TouchAccessToken_def DeleteAccessToken_def
  CreateSession_def RefreshSession_def DeleteSession_def DeleteSubjectSessions_def
  DeleteExpiredSessions_def remove_sessions_def Close_def

section \<open>Steps\<close>

text \<open>The appends of one transaction, in order, until the first that is refused.\<close>

fun append_all :: "Event list \<Rightarrow> tx \<Rightarrow> tx \<times> merror option" where
  "append_all [] t = (t, None)"
| "append_all (e # es) t =
    (case AppendEvent e t of Inl err \<Rightarrow> (t, Some err) | Inr t' \<Rightarrow> append_all es t')"

definition append_fn :: "Event list \<Rightarrow> tx \<Rightarrow> Store \<Rightarrow> tx \<times> merror option \<times> Store" where
  "append_fn es t s = (case append_all es t of (t', err) \<Rightarrow> (t', err, s))"

text \<open>A transaction runs beside other calls, so its commit is a step of its own, on whatever the store
  has become by then; the store may even have been closed.\<close>

inductive credential_step :: "Store \<Rightarrow> Store \<Rightarrow> bool" where
  put_password: "PutUserCredential ctx ucred s = Inr s' \<Longrightarrow> credential_step s s'"
| delete_password: "DeleteUserCredential ctx name s = Inr s' \<Longrightarrow> credential_step s s'"
| put_robot: "PutRobotCredential ctx rcred s = Inr s' \<Longrightarrow> credential_step s s'"
| delete_robot: "DeleteRobotCredential ctx name s = Inr s' \<Longrightarrow> credential_step s s'"
| create_token: "CreateAccessToken ctx token s = Inr s' \<Longrightarrow> credential_step s s'"
| touch_token: "TouchAccessToken ctx tid at s = Inr s' \<Longrightarrow> credential_step s s'"
| delete_token: "DeleteAccessToken ctx tid s = Inr s' \<Longrightarrow> credential_step s s'"
| create_session: "CreateSession ctx session s = Inr s' \<Longrightarrow> credential_step s s'"
| refresh_session: "RefreshSession ctx sid idle s = Inr s' \<Longrightarrow> credential_step s s'"
| delete_session: "DeleteSession ctx sid s = Inr s' \<Longrightarrow> credential_step s s'"
| delete_subject_sessions: "DeleteSubjectSessions ctx name s = Inr (n, s') \<Longrightarrow> credential_step s s'"
| delete_expired_sessions: "DeleteExpiredSessions ctx before s = Inr (n, s') \<Longrightarrow> credential_step s s'"
| commit_events: "append_all es \<lparr>tx_pending = [], tx_done = False\<rparr> = (t, None) \<Longrightarrow> commit_tx t s = (None, s') \<Longrightarrow>
    credential_step s s'"
| close_store: "s' = Close s \<Longrightarrow> credential_step s s'"

end
