(* ===== verification/Meta_Invariant.thy ===== *)
theory Meta_Invariant
  imports Meta_Credentials
begin

text \<open>
  The integrity of the metadata store: what holds of every store a sequence of successful calls can
  reach from \<^term>\<open>New\<close>.  The invariant is a conjunction of clauses, one per family of maps; this
  theory states them and shows which maps each kind of step leaves alone, \<^verbatim>\<open>Meta_Integrity\<close> that
  every step keeps them.  The database engines get these clauses from
  foreign keys and constraints; the reference store gets them from its checks and its cascades.
\<close>

section \<open>Clauses\<close>

definition history :: "Store \<Rightarrow> string \<Rightarrow> ConfigRevision list" where
  "history s name = (case fmlookup (st_configHistory s) name of None \<Rightarrow> [] | Some h \<Rightarrow> h)"

definition has_type :: "Store \<Rightarrow> string \<Rightarrow> string \<Rightarrow> bool" where
  "has_type s n t \<longleftrightarrow> (\<exists>r. fmlookup (st_repos s) n = Some r \<and> rp_Type r = t)"

definition proxy_content :: "Store \<Rightarrow> string \<Rightarrow> bool" where
  "proxy_content s c \<longleftrightarrow> has_type s (entityOf c) Proxy"

definition inv_repos :: "Store \<Rightarrow> bool" where
  "inv_repos s \<longleftrightarrow>
    fmpred (\<lambda>n r. n \<noteq> [] \<and> rp_Name r = n \<and> Valid_type (rp_Type r) \<and> 1 \<le> rp_ConfigVersion r \<and>
       map cr_Version (history s n) = [1..rp_ConfigVersion r - 1]) (st_repos s) \<and>
    fmpred (\<lambda>n _. repoExists s n) (st_configHistory s) \<and>
    fmpred (\<lambda>n c. pc_Repository c = n \<and> has_type s n Proxy) (st_proxyCredentials s)"

definition inv_members :: "Store \<Rightarrow> bool" where
  "inv_members s \<longleftrightarrow>
    fmpred (\<lambda>g ms. has_type s g Group \<and>
       (\<forall>m \<in> set ms. repoExists s (gm_Repository m) \<and> \<not> has_type s (gm_Repository m) Group) \<and>
       sorted_wrt (<) (map gm_Position ms) \<and>
       length (filter gm_WriteTarget ms) \<le> 1) (st_members s)"

definition inv_content :: "Store \<Rightarrow> bool" where
  "inv_content s \<longleftrightarrow>
    same_keys (st_manifests s) (st_refs s) \<and>
    rows_ok (\<lambda>c. repoExists s (entityOf c)) (\<lambda>c d m. mf_Repository m = c \<and> mf_Digest m = d \<and> d \<noteq> [])
      (st_manifests s) \<and>
    rows_ok (\<lambda>c. repoExists s (entityOf c))
      (\<lambda>c n t. tg_Repository t = c \<and> tg_Name t = n \<and> n \<noteq> [] \<and>
         lookup2 (st_manifests s) c (tg_Digest t) \<noteq> None) (st_tags s)"

definition inv_blobs :: "Store \<Rightarrow> bool" where
  "inv_blobs s \<longleftrightarrow>
    fmpred (\<lambda>d b. bl_Digest b = d \<and> d \<noteq> [] \<and> 0 \<le> bl_Size b) (st_blobs s) \<and>
    fmpred (\<lambda>i u. up_ID u = i \<and> i \<noteq> [] \<and> repoExists s (entityOf (up_Repository u))) (st_uploads s) \<and>
    fmpred (\<lambda>i r. gr_ID r = i \<and> i \<noteq> []) (st_gcRuns s) \<and>
    fmpred (\<lambda>k p. (pl_Repository p, pl_Reference p) = k) (st_pullStats s)"

definition inv_cached :: "Store \<Rightarrow> bool" where
  "inv_cached s \<longleftrightarrow>
    same_keys (st_cachedManifests s) (st_cachedRefs s) \<and>
    rows_ok (proxy_content s) (\<lambda>c d m. cm_Repository m = c \<and> cm_Digest m = d \<and> d \<noteq> [])
      (st_cachedManifests s) \<and>
    rows_ok (proxy_content s) (\<lambda>c d b. cb_Repository b = c \<and> cb_Digest b = d \<and> d \<noteq> [])
      (st_cachedBlobs s) \<and>
    rows_ok (proxy_content s) (\<lambda>c t l. tl_Repository l = c \<and> tl_Tag l = t \<and> tl_Digest l \<noteq> [])
      (st_tagLeases s) \<and>
    rows_ok (proxy_content s) (\<lambda>c x n. ne_Repository n = c \<and> ne_Reference n = x \<and> x \<noteq> [])
      (st_negativeCache s)"

definition has_kind :: "Store \<Rightarrow> string \<Rightarrow> string \<Rightarrow> bool" where
  "has_kind s n k \<longleftrightarrow> (\<exists>x. fmlookup (st_subjects s) n = Some x \<and> sj_Kind x = k)"

definition subjectExists :: "Store \<Rightarrow> string \<Rightarrow> bool" where
  "subjectExists s n \<longleftrightarrow> fmlookup (st_subjects s) n \<noteq> None"

definition inv_identity :: "Store \<Rightarrow> bool" where
  "inv_identity s \<longleftrightarrow>
    fmpred (\<lambda>n x. sj_Name x = n) (st_subjects s) \<and> unique_on sj_ID (st_subjects s) \<and>
    fmpred (\<lambda>n g. sg_Name g = n) (st_subjectGroups s) \<and>
    fmdom (st_groupMembers s) = fmdom (st_subjectGroups s) \<and>
    fmpred (\<lambda>n ms. fBall ms (subjectExists s)) (st_groupMembers s) \<and>
    fmpred (\<lambda>n r. ro_Name r = n \<and> sorted (ro_Verbs r)) (st_roles s) \<and>
    fmpred (\<lambda>i b. bi_ID b = i \<and> fmlookup (st_roles s) (bi_Role b) \<noteq> None \<and>
       principalExists s (bi_PrincipalKind b) (bi_PrincipalID b)) (st_bindings s) \<and>
    has_kind s AnonymousSubjectName Anonymous"

definition inv_credentials :: "Store \<Rightarrow> bool" where
  "inv_credentials s \<longleftrightarrow>
    fmpred (\<lambda>n c. uc_Subject c = n \<and> subjectExists s n) (st_userCredentials s) \<and>
    fmpred (\<lambda>n c. rc_Subject c = n \<and> rc_ExpiresAt c \<noteq> 0 \<and> has_kind s n Robot) (st_robotCredentials s) \<and>
    fmpred (\<lambda>i t. at_ID t = i \<and> at_TokenHash t \<noteq> [] \<and> subjectExists s (at_Subject t)) (st_accessTokens s) \<and>
    unique_on at_TokenHash (st_accessTokens s) \<and>
    fmpred (\<lambda>i x. se_ID x = i \<and> se_CSRFToken x \<noteq> [] \<and> subjectExists s (se_Subject x)) (st_sessions s) \<and>
    fmpred (\<lambda>i e. ev_ID e = i \<and> validEvent e = None) (st_events s)"

definition store_inv :: "Store \<Rightarrow> bool" where
  "store_inv s \<longleftrightarrow> inv_repos s \<and> inv_members s \<and> inv_content s \<and> inv_blobs s \<and> inv_cached s \<and>
    inv_identity s \<and> inv_credentials s"

lemmas inv_defs = inv_repos_def inv_members_def inv_content_def inv_blobs_def inv_cached_def
  inv_identity_def inv_credentials_def

section \<open>The initial store\<close>

lemma store_inv_New: "store_inv New"
  by (simp add: store_inv_def inv_defs New_def newEmpty_def has_kind_def fmpred_iff unique_on_def)

section \<open>What each kind of step leaves alone\<close>

definition "repo_part s = (st_repos s, st_members s, st_configHistory s, st_proxyCredentials s)"
definition "content_part s = (st_manifests s, st_refs s, st_tags s)"
definition "blob_part s = (st_blobs s, st_uploads s, st_gcRuns s, st_pullStats s)"
definition "cached_part s =
  (st_cachedManifests s, st_cachedRefs s, st_cachedBlobs s, st_tagLeases s, st_negativeCache s)"
definition "identity_part s =
  (st_subjects s, st_subjectGroups s, st_groupMembers s, st_roles s, st_bindings s)"
definition "credential_part s =
  (st_userCredentials s, st_robotCredentials s, st_accessTokens s, st_sessions s, st_events s)"

lemmas part_defs = repo_part_def content_part_def blob_part_def cached_part_def identity_part_def
  credential_part_def

lemma inv_repos_cong: "repo_part s' = repo_part s \<Longrightarrow> inv_repos s' = inv_repos s"
  by (simp add: part_defs inv_repos_def history_def repoExists_def has_type_def)

lemma inv_members_cong: "repo_part s' = repo_part s \<Longrightarrow> inv_members s' = inv_members s"
  by (simp add: part_defs inv_members_def repoExists_def has_type_def)

lemma inv_content_cong:
  "repo_part s' = repo_part s \<Longrightarrow> content_part s' = content_part s \<Longrightarrow> inv_content s' = inv_content s"
  by (simp add: part_defs inv_content_def repoExists_def)

lemma inv_blobs_cong:
  "repo_part s' = repo_part s \<Longrightarrow> blob_part s' = blob_part s \<Longrightarrow> inv_blobs s' = inv_blobs s"
  by (simp add: part_defs inv_blobs_def repoExists_def)

lemma inv_cached_cong:
  "repo_part s' = repo_part s \<Longrightarrow> cached_part s' = cached_part s \<Longrightarrow> inv_cached s' = inv_cached s"
  by (simp add: part_defs inv_cached_def proxy_content_def [abs_def] has_type_def)

lemma inv_identity_cong: "identity_part s' = identity_part s \<Longrightarrow> inv_identity s' = inv_identity s"
  by (simp add: part_defs inv_identity_def principalExists_def subjectExists_def has_kind_def)

lemma inv_credentials_cong:
  "identity_part s' = identity_part s \<Longrightarrow> credential_part s' = credential_part s \<Longrightarrow>
   inv_credentials s' = inv_credentials s"
  by (simp add: part_defs inv_credentials_def subjectExists_def has_kind_def)

lemma gc_step_frame:
  assumes "gc_step s s'"
  shows "repo_part s' = repo_part s" "content_part s' = content_part s"
    "cached_part s' = cached_part s" "identity_part s' = identity_part s"
    "credential_part s' = credential_part s" "st_uploads s' = st_uploads s" "st_pullStats s' = st_pullStats s"
  using assms
  by (auto simp: store_defs ok_simps part_defs elim!: gc_step.cases split: if_splits option.splits)

lemma fold_touch_frame:
  "repo_part (fold touch as s) = repo_part s" "content_part (fold touch as s) = content_part s"
  "blob_part (fold touch as s) = blob_part s" "identity_part (fold touch as s) = identity_part s"
  "credential_part (fold touch as s) = credential_part s"
  by (induction as arbitrary: s) (simp_all add: touch_def part_defs split: option.splits)

lemmas fold_touch_fields = fold_touch_frame [unfolded part_defs prod.inject]

lemma TouchCached_Inr:
  "TouchCached ctx as s = Inr s' \<Longrightarrow> s' = fold touch as s"
  by (simp add: TouchCached_def ok_simps split: option.splits if_splits)

lemma cached_step_frame:
  assumes "cached_step s s'"
  shows "repo_part s' = repo_part s" "content_part s' = content_part s"
    "blob_part s' = blob_part s" "identity_part s' = identity_part s"
    "credential_part s' = credential_part s"
  using assms
  by (auto simp: store_defs ok_simps part_defs Let_def fold_touch_fields elim!: cached_step.cases
      dest!: TouchCached_Inr split: if_splits)

lemma identity_step_frame:
  assumes "identity_step s s'"
  shows "repo_part s' = repo_part s" "content_part s' = content_part s"
    "blob_part s' = blob_part s" "cached_part s' = cached_part s" "st_events s' = st_events s"
  using assms
  by (auto simp: store_defs ok_simps part_defs Let_def elim!: identity_step.cases)

lemma commit_tx_Inr:
  assumes "commit_tx t s = (None, s')"
  shows "s' = s\<lparr>st_events := fold (\<lambda>event. fmupd (ev_ID event) event) (tx_pending t) (st_events s)\<rparr>"
    and "\<forall>e \<in> set (tx_pending t). fmlookup (st_events s) (ev_ID e) = None"
  using assms by (auto simp: commit_tx_def find_None_iff split: option.splits)

text \<open>A successful transaction that appends events, with nothing beside it, is its commit.\<close>

lemma WithinTx_append:
  assumes "WithinTx ctx (append_fn es) s = (None, s')"
  obtains t where "append_all es \<lparr>tx_pending = [], tx_done = False\<rparr> = (t, None)" "commit_tx t s = (None, s')"
  using assms by (auto simp: WithinTx_def append_fn_def split: option.splits prod.splits)

lemma credential_step_frame:
  assumes "credential_step s s'"
  shows "repo_part s' = repo_part s" "content_part s' = content_part s"
    "blob_part s' = blob_part s" "cached_part s' = cached_part s"
    "identity_part s' = identity_part s"
  using assms
  by (auto simp: store_defs ok_simps part_defs Let_def elim!: credential_step.cases dest!: commit_tx_Inr(1))

lemma content_step_frame:
  assumes "content_step s s'"
  shows "identity_part s' = identity_part s" "credential_part s' = credential_part s"
    "cached_part s' = cached_part s" "st_gcRuns s' = st_gcRuns s"
  using assms
  by (auto simp: store_defs ok_simps part_defs Let_def elim!: content_step.cases split: if_splits)

end
