(* ===== verification/Meta_Integrity.thy ===== *)
theory Meta_Integrity
  imports Meta_Invariant
begin

text \<open>
  Every step of the store keeps the integrity clauses of \<^verbatim>\<open>Meta_Invariant\<close>, so every reachable
  store has them; what follows from that for the operations.
\<close>

section \<open>Steps keep the clauses\<close>

lemma repoExists_cong: "st_repos s' = st_repos s \<Longrightarrow> repoExists s' = repoExists s"
  by (simp add: fun_eq_iff repoExists_def)

lemma inv_blobs_rows:
  assumes "inv_blobs s"
  shows "fmlookup (st_gcRuns s) i = Some r \<Longrightarrow> gr_ID r = i \<and> i \<noteq> []"
    and "fmlookup (st_blobs s) d = Some b \<Longrightarrow> bl_Digest b = d \<and> d \<noteq> [] \<and> 0 \<le> bl_Size b"
    and "fmlookup (st_uploads s) i = Some u \<Longrightarrow>
      up_ID u = i \<and> i \<noteq> [] \<and> repoExists s (entityOf (up_Repository u))"
  using assms by (simp_all add: inv_blobs_def fmpred_iff)

lemma inv_blobs_gc_step:
  assumes step: "gc_step s s'" and inv: "inv_blobs s"
  shows "inv_blobs s'"
proof -
  have p: "repoExists s' = repoExists s"
    using gc_step_frame(1) [OF step] by (intro repoExists_cong) (simp add: part_defs)
  note rows = inv_blobs_rows [OF inv]
  show ?thesis
    using step inv unfolding inv_blobs_def p
    by (cases rule: gc_step.cases)
      (auto simp: store_defs ok_simps keep_simps dest: rows split: if_splits option.splits)
qed

lemma requireProxyEntity_None: "requireProxyEntity s c = None \<longleftrightarrow> proxy_content s c"
  by (auto simp: requireProxyEntity_def proxy_content_def has_type_def Let_def split: option.splits)

lemma proxy_content_cong: "st_repos s' = st_repos s \<Longrightarrow> proxy_content s' = proxy_content s"
  by (simp add: fun_eq_iff proxy_content_def has_type_def)

lemma inv_cached_touch:
  assumes "inv_cached s"
  shows "inv_cached (touch a s)"
proof -
  have p: "proxy_content (touch a s) = proxy_content s"
    by (rule proxy_content_cong) (simp add: touch_def split: option.splits)
  show ?thesis
    using assms unfolding inv_cached_def p
    by (auto simp: touch_def split: option.splits dest: rows_okD intro!: same_keys_overwrite rows_ok_put2)
qed

lemma inv_cached_fold_touch: "inv_cached s \<Longrightarrow> inv_cached (fold touch as s)"
  by (induction as arbitrary: s) (simp_all add: inv_cached_touch)

lemma inv_cached_step:
  assumes "cached_step s s'" "inv_cached s"
  shows "inv_cached s'"
proof -
  have p: "proxy_content s' = proxy_content s"
    using cached_step_frame(1) [OF assms(1)] by (intro proxy_content_cong) (simp add: part_defs)
  show ?thesis
  proof (cases "\<exists>ctx accesses. TouchCached ctx accesses s = Inr s'")
    case True
    then show ?thesis using assms(2) by (auto dest!: TouchCached_Inr intro: inv_cached_fold_touch)
  next
    case False
    with assms show ?thesis
      unfolding inv_cached_def p
      by (cases rule: cached_step.cases)
        (auto simp: store_defs ok_simps keep_simps Let_def requireProxyEntity_None split: if_splits)
  qed
qed

lemma append_all_pending:
  "append_all es t = (t', None) \<Longrightarrow>
    tx_pending t' = tx_pending t @ es \<and> (\<forall>e \<in> set es. validEvent e = None) \<and>
    (distinct (map ev_ID (tx_pending t)) \<longrightarrow> distinct (map ev_ID (tx_pending t')))"
proof (induction es arbitrary: t)
  case (Cons e es)
  then obtain t1 where t1: "AppendEvent e t = Inr t1" "append_all es t1 = (t', None)"
    by (auto split: sum.splits)
  then have "tx_pending t1 = tx_pending t @ [e]" "validEvent e = None"
    "\<forall>q \<in> set (tx_pending t). ev_ID q \<noteq> ev_ID e"
    by (auto simp: AppendEvent_def list_ex_iff split: option.splits if_splits)
  moreover from this have "distinct (map ev_ID (tx_pending t)) \<Longrightarrow> distinct (map ev_ID (tx_pending t1))"
    by auto
  moreover note Cons.IH [OF t1(2)]
  ultimately show ?case
    by (metis append.assoc append_Cons append_Nil set_ConsD)
qed simp

lemma fmpred_fold_fmupd:
  "fmpred P m \<Longrightarrow> \<forall>e \<in> set es. P (k e) e \<Longrightarrow> fmpred P (fold (\<lambda>e. fmupd (k e) e) es m)"
  by (induction es arbitrary: m) (auto simp: keep_simps)

lemma inv_credentials_rows:
  assumes "inv_credentials s"
  shows "fmlookup (st_accessTokens s) i = Some t \<Longrightarrow>
      at_ID t = i \<and> at_TokenHash t \<noteq> [] \<and> subjectExists s (at_Subject t)"
    and "fmlookup (st_sessions s) i = Some x \<Longrightarrow>
      se_ID x = i \<and> se_CSRFToken x \<noteq> [] \<and> subjectExists s (se_Subject x)"
  using assms by (simp_all add: inv_credentials_def fmpred_iff)

lemma inv_credentials_step:
  assumes step: "credential_step s s'" and inv: "inv_credentials s"
  shows "inv_credentials s'"
proof -
  have p: "subjectExists s' = subjectExists s" "has_kind s' = has_kind s"
    using credential_step_frame(5) [OF step]
    by (simp_all add: fun_eq_iff part_defs subjectExists_def has_kind_def)
  note rows = inv_credentials_rows [OF inv]
  show ?thesis
    using step
  proof (cases rule: credential_step.cases)
    case (create_token ctx token)
    then show ?thesis using inv unfolding inv_credentials_def p
      by (auto simp: store_defs ok_simps keep_simps subjectExists_def list_ex_iff set_entries
          intro!: unique_on_insert)
  next
    case (touch_token ctx tid at)
    then obtain token where "fmlookup (st_accessTokens s) tid = Some token"
      by (auto simp: store_defs ok_simps)
    note this unique_on_update [OF _ this, of at_TokenHash "token\<lparr>at_LastUsedAt := at\<rparr>"]
    then show ?thesis using inv touch_token unfolding inv_credentials_def p
      by (auto simp: store_defs ok_simps keep_simps dest: rows)
  next
    case (commit_events es t)
    then show ?thesis using inv unfolding inv_credentials_def p
      by (auto dest!: commit_tx_Inr(1) append_all_pending intro!: fmpred_fold_fmupd)
  qed (use inv in \<open>auto simp: store_defs ok_simps keep_simps inv_credentials_def p Let_def
      subjectExists_def has_kind_def dest: rows\<close>)
qed

definition column :: "('v \<Rightarrow> 'c) \<Rightarrow> ('k, 'v) fmap \<Rightarrow> 'c set" where
  "column f m = {f v |k v. fmlookup m k = Some v}"

lemma column_new: "fmlookup m k = None \<Longrightarrow> column f (fmupd k v m) = insert (f v) (column f m)"
  by (auto simp: column_def split: if_splits) (metis option.distinct(1))

lemma column_same:
  assumes "fmlookup m k = Some v" "f w = f v"
  shows "column f (fmupd k w m) = column f m"
proof -
  have "i \<in> column f m \<longleftrightarrow> i \<in> column f (fmupd k w m)" for i
    using assms by (simp add: column_def) (metis option.inject)
  then show ?thesis by blast
qed

lemma column_drop: "fmlookup m k = Some v \<Longrightarrow> i \<in> column f m \<Longrightarrow> i \<noteq> f v \<Longrightarrow> i \<in> column f (fmdrop k m)"
  by (auto simp: column_def)

lemma principalExists_iff:
  "principalExists s k i \<longleftrightarrow>
    k = PrincipalSubject \<and> i \<in> column sj_ID (st_subjects s) \<or>
    k = PrincipalGroup \<and> i \<in> column sg_ID (st_subjectGroups s)"
  by (auto simp: principalExists_def list_ex_iff column_def)

lemma fmpred_mono': "fmpred P m \<Longrightarrow> (\<And>k v. P k v \<Longrightarrow> Q k v) \<Longrightarrow> fmpred Q m"
  by (auto simp: fmpred_iff)

lemma identity_create_subject:
  assumes "CreateSubject ctx subject s = Inr s'" "inv_identity s"
  shows "inv_identity s'"
proof -
  have s': "s' = s\<lparr>st_subjects := fmupd (sj_Name subject) subject (st_subjects s)\<rparr>"
    and new: "fmlookup (st_subjects s) (sj_Name subject) = None"
    and fresh: "\<forall>k v. fmlookup (st_subjects s) k = Some v \<longrightarrow> sj_ID v \<noteq> sj_ID subject"
    using assms(1) by (auto simp: store_defs ok_simps list_ex_iff)
  have ex: "subjectExists s n \<Longrightarrow> subjectExists s' n" for n
    by (auto simp: s' subjectExists_def)
  have pr: "principalExists s k i \<Longrightarrow> principalExists s' k i" for k i
    by (auto simp: s' principalExists_iff column_new [OF new])
  show ?thesis
    using assms(2) new fresh unfolding inv_identity_def
    by (auto simp: s' keep_simps has_kind_def intro!: unique_on_insert
        elim!: fmpred_mono' dest: ex [unfolded s'] pr [unfolded s'])
qed

lemma identity_disable_subject:
  assumes "SetSubjectDisabled ctx name disabled s = Inr s'" "inv_identity s"
  shows "inv_identity s'"
proof -
  obtain x where x: "fmlookup (st_subjects s) name = Some x"
    and s': "s' = s\<lparr>st_subjects := fmupd name (x\<lparr>sj_Disabled := disabled\<rparr>) (st_subjects s)\<rparr>"
    using assms(1) by (auto simp: store_defs ok_simps)
  have ex: "subjectExists s' = subjectExists s" "has_kind s' = has_kind s"
    using x by (auto simp: s' subjectExists_def has_kind_def fun_eq_iff)
  have pr: "principalExists s' = principalExists s"
    using column_same [OF x, of sj_ID "x\<lparr>sj_Disabled := disabled\<rparr>"]
    by (auto simp: s' principalExists_iff fun_eq_iff)
  have "sj_Name x = name" using assms(2) x by (simp add: inv_identity_def fmpred_iff)
  then show ?thesis
    using assms(2) unique_on_update [OF _ x, of sj_ID "x\<lparr>sj_Disabled := disabled\<rparr>"]
    unfolding inv_identity_def ex pr by (simp add: s' keep_simps)
qed

lemma identity_delete_subject:
  assumes "DeleteSubject ctx name s = Inr s'" "inv_identity s"
  shows "inv_identity s'"
proof -
  obtain x where x: "fmlookup (st_subjects s) name = Some x" "sj_Kind x \<noteq> Anonymous"
    and s': "st_subjects s' = fmdrop name (st_subjects s)"
      "st_groupMembers s' = fmmap (\<lambda>members. members |-| {|name|}) (st_groupMembers s)"
      "st_bindings s' = keep_entries (\<lambda>_ b. \<not> (bi_PrincipalKind b = PrincipalSubject \<and>
          bi_PrincipalID b = sj_ID x)) (st_bindings s)"
      "st_subjectGroups s' = st_subjectGroups s" "st_roles s' = st_roles s"
    using assms(1) by (auto simp: store_defs ok_simps Let_def)
  have pr: "principalExists s k i \<Longrightarrow> \<not> (k = PrincipalSubject \<and> i = sj_ID x) \<Longrightarrow> principalExists s' k i"
    for k i using column_drop [OF x(1), of _ sj_ID] by (auto simp: s' principalExists_iff)
  have "has_kind s' AnonymousSubjectName Anonymous"
    using assms(2) x by (auto simp: inv_identity_def has_kind_def s')
  moreover have "fmpred (\<lambda>n ms. fBall ms (subjectExists s')) (st_groupMembers s')"
    using assms(2) by (auto simp: inv_identity_def fmpred_iff s' subjectExists_def)
  moreover have "fmpred (\<lambda>i b. bi_ID b = i \<and> fmlookup (st_roles s') (bi_Role b) \<noteq> None \<and>
       principalExists s' (bi_PrincipalKind b) (bi_PrincipalID b)) (st_bindings s')"
    using assms(2) pr by (auto simp: inv_identity_def fmpred_iff s' split: option.splits if_splits)
  ultimately show ?thesis
    using assms(2) unfolding inv_identity_def by (simp add: s' keep_simps)
qed

lemma identity_groups_step:
  assumes "CreateGroup ctx grp s = Inr s' \<or> DeleteGroup ctx name s = Inr s'" "inv_identity s"
  shows "inv_identity s'"
proof -
  have same: "st_subjects s' = st_subjects s" "st_roles s' = st_roles s"
    using assms(1) by (auto simp: store_defs ok_simps)
  then have ex: "subjectExists s' = subjectExists s" "has_kind s' = has_kind s"
    by (auto simp: subjectExists_def has_kind_def fun_eq_iff)
  show ?thesis using assms(1)
  proof
    assume op: "CreateGroup ctx grp s = Inr s'"
    then have new: "fmlookup (st_subjectGroups s) (sg_Name grp) = None" by (auto simp: store_defs ok_simps)
    have "principalExists s k i \<Longrightarrow> principalExists s' k i" for k i
      using op by (auto simp: store_defs ok_simps principalExists_iff column_new)
    then show ?thesis
      using op assms(2) unfolding inv_identity_def ex
      by (auto simp: store_defs ok_simps keep_simps elim!: fmpred_mono')
  next
    assume op: "DeleteGroup ctx name s = Inr s'"
    then obtain g where g: "fmlookup (st_subjectGroups s) name = Some g" and
      s': "st_bindings s' = keep_entries (\<lambda>_ b. \<not> (bi_PrincipalKind b = PrincipalGroup \<and>
          bi_PrincipalID b = sg_ID g)) (st_bindings s)" "st_subjectGroups s' = fmdrop name (st_subjectGroups s)"
          "st_groupMembers s' = fmdrop name (st_groupMembers s)"
      by (auto simp: store_defs ok_simps)
    have pr: "principalExists s k i \<Longrightarrow> \<not> (k = PrincipalGroup \<and> i = sg_ID g) \<Longrightarrow> principalExists s' k i"
      for k i using column_drop [OF g, of _ sg_ID] by (auto simp: s' same principalExists_iff)
    have "fmpred (\<lambda>i b. bi_ID b = i \<and> fmlookup (st_roles s') (bi_Role b) \<noteq> None \<and>
       principalExists s' (bi_PrincipalKind b) (bi_PrincipalID b)) (st_bindings s')"
      using assms(2) pr by (auto simp: inv_identity_def fmpred_iff s' same split: option.splits if_splits)
    then show ?thesis
      using assms(2) unfolding inv_identity_def ex by (simp add: s' same keep_simps)
  qed
qed

lemma inv_identity_rows:
  assumes "inv_identity s"
  shows "fmlookup (st_groupMembers s) n = Some ms \<Longrightarrow> x |\<in>| ms \<Longrightarrow> subjectExists s x"
    and "fmlookup (st_roles s) n = Some r \<Longrightarrow> ro_Name r = n \<and> sorted (ro_Verbs r)"
    and "fmlookup (st_bindings s) i = Some b \<Longrightarrow> bi_ID b = i \<and>
      fmlookup (st_roles s) (bi_Role b) \<noteq> None \<and> principalExists s (bi_PrincipalKind b) (bi_PrincipalID b)"
    and "fmlookup (st_subjects s) n = Some subject \<Longrightarrow> sj_Name subject = n"
    and "fmlookup (st_groupMembers s) n = None \<longleftrightarrow> fmlookup (st_subjectGroups s) n = None"
proof -
  have "fmdom (st_groupMembers s) = fmdom (st_subjectGroups s)"
    using assms by (simp add: inv_identity_def)
  then show "fmlookup (st_groupMembers s) n = None \<longleftrightarrow> fmlookup (st_subjectGroups s) n = None"
    by (metis fmdom_notD fmdom_notI)
qed (use assms in \<open>auto simp: inv_identity_def fmpred_iff\<close>)

lemma same_people:
  assumes "st_subjects s' = st_subjects s" "st_subjectGroups s' = st_subjectGroups s"
  shows "subjectExists s' = subjectExists s" "has_kind s' = has_kind s"
    "principalExists s' = principalExists s"
  using assms by (simp_all add: subjectExists_def has_kind_def principalExists_def fun_eq_iff)

lemma identity_members_step:
  assumes op: "AddGroupMember ctx name member s = Inr s' \<or> RemoveGroupMember ctx name member s = Inr s'"
    and inv: "inv_identity s"
  shows "inv_identity s'"
proof -
  note rows = inv_identity_rows [OF inv]
  obtain ms ms' where ms: "fmlookup (st_groupMembers s) name = Some ms"
    "s' = s\<lparr>st_groupMembers := fmupd name ms' (st_groupMembers s)\<rparr>"
    "\<forall>x. x |\<in>| ms' \<longrightarrow> x |\<in>| ms \<or> subjectExists s x"
    using op by (auto simp: store_defs ok_simps member_set_def subjectExists_def split: option.splits)
  have p: "subjectExists s' = subjectExists s" "has_kind s' = has_kind s"
      "principalExists s' = principalExists s"
    by (rule same_people; simp add: ms)+
  have dom: "finsert name (fmdom (st_subjectGroups s)) = fmdom (st_subjectGroups s)"
    using rows(5) [of name] ms(1) by (auto intro: fmdomI)
  show ?thesis using inv ms rows(1) [OF ms(1)] unfolding inv_identity_def p
    by (auto simp: keep_simps dom)
qed

lemma identity_roles_step:
  assumes op: "PutBuiltinRole ctx role s = Inr s' \<or> CreateRole ctx role s = Inr s' \<or>
      UpdateRoleVerbs ctx name vs s = Inr s' \<or> DeleteRole ctx name s = Inr s'"
    and inv: "inv_identity s"
  shows "inv_identity s'"
proof -
  have p: "subjectExists s' = subjectExists s" "has_kind s' = has_kind s"
      "principalExists s' = principalExists s"
    by (rule same_people; use op in \<open>auto simp: store_defs ok_simps\<close>)+
  have same: "st_subjects s' = st_subjects s" "st_subjectGroups s' = st_subjectGroups s"
    "st_groupMembers s' = st_groupMembers s"
    using op by (auto simp: store_defs ok_simps)
  have "fmpred (\<lambda>n r. ro_Name r = n \<and> sorted (ro_Verbs r)) (st_roles s')"
    using op inv by (auto simp: store_defs ok_simps inv_identity_def fmpred_iff split: if_splits)
  moreover have "fmpred (\<lambda>i b. bi_ID b = i \<and> fmlookup (st_roles s') (bi_Role b) \<noteq> None \<and>
       principalExists s (bi_PrincipalKind b) (bi_PrincipalID b)) (st_bindings s')"
    using op inv by (auto simp: store_defs ok_simps inv_identity_def fmpred_iff split: if_splits option.splits)
  ultimately show ?thesis using inv unfolding inv_identity_def p same by simp
qed

lemma identity_bindings_step:
  assumes op: "CreateBinding ctx binding s = Inr s' \<or> DeleteBinding ctx bid s = Inr s'"
    and inv: "inv_identity s"
  shows "inv_identity s'"
proof -
  have p: "subjectExists s' = subjectExists s" "has_kind s' = has_kind s"
      "principalExists s' = principalExists s"
    by (rule same_people; use op in \<open>auto simp: store_defs ok_simps\<close>)+
  show ?thesis using op inv unfolding inv_identity_def p
    by (auto simp: store_defs ok_simps keep_simps)
qed

lemma inv_identity_step:
  assumes step: "identity_step s s'" and inv: "inv_identity s"
  shows "inv_identity s'"
  using step
  by (cases rule: identity_step.cases)
    (blast intro: inv identity_create_subject identity_disable_subject identity_delete_subject
      identity_groups_step identity_members_step identity_roles_step identity_bindings_step)+

lemma inv_credentials_identity_step:
  assumes step: "identity_step s s'" and inv: "inv_credentials s"
  shows "inv_credentials s'"
  using step
proof (cases rule: identity_step.cases)
  case (create_subject ctx subject)
  then have "\<And>n. subjectExists s n \<Longrightarrow> subjectExists s' n" "\<And>n k. has_kind s n k \<Longrightarrow> has_kind s' n k"
    by (auto simp: store_defs ok_simps subjectExists_def has_kind_def)
  then show ?thesis using inv create_subject unfolding inv_credentials_def
    by (auto simp: store_defs ok_simps elim!: fmpred_mono')
next
  case (disable_subject ctx name disabled)
  then have p: "subjectExists s' = subjectExists s" "has_kind s' = has_kind s"
    by (auto simp: store_defs ok_simps subjectExists_def has_kind_def fun_eq_iff split: if_splits)
  then show ?thesis using inv disable_subject unfolding inv_credentials_def p
    by (auto simp: store_defs ok_simps)
next
  case (delete_subject ctx name)
  then have "\<And>n. subjectExists s n \<Longrightarrow> n \<noteq> name \<Longrightarrow> subjectExists s' n"
    "\<And>n k. has_kind s n k \<Longrightarrow> n \<noteq> name \<Longrightarrow> has_kind s' n k"
    by (auto simp: store_defs ok_simps Let_def subjectExists_def has_kind_def)
  then show ?thesis using inv delete_subject unfolding inv_credentials_def
    by (auto simp: store_defs ok_simps Let_def keep_simps fmpred_iff split: option.splits if_splits)
qed (use inv in \<open>auto simp: store_defs ok_simps inv_credentials_def subjectExists_def has_kind_def\<close>)

section \<open>Content steps\<close>

text \<open>Every content step but \<^verbatim>\<open>DeleteRepository\<close> keeps the repositories and their types.\<close>

definition keeps_repos :: "Store \<Rightarrow> Store \<Rightarrow> bool" where
  "keeps_repos s s' \<longleftrightarrow>
    (\<forall>n r. fmlookup (st_repos s) n = Some r \<longrightarrow>
      (\<exists>r'. fmlookup (st_repos s') n = Some r' \<and> rp_Type r' = rp_Type r))"

lemma keeps_reposD:
  assumes "keeps_repos s s'"
  shows "repoExists s n \<Longrightarrow> repoExists s' n" "has_type s n t \<Longrightarrow> has_type s' n t"
    "proxy_content s c \<Longrightarrow> proxy_content s' c"
  using assms by (fastforce simp: keeps_repos_def repoExists_def has_type_def proxy_content_def)+

lemma keeps_repos_not_type:
  assumes "keeps_repos s s'" "repoExists s n" "\<not> has_type s n t"
  shows "\<not> has_type s' n t"
  using assms by (fastforce simp: keeps_repos_def repoExists_def has_type_def)

lemma content_step_keeps_repos:
  assumes "content_step s s'"
  shows "keeps_repos s s'"
  using assms
  by (cases rule: content_step.cases) (auto simp: store_defs ok_simps keeps_repos_def Let_def split: if_splits)

lemma record_pull_keeps:
  assumes "fmpred (\<lambda>k p. (pl_Repository p, pl_Reference p) = k) m"
  shows "fmpred (\<lambda>k p. (pl_Repository p, pl_Reference p) = k) (fold record_pull rs m)"
  using assms
proof (induction rs arbitrary: m)
  case (Cons r rs)
  have "fmpred (\<lambda>k p. (pl_Repository p, pl_Reference p) = k) (record_pull r m)"
    using Cons.prems
    by (auto simp: record_pull_def Let_def fmpred_iff
        split: if_splits option.splits)
  then show ?case using Cons by simp
qed simp

lemma inv_blobs_content_step:
  assumes step: "content_step s s'" and inv: "inv_blobs s"
  shows "inv_blobs s'"
proof -
  note keeps = content_step_keeps_repos [OF step]
  have up: "fmpred (\<lambda>i u. up_ID u = i \<and> i \<noteq> [] \<and> repoExists s' (entityOf (up_Repository u))) (st_uploads s)"
    using inv keeps_reposD(1) [OF keeps] by (auto simp: inv_blobs_def elim!: fmpred_mono')
  note rows = inv_blobs_rows [OF inv]
  let ?bl = "\<lambda>d b. bl_Digest b = d \<and> d \<noteq> [] \<and> 0 \<le> bl_Size b"
  let ?up = "\<lambda>i u. up_ID u = i \<and> i \<noteq> [] \<and> repoExists s' (entityOf (up_Repository u))"
  let ?pl = "\<lambda>k p. (pl_Repository p, pl_Reference p) = k"
  have "?bl d b" if "fmlookup (st_blobs s') d = Some b" for d b
    using step rows(2) [of d b] that by (cases rule: content_step.cases)
      (auto simp: store_defs ok_simps Let_def split: if_splits)
  moreover have "?up i u" if "fmlookup (st_uploads s') i = Some u" for i u
  proof -
    have "fmlookup (st_uploads s) i = Some u \<Longrightarrow> ?up i u" using fmpredD [OF up] by blast
    with step that keeps_reposD(1) [OF keeps, of "entityOf (up_Repository u)"] rows(3) [of i]
    show ?thesis
      by (cases rule: content_step.cases)
       (auto simp: store_defs ok_simps Let_def
         split: if_splits option.splits)
  qed
  moreover have "fmpred ?pl (st_pullStats s')"
    using step inv record_pull_keeps by (cases rule: content_step.cases)
      (auto simp: store_defs ok_simps Let_def inv_blobs_def
        split: if_splits)
  ultimately show ?thesis using inv unfolding inv_blobs_def fmpred_iff content_step_frame(4) [OF step] by blast
qed

lemma inv_cached_content_step:
  assumes step: "content_step s s'" and inv: "inv_cached s"
  shows "inv_cached s'"
proof -
  note keeps = keeps_reposD(3) [OF content_step_keeps_repos [OF step]]
  show ?thesis
    using content_step_frame(3) [OF step] inv
    by (auto simp: part_defs inv_cached_def keeps elim!: rows_ok_mono)
qed

lemma content_delete_manifest:
  assumes op: "DeleteManifest ctx c d s = Inr s'" and inv: "inv_content s"
  shows "inv_content s'"
proof -
  have s': "st_manifests s' = del2 c d (st_manifests s)" "st_refs s' = del2 c d (st_refs s)"
    "st_repos s' = st_repos s"
    using op by (auto simp: store_defs ok_simps Let_def)
  have tags: "lookup2 (st_tags s') c' n = (case lookup2 (st_tags s) c' n of None \<Rightarrow> None
      | Some t \<Rightarrow> if c' = c \<and> tg_Digest t = d then None else Some t)"
    and outer: "fmlookup (st_tags s') c' = None \<longleftrightarrow> fmlookup (st_tags s) c' = None" for c' n
    using op by (auto simp: store_defs ok_simps Let_def lookup2_def split: option.splits if_splits)
  have "repoExists s' = repoExists s" by (rule repoExists_cong) (rule s')
  then show ?thesis
    using inv unfolding inv_content_def s' rows_ok_def [of _ _ "st_tags s'"] rows_ok_def [of _ _ "st_tags s"]
      tags outer
    by (auto simp: keep_simps split: option.splits if_splits)
qed

lemma content_put_manifest:
  assumes op: "PutManifest ctx m refs s = Inr s'" and inv: "inv_content s"
  shows "inv_content s'"
proof -
  let ?c = "mf_Repository m"
  have "fmlookup (st_refs s) ?c = None \<longleftrightarrow> fmlookup (st_manifests s) ?c = None"
    using inv by (simp add: inv_content_def same_keys_def)
  then obtain M R where s': "s' = s\<lparr>st_manifests := put2 ?c (mf_Digest m) m M, st_refs := put2 ?c (mf_Digest m) refs R\<rparr>"
    and MR: "M = (if fmlookup (st_manifests s) ?c = None then fmupd ?c fmempty (st_manifests s) else st_manifests s)"
      "R = (if fmlookup (st_manifests s) ?c = None then fmupd ?c fmempty (st_refs s) else st_refs s)"
    and ok: "repoExists s (entityOf ?c)" "mf_Digest m \<noteq> []"
    using op by (auto simp: store_defs ok_simps Let_def split: if_splits)
  have "repoExists s' = repoExists s" by (rule repoExists_cong) (simp add: s')
  moreover have "same_keys M R"
    and "rows_ok (\<lambda>c. repoExists s (entityOf c)) (\<lambda>c d m. mf_Repository m = c \<and> mf_Digest m = d \<and> d \<noteq> []) M"
    using inv ok by (auto simp: inv_content_def MR keep_simps)
  moreover have "lookup2 (put2 ?c (mf_Digest m) m M) c d = None \<Longrightarrow> lookup2 (st_manifests s) c d = None" for c d
    by (auto simp: MR lookup2_def put2_def inner_def split: if_splits)
  then have "rows_ok (\<lambda>c. repoExists s (entityOf c))
      (\<lambda>c n t. tg_Repository t = c \<and> tg_Name t = n \<and> n \<noteq> [] \<and>
         lookup2 (put2 ?c (mf_Digest m) m M) c (tg_Digest t) \<noteq> None) (st_tags s)"
    using inv unfolding inv_content_def rows_ok_def by blast
  ultimately show ?thesis
    using ok unfolding inv_content_def by (simp add: s' keep_simps)
qed

lemma content_put_tag:
  assumes op: "PutTag ctx tag s = Inr s'" and inv: "inv_content s"
  shows "inv_content s'"
proof -
  have p: "repoExists s' = repoExists s"
    by (rule repoExists_cong) (use op in \<open>auto simp: store_defs ok_simps Let_def\<close>)
  show ?thesis
    using op inv unfolding inv_content_def p
    by (auto simp: store_defs ok_simps Let_def keep_simps split: option.splits)
qed

lemma inv_content_step:
  assumes step: "content_step s s'" and inv: "inv_content s"
  shows "inv_content s'"
proof -
  note keeps = keeps_reposD(1) [OF content_step_keeps_repos [OF step]]
  have other: "inv_content s'"
    if same: "st_manifests s' = st_manifests s" "st_refs s' = st_refs s"
      and tags: "st_tags s' = st_tags s \<or> (\<exists>c k. st_tags s' = del2 c k (st_tags s))"
  proof -
    have "rows_ok P Q (st_tags s')" if "rows_ok P Q (st_tags s)" for P Q
      using tags that by (auto simp: keep_simps)
    then show ?thesis
      using inv unfolding inv_content_def same by (blast intro: rows_ok_mono keeps)
  qed
  from step show ?thesis
  proof (cases rule: content_step.cases)
    case (put_manifest ctx m refs)
    then show ?thesis by (rule content_put_manifest [OF _ inv])
  next
    case (delete_manifest ctx name digest)
    then show ?thesis by (rule content_delete_manifest [OF _ inv])
  next
    case (put_tag ctx tag)
    then show ?thesis by (rule content_put_tag [OF _ inv])
  next
    case (delete_tag ctx name tname)
    then have "st_manifests s' = st_manifests s" "st_refs s' = st_refs s"
      "st_tags s' = del2 name tname (st_tags s)"
      by (auto simp: store_defs ok_simps)
    then show ?thesis by (intro other) blast+
  qed (rule other; auto simp: store_defs ok_simps Let_def split: if_splits)+
qed

lemma has_type_cong: "st_repos s' = st_repos s \<Longrightarrow> has_type s' = has_type s"
  by (simp add: fun_eq_iff has_type_def)

lemma inv_repos_row:
  assumes "inv_repos s" "fmlookup (st_repos s) n = Some r"
  shows "n \<noteq> [] \<and> rp_Name r = n \<and> Valid_type (rp_Type r) \<and> 1 \<le> rp_ConfigVersion r \<and>
    map cr_Version (history s n) = [1..rp_ConfigVersion r - 1]"
  using assms by (simp add: inv_repos_def fmpred_iff)

lemma repos_update_config:
  assumes op: "UpdateRepositoryConfig ctx name config v actor at s = Inr (repo', s')" and inv: "inv_repos s"
  shows "inv_repos s'"
proof -
  obtain repo where repo: "fmlookup (st_repos s) name = Some repo"
    and s': "st_repos s' = fmupd name repo' (st_repos s)" "st_proxyCredentials s' = st_proxyCredentials s"
    and repo': "rp_Name repo' = rp_Name repo" "rp_Type repo' = rp_Type repo"
      "rp_ConfigVersion repo' = rp_ConfigVersion repo + 1"
    and h: "history s' name = history s name @ [\<lparr>cr_Repository = name, cr_Version = rp_ConfigVersion repo,
       cr_Config = rp_Config repo, cr_Actor = actor, cr_At = at\<rparr>]"
    and others: "\<And>n. n \<noteq> name \<Longrightarrow> history s' n = history s n"
    and dom: "\<And>n. fmlookup (st_configHistory s') n = None \<longleftrightarrow> n \<noteq> name \<and> fmlookup (st_configHistory s) n = None"
    using op by (auto simp: store_defs ok_simps Let_def history_def)
  note row = inv_repos_row [OF inv repo]
  have versions: "map cr_Version (history s' name) = [1..rp_ConfigVersion repo' - 1]"
    using row by (simp add: h repo' upto_rec2)
  have keeps: "keeps_repos s s'"
    using repo repo' by (simp add: keeps_repos_def s')
  have "fmpred (\<lambda>n r. n \<noteq> [] \<and> rp_Name r = n \<and> Valid_type (rp_Type r) \<and> 1 \<le> rp_ConfigVersion r \<and>
       map cr_Version (history s' n) = [1..rp_ConfigVersion r - 1]) (st_repos s')"
    using inv row versions by (auto simp: inv_repos_def fmpred_iff s' repo' others)
  moreover have "fmpred (\<lambda>n _. repoExists s' n) (st_configHistory s')"
  proof (rule fmpredI)
    fix n h
    assume "fmlookup (st_configHistory s') n = Some h"
    then have "n = name \<or> fmlookup (st_configHistory s) n \<noteq> None" using dom [of n] by auto
    then show "repoExists s' n"
      using inv keeps_reposD(1) [OF keeps] repo by (auto simp: inv_repos_def fmpred_iff repoExists_def)
  qed
  ultimately show ?thesis
    using inv keeps_reposD(2) [OF keeps] unfolding inv_repos_def s'(2) by (auto elim!: fmpred_mono')
qed

lemma inv_repos_step:
  assumes step: "content_step s s'" and inv: "inv_repos s"
  shows "inv_repos s'"
proof -
  note keeps = keeps_reposD [OF content_step_keeps_repos [OF step]]
  from step show ?thesis
  proof (cases rule: content_step.cases)
    case (update_config ctx name config v actor at r)
    then show ?thesis by (rule repos_update_config [OF _ inv])
  next
    case (create_repository ctx repo r)
    then have s': "s' = s\<lparr>st_repos := fmupd (rp_Name repo) r (st_repos s)\<rparr>" "r = repo\<lparr>rp_ConfigVersion := 1\<rparr>"
      and new: "fmlookup (st_repos s) (rp_Name repo) = None" "rp_Name repo \<noteq> []" "Valid_type (rp_Type repo)"
      by (auto simp: store_defs ok_simps Let_def)
    have "fmlookup (st_configHistory s) (rp_Name repo) = None"
      using inv new(1) by (fastforce simp: inv_repos_def fmpred_iff repoExists_def)
    then have "history s' (rp_Name repo) = []" "\<And>n. history s' n = history s n"
      by (auto simp: s' history_def)
    then show ?thesis using inv keeps new unfolding inv_repos_def
      by (auto simp: s' keep_simps elim!: fmpred_mono')
  qed (use inv in \<open>auto simp: store_defs ok_simps Let_def inv_repos_def history_def repoExists_def
        has_type_def keep_simps split: if_splits\<close>)
qed

lemma check_members_ok:
  "check_members s grp seen n ms = Inr k \<Longrightarrow>
     (\<forall>m \<in> set ms. repoExists s (gm_Repository m) \<and> \<not> has_type s (gm_Repository m) Group) \<and>
     distinct (map gm_Position ms) \<and> set seen \<inter> gm_Position ` set ms = {} \<and>
     k = n + length (filter gm_WriteTarget ms)"
proof (induction ms arbitrary: seen n)
  case (Cons m ms)
  then show ?case
    by (fastforce simp: repoExists_def has_type_def split: option.splits if_splits)
qed simp

lemma inv_members_set:
  assumes op: "SetGroupMembers ctx grp ms s = Inr s'" and inv: "inv_members s"
  shows "inv_members s'"
proof -
  obtain k where k: "check_members s grp [] 0 ms = Inr k" "k \<le> 1" "has_type s grp Group"
    and s': "s' = s\<lparr>st_members := fmupd grp (sort_key gm_Position ms) (st_members s)\<rparr>"
    using op by (auto simp: store_defs ok_simps has_type_def)
  have "distinct (map gm_Position (sort_key gm_Position ms))"
    using check_members_ok [OF k(1)] by (metis distinct_map distinct_sort set_sort)
  then have "sorted_wrt (<) (map gm_Position (sort_key gm_Position ms))"
    by (simp add: strict_sorted_iff)
  moreover have "length (filter gm_WriteTarget (sort_key gm_Position ms)) = length (filter gm_WriteTarget ms)"
    by (metis filter_sort length_sort)
  moreover have "repoExists s' = repoExists s" "has_type s' = has_type s"
    by (rule repoExists_cong has_type_cong; simp add: s')+
  ultimately show ?thesis
    using inv k check_members_ok [OF k(1)] unfolding inv_members_def by (simp add: s' keep_simps)
qed

lemma inv_members_step:
  assumes step: "content_step s s'" and inv: "inv_members s"
  shows "inv_members s'"
proof -
  note keeps = content_step_keeps_repos [OF step]
  have other: "inv_members s'" if same: "st_members s' = st_members s"
    using inv keeps_reposD [OF keeps] keeps_repos_not_type [OF keeps] unfolding inv_members_def same
    by (fastforce elim!: fmpred_mono')
  from step show ?thesis
  proof (cases rule: content_step.cases)
    case (set_members ctx name ms)
    then show ?thesis by (rule inv_members_set [OF _ inv])
  qed (rule other; auto simp: store_defs ok_simps Let_def split: if_splits)+
qed

end
