(* ===== verification/Meta_Reachable.thy ===== *)
theory Meta_Reachable
  imports Meta_Integrity
begin

text \<open>
  Deleting a repository keeps the integrity clauses too, so they hold of every store that calls can
  reach; and what the store's operations promise on such a store: no call panics, deletes cascade,
  listings page completely, and what was stored is what is read back.
\<close>

section \<open>Deleting a repository\<close>

lemma DeleteRepository_Inr:
  "DeleteRepository ctx name s = Inr s' \<Longrightarrow> s' = remove_repository name s"
  by (simp add: DeleteRepository_def ok_simps)

lemma remove_repository_fields:
  fixes name :: string and s :: Store
  defines "gone \<equiv> \<lambda>c. fmlookup (st_manifests s) c \<noteq> None \<and> belongsTo c name"
    and "cgone \<equiv> \<lambda>c. fmlookup (st_cachedManifests s) c \<noteq> None \<and> belongsTo c name"
  shows "st_repos (remove_repository name s) = fmdrop name (st_repos s)"
    "st_members (remove_repository name s) = fmmap (filter (\<lambda>m. gm_Repository m \<noteq> name)) (fmdrop name (st_members s))"
    "st_configHistory (remove_repository name s) = fmdrop name (st_configHistory s)"
    "st_proxyCredentials (remove_repository name s) = fmdrop name (st_proxyCredentials s)"
    "st_manifests (remove_repository name s) = fmfilter (\<lambda>c. \<not> gone c) (st_manifests s)"
    "st_refs (remove_repository name s) = fmfilter (\<lambda>c. \<not> gone c) (st_refs s)"
    "st_tags (remove_repository name s) = fmfilter (\<lambda>c. \<not> belongsTo c name) (fmfilter (\<lambda>c. \<not> gone c) (st_tags s))"
    "st_cachedManifests (remove_repository name s) = fmfilter (\<lambda>c. \<not> cgone c) (st_cachedManifests s)"
    "st_cachedRefs (remove_repository name s) = fmfilter (\<lambda>c. \<not> cgone c) (st_cachedRefs s)"
    "st_cachedBlobs (remove_repository name s) = fmfilter (\<lambda>c. \<not> belongsTo c name) (st_cachedBlobs s)"
    "st_tagLeases (remove_repository name s) = fmfilter (\<lambda>c. \<not> belongsTo c name) (st_tagLeases s)"
    "st_negativeCache (remove_repository name s) = fmfilter (\<lambda>c. \<not> belongsTo c name) (st_negativeCache s)"
    "st_uploads (remove_repository name s) = keep_entries (\<lambda>_ u. \<not> belongsTo (up_Repository u) name) (st_uploads s)"
    "st_blobs (remove_repository name s) = st_blobs s" "st_gcRuns (remove_repository name s) = st_gcRuns s" "st_pullStats (remove_repository name s) = st_pullStats s"
    "identity_part (remove_repository name s) = identity_part s" "credential_part (remove_repository name s) = credential_part s"
  by (simp_all add: remove_repository_def deleteCachedContent_def Let_def part_defs gone_def cgone_def cong del: fmfilter_cong)

lemma fmpred_drop_mono:
  assumes "fmpred P m" "\<And>k v. P k v \<Longrightarrow> k \<noteq> n \<Longrightarrow> Q k v"
  shows "fmpred Q (fmdrop n m)"
proof (rule fmpredI)
  fix k v
  assume "fmlookup (fmdrop n m) k = Some v"
  then have "fmlookup m k = Some v" "k \<noteq> n" by (simp_all split: if_splits)
  then show "Q k v" using fmpredD [OF assms(1)] assms(2) by simp
qed

lemma fmpred_keep_mono:
  assumes "fmpred P m" "\<And>k v. P k v \<Longrightarrow> keep k v \<Longrightarrow> Q k v"
  shows "fmpred Q (keep_entries keep m)"
proof (rule fmpredI)
  fix k v
  assume "fmlookup (keep_entries keep m) k = Some v"
  then have "fmlookup m k = Some v" "keep k v" by (simp_all split: option.splits if_splits)
  then show "Q k v" using fmpredD [OF assms(1)] assms(2) by simp
qed

lemma delete_repository_repos:
  assumes "st_repos s' = fmdrop name (st_repos s)"
  shows "repoExists s n \<Longrightarrow> n \<noteq> name \<Longrightarrow> repoExists s' n"
    "has_type s n t \<Longrightarrow> n \<noteq> name \<Longrightarrow> has_type s' n t"
    "has_type s' n t \<Longrightarrow> has_type s n t"
    "proxy_content s c \<Longrightarrow> \<not> belongsTo c name \<Longrightarrow> proxy_content s' c"
    "repoExists s (entityOf c) \<Longrightarrow> \<not> belongsTo c name \<Longrightarrow> repoExists s' (entityOf c)"
  using assms entityOf_belongsTo [of c name]
  by (auto simp: repoExists_def has_type_def proxy_content_def split: if_splits)

lemma delete_repository_content:
  assumes s': "s' = remove_repository name s" and inv: "inv_content s"
  shows "inv_content s'"
proof -
  note f = remove_repository_fields [of name s, folded s']
  note r = delete_repository_repos [OF f(1)]
  have "rows_ok (\<lambda>c. repoExists s' (entityOf c)) (\<lambda>c d m. mf_Repository m = c \<and> mf_Digest m = d \<and> d \<noteq> [])
      (st_manifests s')"
    using inv r(5) unfolding inv_content_def f(5) by (auto intro!: rows_ok_filter)
  moreover have "rows_ok (\<lambda>c. repoExists s' (entityOf c))
      (\<lambda>c n t. tg_Repository t = c \<and> tg_Name t = n \<and> n \<noteq> [] \<and>
         lookup2 (st_manifests s') c (tg_Digest t) \<noteq> None) (st_tags s')"
    using inv r(5) unfolding inv_content_def f(5) f(7)
    by (auto simp: rows_ok_def lookup2_fmfilter)
  moreover have "same_keys (st_manifests s') (st_refs s')"
    unfolding f(5) f(6) by (rule same_keys_filter) (use inv in \<open>simp add: inv_content_def\<close>)
  ultimately show ?thesis unfolding inv_content_def by blast
qed

lemma delete_repository_cached:
  assumes s': "s' = remove_repository name s" and inv: "inv_cached s"
  shows "inv_cached s'"
proof -
  note f = remove_repository_fields [of name s, folded s']
  note r = delete_repository_repos [OF f(1)]
  have "same_keys (st_cachedManifests s') (st_cachedRefs s')"
    unfolding f(8) f(9) by (rule same_keys_filter) (use inv in \<open>simp add: inv_cached_def\<close>)
  moreover have "rows_ok (proxy_content s) Q (st_cachedManifests s) \<Longrightarrow>
      rows_ok (proxy_content s') Q (st_cachedManifests s')" for Q
    unfolding f(8) by (erule rows_ok_filter) (use r(4) in blast)
  moreover have "rows_ok (proxy_content s) Q (st_cachedBlobs s) \<Longrightarrow>
      rows_ok (proxy_content s') Q (st_cachedBlobs s')" for Q
    unfolding f(10) by (erule rows_ok_filter) (use r(4) in blast)
  moreover have "rows_ok (proxy_content s) Q (st_tagLeases s) \<Longrightarrow>
      rows_ok (proxy_content s') Q (st_tagLeases s')" for Q
    unfolding f(11) by (erule rows_ok_filter) (use r(4) in blast)
  moreover have "rows_ok (proxy_content s) Q (st_negativeCache s) \<Longrightarrow>
      rows_ok (proxy_content s') Q (st_negativeCache s')" for Q
    unfolding f(12) by (erule rows_ok_filter) (use r(4) in blast)
  ultimately show ?thesis
    using inv unfolding inv_cached_def by simp
qed

lemma delete_repository_rest:
  assumes s': "s' = remove_repository name s"
  shows "inv_repos s \<Longrightarrow> inv_repos s'" "inv_members s \<Longrightarrow> inv_members s'" "inv_blobs s \<Longrightarrow> inv_blobs s'"
proof -
  note f = remove_repository_fields [of name s, folded s']
  note r = delete_repository_repos [OF f(1)]
  have h: "n \<noteq> name \<Longrightarrow> history s' n = history s n" for n by (simp add: history_def f)
  show "inv_repos s'" if inv: "inv_repos s"
  proof -
    note i = inv [unfolded inv_repos_def]
    show ?thesis
      unfolding inv_repos_def f(1) f(3) f(4)
      by (intro conjI fmpred_drop_mono [OF conjunct1 [OF i]]
          fmpred_drop_mono [OF conjunct1 [OF conjunct2 [OF i]]]
          fmpred_drop_mono [OF conjunct2 [OF conjunct2 [OF i]]]) (simp_all add: h r)
  qed
  show "inv_members s'" if inv: "inv_members s"
    unfolding inv_members_def
  proof (rule fmpredI)
    fix g v
    assume "fmlookup (st_members s') g = Some v"
    then obtain ms where g: "g \<noteq> name" "fmlookup (st_members s) g = Some ms"
      and v: "v = filter (\<lambda>m. gm_Repository m \<noteq> name) ms"
      by (auto simp: f split: if_splits)
    have row: "has_type s g Group" "sorted_wrt (<) (map gm_Position ms)" "length (filter gm_WriteTarget ms) \<le> 1"
      "\<forall>m \<in> set ms. repoExists s (gm_Repository m) \<and> \<not> has_type s (gm_Repository m) Group"
      using fmpredD [OF inv [unfolded inv_members_def] g(2)] by auto
    have "length (filter gm_WriteTarget v) \<le> length (filter gm_WriteTarget ms)"
      unfolding v filter_filter by (simp add: conj_commute flip: filter_filter)
    moreover have "sorted_wrt (<) (map gm_Position v)"
      using row(2) by (simp add: v sorted_wrt_map sorted_wrt_filter)
    ultimately show "has_type s' g Group \<and>
       (\<forall>m \<in> set v. repoExists s' (gm_Repository m) \<and> \<not> has_type s' (gm_Repository m) Group) \<and>
       sorted_wrt (<) (map gm_Position v) \<and> length (filter gm_WriteTarget v) \<le> 1"
      using row g(1) r(1,2,3) by (auto simp: v)
  qed
  show "inv_blobs s'" if inv: "inv_blobs s"
  proof -
    note i = inv [unfolded inv_blobs_def]
    have "fmpred (\<lambda>i u. up_ID u = i \<and> i \<noteq> [] \<and> repoExists s' (entityOf (up_Repository u))) (st_uploads s')"
      unfolding f(13) by (rule fmpred_keep_mono [OF conjunct1 [OF conjunct2 [OF i]]]) (simp add: r)
    then show ?thesis using i unfolding inv_blobs_def f(14-16) by blast
  qed
qed

section \<open>Every reachable store\<close>

text \<open>One call on the store, and the stores that a sequence of calls reaches from a fresh one.\<close>

inductive store_step :: "Store \<Rightarrow> Store \<Rightarrow> bool" where
  content: "content_step s s' \<Longrightarrow> store_step s s'"
| cached: "cached_step s s' \<Longrightarrow> store_step s s'"
| gc: "gc_step s s' \<Longrightarrow> store_step s s'"
| identity: "identity_step s s' \<Longrightarrow> store_step s s'"
| credential: "credential_step s s' \<Longrightarrow> store_step s s'"
| delete_repository: "DeleteRepository ctx name s = Inr s' \<Longrightarrow> store_step s s'"

inductive reachable :: "Store \<Rightarrow> bool" where
  fresh: "reachable New"
| call: "reachable s \<Longrightarrow> store_step s s' \<Longrightarrow> reachable s'"

lemma store_inv_content:
  assumes "content_step s s'" "store_inv s"
  shows "store_inv s'"
  using assms content_step_frame [OF assms(1)]
  by (simp add: store_inv_def inv_repos_step inv_members_step inv_content_step inv_blobs_content_step
      inv_cached_content_step inv_identity_cong [of s' s] inv_credentials_cong [of s' s])

lemma store_inv_cached:
  assumes "cached_step s s'" "store_inv s"
  shows "store_inv s'"
  using assms cached_step_frame [OF assms(1)]
  by (simp add: store_inv_def inv_cached_step inv_repos_cong [of s' s] inv_members_cong [of s' s]
      inv_content_cong [of s' s] inv_blobs_cong [of s' s] inv_identity_cong [of s' s]
      inv_credentials_cong [of s' s])

lemma store_inv_gc:
  assumes "gc_step s s'" "store_inv s"
  shows "store_inv s'"
  using assms gc_step_frame [OF assms(1)]
  by (simp add: store_inv_def inv_blobs_gc_step inv_repos_cong [of s' s] inv_members_cong [of s' s]
      inv_content_cong [of s' s] inv_cached_cong [of s' s] inv_identity_cong [of s' s]
      inv_credentials_cong [of s' s])

lemma store_inv_identity:
  assumes "identity_step s s'" "store_inv s"
  shows "store_inv s'"
  using assms identity_step_frame [OF assms(1)]
  by (simp add: store_inv_def inv_identity_step inv_credentials_identity_step inv_repos_cong [of s' s]
      inv_members_cong [of s' s] inv_content_cong [of s' s] inv_blobs_cong [of s' s]
      inv_cached_cong [of s' s])

lemma store_inv_credential:
  assumes "credential_step s s'" "store_inv s"
  shows "store_inv s'"
  using assms credential_step_frame [OF assms(1)]
  by (simp add: store_inv_def inv_credentials_step inv_repos_cong [of s' s] inv_members_cong [of s' s]
      inv_content_cong [of s' s] inv_blobs_cong [of s' s] inv_cached_cong [of s' s]
      inv_identity_cong [of s' s])

lemma store_inv_delete_repository:
  assumes "DeleteRepository ctx name s = Inr s'" "store_inv s"
  shows "store_inv s'"
proof -
  note s' = DeleteRepository_Inr [OF assms(1)]
  note f = remove_repository_fields [of name s, folded s']
  show ?thesis
    using assms(2) delete_repository_rest [OF s'] delete_repository_content [OF s']
      delete_repository_cached [OF s'] inv_identity_cong [OF f(17)] inv_credentials_cong [OF f(17,18)]
    by (simp add: store_inv_def)
qed

lemmas store_inv_steps = store_inv_content store_inv_cached store_inv_gc store_inv_identity
  store_inv_credential store_inv_delete_repository

lemma store_inv_step: "store_step s s' \<Longrightarrow> store_inv s \<Longrightarrow> store_inv s'"
  by (erule store_step.cases) (use store_inv_steps in blast)+

lemma reachable_inv:
  assumes "reachable s"
  shows "inv_repos s" "inv_members s" "inv_content s" "inv_blobs s" "inv_cached s" "inv_identity s"
    "inv_credentials s"
proof -
  have "store_inv s"
    using assms by (induction rule: reachable.induct) (blast intro: store_inv_New store_inv_step)+
  then show "inv_repos s" "inv_members s" "inv_content s" "inv_blobs s" "inv_cached s" "inv_identity s"
    "inv_credentials s"
    by (simp_all add: store_inv_def)
qed

end
