(* ===== verification/Meta_Correct.thy ===== *)
theory Meta_Correct
  imports Meta_Reachable
begin

text \<open>
  What the operations of the metadata store promise, over every store that calls can reach: integrity,
  no panic, tags that resolve, deletes that cascade exactly, guarded manifest deletion, a configuration
  lineage without gaps or lost updates, listings that a client can walk to the end, atomic event
  appends, sessions that cannot outlive their bound, and effective bindings.
\<close>

section \<open>A sample store\<close>

text \<open>A hosted repository holding an index, the manifest it lists, and a tag.\<close>

definition sample_repo :: Repository_meta where
  "sample_repo = \<lparr>rp_Name = ''team'', rp_Type = Hosted, rp_Config = Some ''{}'', rp_ConfigVersion = 1,
     rp_CreatedAt = 1, rp_UpdatedAt = 1\<rparr>"

definition sample_manifest :: "string \<Rightarrow> Manifest" where
  "sample_manifest d = \<lparr>mf_Repository = ''team/api'', mf_Digest = d, mf_MediaType = ''m'',
     mf_ArtifactType = [], mf_Subject = [], mf_Payload = ''p'', mf_Size = 1, mf_CreatedAt = 2\<rparr>"

definition sample_tag :: Tag where
  "sample_tag = \<lparr>tg_Repository = ''team/api'', tg_Name = ''v1'', tg_Digest = ''d1'', tg_CreatedAt = 3,
     tg_UpdatedAt = 3\<rparr>"

definition sample_store :: Store where
  "sample_store = New\<lparr>
     st_repos := fmupd ''team'' sample_repo fmempty,
     st_manifests := fmupd ''team/api'' (fmupd ''d2'' (sample_manifest ''d2'')
        (fmupd ''d1'' (sample_manifest ''d1'') fmempty)) fmempty,
     st_refs := fmupd ''team/api'' (fmupd ''d2'' [\<lparr>mr_Child = ''d1'', mr_Kind = RefChild\<rparr>]
        (fmupd ''d1'' [\<lparr>mr_Child = ''b1'', mr_Kind = RefLayer\<rparr>] fmempty)) fmempty,
     st_tags := fmupd ''team/api'' (fmupd ''v1'' sample_tag fmempty) fmempty\<rparr>"

lemmas sample_defs = sample_store_def sample_repo_def sample_manifest_def sample_tag_def New_def
  newEmpty_def

lemma sample_entity [simp]: "entityOf ''team/api'' = ''team''" "entityOf ''team'' = ''team''"
  by code_simp+

lemma sample_reachable: "reachable sample_store"
proof -
  let ?s1 = "New\<lparr>st_repos := fmupd ''team'' sample_repo fmempty\<rparr>"
  let ?s2 = "?s1\<lparr>st_manifests := fmupd ''team/api'' (fmupd ''d1'' (sample_manifest ''d1'') fmempty) fmempty,
     st_refs := fmupd ''team/api'' (fmupd ''d1'' [\<lparr>mr_Child = ''b1'', mr_Kind = RefLayer\<rparr>] fmempty) fmempty\<rparr>"
  let ?s3 = "sample_store\<lparr>st_tags := fmempty\<rparr>"
  have 1: "CreateRepository None sample_repo New = Inr (sample_repo, ?s1)"
    by (simp add: CreateRepository_def with_open_def checkOpen_def Valid_type_def sample_defs Let_def)
  have 2: "PutManifest None (sample_manifest ''d1'') [\<lparr>mr_Child = ''b1'', mr_Kind = RefLayer\<rparr>] ?s1 = Inr ?s2"
    by (simp add: PutManifest_def with_open_def checkOpen_def repoExists_def check_ref_def
        Valid_refkind_def put2_def inner_def sample_defs Let_def)
  have 3: "PutManifest None (sample_manifest ''d2'') [\<lparr>mr_Child = ''d1'', mr_Kind = RefChild\<rparr>] ?s2 = Inr ?s3"
    by (simp add: PutManifest_def with_open_def checkOpen_def repoExists_def check_ref_def
        Valid_refkind_def put2_def inner_def sample_defs Let_def)
  have 4: "PutTag None sample_tag ?s3 = Inr sample_store"
    by (simp add: PutTag_def with_open_def checkOpen_def repoExists_def lookup2_def put2_def inner_def
        sample_defs Let_def)
  have "reachable ?s1"
    by (rule reachable.call [OF reachable.fresh store_step.content [OF content_step.create_repository [OF 1]]])
  from reachable.call [OF this store_step.content [OF content_step.put_manifest [OF 2]]]
  have "reachable ?s2" .
  from reachable.call [OF this store_step.content [OF content_step.put_manifest [OF 3]]]
  have "reachable ?s3" .
  from reachable.call [OF this store_step.content [OF content_step.put_tag [OF 4]]]
  show ?thesis .
qed

text \<open>C1: Every store that calls on a fresh one can reach satisfies the integrity clauses: each row
  is filed under its own key, content and uploads belong to a repository that exists, manifests and
  their edges are stored together, every tag names a stored manifest, cached rows belong to a proxy,
  members of a group are existing non-groups in strict order with at most one write target, the
  configuration lineage is 1, 2, ... up to the current version, bindings name existing principals and
  roles, credentials existing subjects, and the anonymous subject is there.\<close>

theorem store_integrity: "reachable s \<Longrightarrow> store_inv s"
  by (simp add: store_inv_def reachable_inv)

theorem store_integrity_witness: "reachable sample_store \<and> store_inv sample_store"
  using store_integrity [OF sample_reachable] sample_reachable by simp

lemma Inl_panic:
  "with_open ctx s body = Inl Panic \<longleftrightarrow> ctx = None \<and> \<not> st_closed s \<and> body = Inl Panic"
  "(case x of None \<Rightarrow> b | Some e \<Rightarrow> Inl e) = Inl Panic \<longleftrightarrow> x = Some Panic \<or> x = None \<and> b = Inl Panic"
  "(if c then a else b) = Inl Panic \<longleftrightarrow> c \<and> a = Inl Panic \<or> \<not> c \<and> b = Inl Panic"
  by (auto simp: with_open_def checkOpen_def split: option.splits)

text \<open>C11: No call on a reachable store writes into a nil map: the three methods that index an inner
  map they did not create themselves never panic.\<close>

theorem no_call_panics:
  assumes "reachable s"
  shows "PutManifest ctx m refs s \<noteq> Inl Panic \<and> PutCachedManifest ctx cm crefs s \<noteq> Inl Panic \<and>
    AddGroupMember ctx g x s \<noteq> Inl Panic"
proof -
  note inv = reachable_inv [OF assms]
  have refs: "fmlookup (st_manifests s) c = None \<longleftrightarrow> fmlookup (st_refs s) c = None" for c
    using inv(3) by (simp add: inv_content_def same_keys_def)
  have crefs: "fmlookup (st_cachedManifests s) c = None \<longleftrightarrow> fmlookup (st_cachedRefs s) c = None" for c
    using inv(5) by (simp add: inv_cached_def same_keys_def)
  have members: "fmlookup (st_groupMembers s) c = None \<longleftrightarrow> fmlookup (st_subjectGroups s) c = None" for c
  proof -
    have "fmdom (st_groupMembers s) = fmdom (st_subjectGroups s)" using inv(6) by (simp add: inv_identity_def)
    then show ?thesis by (metis fmdom_notD fmdom_notI)
  qed
  have checks: "first_error check_ref refs \<noteq> Some Panic" "first_error check_cached_ref crefs \<noteq> Some Panic"
    using first_error_SomeD [of check_ref refs Panic] first_error_SomeD [of check_cached_ref crefs Panic]
    by (auto simp: check_ref_def check_cached_ref_def split: if_splits)
  have proxy: "requireProxyEntity s c \<noteq> Some Panic" for c
    by (simp add: requireProxyEntity_def Let_def split: option.split)
  have "PutManifest ctx m refs s \<noteq> Inl Panic"
    using checks(1) refs by (simp add: PutManifest_def Inl_panic Let_def)
  moreover have "PutCachedManifest ctx cm crefs s \<noteq> Inl Panic"
    using checks(2) proxy crefs by (simp add: PutCachedManifest_def Inl_panic Let_def)
  moreover have "AddGroupMember ctx g x s \<noteq> Inl Panic"
    using members [of g] by (simp add: AddGroupMember_def Inl_panic split: option.splits)
  ultimately show ?thesis by simp
qed

theorem no_call_panics_witness:
  "reachable sample_store \<and>
   PutManifest None (sample_manifest ''d3'') [] sample_store \<noteq> Inl Panic \<and>
   AddGroupMember None ''ops'' ''alice'' sample_store \<noteq> Inl Panic"
  using no_call_panics [OF sample_reachable] sample_reachable by simp

section \<open>Content\<close>

lemma with_open_open [simp]: "\<not> st_closed s \<Longrightarrow> with_open None s body = body"
  by (simp add: with_open_def checkOpen_def)

lemma remove_repository_open [simp]: "st_closed (remove_repository name s) = st_closed s"
  by (simp add: remove_repository_def deleteCachedContent_def Let_def)

text \<open>C10: Tags never dangle: a tag read from a reachable store is the one filed under the name asked
  for, and the digest it gives is that of a manifest stored in the same repository.\<close>

theorem tags_resolve:
  assumes "reachable s" "GetTag None repo name s = Inr t"
  shows "tg_Repository t = repo \<and> tg_Name t = name \<and>
    (\<exists>m. GetManifest None repo (tg_Digest t) s = Inr m \<and> mf_Repository m = repo \<and>
       mf_Digest m = tg_Digest t)"
proof -
  have t: "lookup2 (st_tags s) repo name = Some t" and op: "\<not> st_closed s"
    using assms(2) by (auto simp: GetTag_def ok_simps split: option.splits)
  have inv: "inv_content s" by (rule reachable_inv [OF assms(1)])
  then have tag: "tg_Repository t = repo" "tg_Name t = name"
    and "lookup2 (st_manifests s) repo (tg_Digest t) \<noteq> None"
    using t by (auto simp: inv_content_def rows_ok_def)
  then obtain m where m: "lookup2 (st_manifests s) repo (tg_Digest t) = Some m" by blast
  moreover have "mf_Repository m = repo \<and> mf_Digest m = tg_Digest t"
    using inv m by (auto simp: inv_content_def rows_ok_def)
  ultimately show ?thesis using tag op by (simp add: GetManifest_def)
qed

theorem tags_resolve_witness:
  "reachable sample_store \<and> GetTag None ''team/api'' ''v1'' sample_store = Inr sample_tag \<and>
   tg_Name sample_tag = ''v1'' \<and>
   (\<exists>m. GetManifest None ''team/api'' ''d1'' sample_store = Inr m \<and> mf_Digest m = ''d1'')"
proof -
  have t: "GetTag None ''team/api'' ''v1'' sample_store = Inr sample_tag"
    by (simp add: GetTag_def with_open_def checkOpen_def lookup2_def sample_defs)
  have d: "tg_Digest sample_tag = ''d1''" by (simp add: sample_tag_def)
  show ?thesis using tags_resolve [OF sample_reachable t] sample_reachable t unfolding d by blast
qed

text \<open>The whole store after a repository is deleted.\<close>

definition without_repository :: "string \<Rightarrow> Store \<Rightarrow> Store" where
  "without_repository name s =
    s\<lparr>st_repos := fmdrop name (st_repos s),
      st_members := fmmap (filter (\<lambda>m. gm_Repository m \<noteq> name)) (fmdrop name (st_members s)),
      st_configHistory := fmdrop name (st_configHistory s),
      st_proxyCredentials := fmdrop name (st_proxyCredentials s),
      st_manifests := fmfilter (\<lambda>c. \<not> belongsTo c name) (st_manifests s),
      st_refs := fmfilter (\<lambda>c. \<not> belongsTo c name) (st_refs s),
      st_tags := fmfilter (\<lambda>c. \<not> belongsTo c name) (st_tags s),
      st_uploads := keep_entries (\<lambda>_ u. \<not> belongsTo (up_Repository u) name) (st_uploads s),
      st_cachedManifests := fmfilter (\<lambda>c. \<not> belongsTo c name) (st_cachedManifests s),
      st_cachedRefs := fmfilter (\<lambda>c. \<not> belongsTo c name) (st_cachedRefs s),
      st_cachedBlobs := fmfilter (\<lambda>c. \<not> belongsTo c name) (st_cachedBlobs s),
      st_tagLeases := fmfilter (\<lambda>c. \<not> belongsTo c name) (st_tagLeases s),
      st_negativeCache := fmfilter (\<lambda>c. \<not> belongsTo c name) (st_negativeCache s)\<rparr>"

lemma remove_repository_eq:
  assumes "reachable s"
  shows "remove_repository name s = without_repository name s"
proof -
  have keys: "fmlookup (st_manifests s) c = None \<longleftrightarrow> fmlookup (st_refs s) c = None"
    "fmlookup (st_cachedManifests s) c = None \<longleftrightarrow> fmlookup (st_cachedRefs s) c = None" for c
    using reachable_inv(3,5) [OF assms] by (simp_all add: inv_content_def inv_cached_def same_keys_def)
  have filter: "fmfilter (\<lambda>c. fmlookup m c = None \<or> \<not> belongsTo c name) r = fmfilter (\<lambda>c. \<not> belongsTo c name) r"
    if "\<And>c. fmlookup m c = None \<longleftrightarrow> fmlookup r c = None"
    for m :: "(string, 'x) fmap" and r :: "(string, 'y) fmap"
    using that by (auto intro!: fmap_ext)
  have tags: "(\<lambda>c. \<not> belongsTo c name \<and> (P c \<or> \<not> belongsTo c name)) = (\<lambda>c. \<not> belongsTo c name)" for P
    by auto
  show ?thesis
    by (simp add: remove_repository_def deleteCachedContent_def without_repository_def Let_def tags
        filter [OF refl] filter [OF keys(1)] filter [OF keys(2)] del: fmfilter_fmmap cong del: fmfilter_cong)
qed

lemma without_repository_lookup:
  fixes name s defines "s' \<equiv> without_repository name s"
  shows "lookup2 (st_manifests s') c d = (if belongsTo c name then None else lookup2 (st_manifests s) c d)"
    "lookup2 (st_tags s') c n = (if belongsTo c name then None else lookup2 (st_tags s) c n)"
    "lookup2 (st_refs s') c d = (if belongsTo c name then None else lookup2 (st_refs s) c d)"
    "lookup2 (st_cachedManifests s') c d = (if belongsTo c name then None else lookup2 (st_cachedManifests s) c d)"
    "lookup2 (st_cachedRefs s') c d = (if belongsTo c name then None else lookup2 (st_cachedRefs s) c d)"
    "lookup2 (st_cachedBlobs s') c d = (if belongsTo c name then None else lookup2 (st_cachedBlobs s) c d)"
    "lookup2 (st_tagLeases s') c n = (if belongsTo c name then None else lookup2 (st_tagLeases s) c n)"
    "lookup2 (st_negativeCache s') c n = (if belongsTo c name then None else lookup2 (st_negativeCache s) c n)"
    "inner (st_manifests s') c = (if belongsTo c name then fmempty else inner (st_manifests s) c)"
    "inner (st_refs s') c = (if belongsTo c name then fmempty else inner (st_refs s) c)"
  by (simp_all add: s'_def without_repository_def lookup2_def inner_def)

lemma without_repository_other:
  fixes name s defines "s' \<equiv> without_repository name s"
  shows "st_closed s' = st_closed s" "st_repos s' = fmdrop name (st_repos s)" "st_events s' = st_events s"
    "st_blobs s' = st_blobs s" "st_configHistory s' = fmdrop name (st_configHistory s)"
    "st_proxyCredentials s' = fmdrop name (st_proxyCredentials s)"
    "st_members s' = fmmap (filter (\<lambda>m. gm_Repository m \<noteq> name)) (fmdrop name (st_members s))"
    "fmlookup (st_uploads s') i = (case fmlookup (st_uploads s) i of None \<Rightarrow> None
       | Some u \<Rightarrow> if \<not> belongsTo (up_Repository u) name then Some u else None)"
  by (simp_all add: s'_def without_repository_def)

lemma without_repository_reads:
  assumes "\<not> st_closed s"
  shows "GetRepository None n (without_repository name s) =
        (if n = name then Inl (NotFound ''repository'' n) else GetRepository None n s)"
    "ListConfigHistory None n (without_repository name s) = (if n = name then Inr [] else ListConfigHistory None n s)"
    "GetProxyCredential None n (without_repository name s) =
        (if n = name then Inl (NotFound ''proxy credential'' n) else GetProxyCredential None n s)"
    "ListGroupMembers None g (without_repository name s) =
        (if g = name then Inl (NotFound ''repository'' g)
         else map_sum id (filter (\<lambda>m. gm_Repository m \<noteq> name)) (ListGroupMembers None g s))"
    "GetUpload None i (without_repository name s) = Inr u \<longleftrightarrow>
        GetUpload None i s = Inr u \<and> \<not> belongsTo (up_Repository u) name"
    "GetBlob None d (without_repository name s) = GetBlob None d s"
    "ListEvents None opts (without_repository name s) = ListEvents None opts s"
  using assms without_repository_other [of name s]
  by (auto simp: GetRepository_def ListConfigHistory_def GetProxyCredential_def ListGroupMembers_def
      GetUpload_def GetBlob_def ListEvents_def with_open_def checkOpen_def split: option.splits)

lemma without_repository_content:
  assumes "\<not> st_closed s"
  shows "GetManifest None repo d (without_repository name s) =
        (if belongsTo repo name then Inl (NotFound ''manifest'' d) else GetManifest None repo d s)"
    "ListManifestRefs None repo d (without_repository name s) =
        (if belongsTo repo name then Inl (NotFound ''manifest'' d) else ListManifestRefs None repo d s)"
    "ListIndexParents None repo d (without_repository name s) =
        (if belongsTo repo name then Inr [] else ListIndexParents None repo d s)"
    "ListReferrers None repo d k (without_repository name s) =
        (if belongsTo repo name then Inr [] else ListReferrers None repo d k s)"
    "GetTag None repo n (without_repository name s) =
        (if belongsTo repo name then Inl (NotFound ''tag'' n) else GetTag None repo n s)"
  using assms
  by (simp_all add: GetManifest_def ListManifestRefs_def ListIndexParents_def ListReferrers_def GetTag_def
      with_open_def checkOpen_def without_repository_lookup without_repository_other)

lemma without_repository_cached:
  assumes "\<not> st_closed s"
  shows "GetCachedManifest None repo d (without_repository name s) =
        (if belongsTo repo name then Inl (NotFound ''cached manifest'' d) else GetCachedManifest None repo d s)"
    "ListCachedManifestRefs None repo d (without_repository name s) =
        (if belongsTo repo name then Inl (NotFound ''cached manifest'' d) else ListCachedManifestRefs None repo d s)"
    "GetCachedBlob None repo d (without_repository name s) =
        (if belongsTo repo name then Inl (NotFound ''cached blob'' d) else GetCachedBlob None repo d s)"
    "GetTagLease None repo n (without_repository name s) =
        (if belongsTo repo name then Inl (NotFound ''tag lease'' n) else GetTagLease None repo n s)"
    "GetNegativeEntry None repo x (without_repository name s) =
        (if belongsTo repo name then Inl (NotFound ''negative cache entry'' x) else GetNegativeEntry None repo x s)"
  using assms
  by (simp_all add: GetCachedManifest_def ListCachedManifestRefs_def GetCachedBlob_def GetTagLease_def
      GetNegativeEntry_def with_open_def checkOpen_def without_repository_lookup without_repository_other)

text \<open>C2: Deleting a repository of a reachable store removes exactly what is stored under it. The store
  afterwards is the one before without the repository, its lineage, its credential, its own member list
  and its entry in every other member list, and without everything filed under a name beneath it:
  manifests, their edges, tags, open uploads, cached rows, leases and recorded absences; all other state
  (blobs, events, pull statistics, collector runs, identities and credentials) is untouched. So every
  read of content beneath it answers not found or empty, and every read of other content, and of
  anything not named here, answers as before.\<close>

theorem DeleteRepository_exact:
  assumes "reachable s" "DeleteRepository None name s = Inr s'"
  shows
    "s' = without_repository name s \<and>
     (\<forall>n. GetRepository None n s' =
        (if n = name then Inl (NotFound ''repository'' n) else GetRepository None n s)) \<and>
     (\<forall>n. ListConfigHistory None n s' = (if n = name then Inr [] else ListConfigHistory None n s)) \<and>
     (\<forall>n. GetProxyCredential None n s' =
        (if n = name then Inl (NotFound ''proxy credential'' n) else GetProxyCredential None n s)) \<and>
     (\<forall>g. ListGroupMembers None g s' =
        (if g = name then Inl (NotFound ''repository'' g)
         else map_sum id (filter (\<lambda>m. gm_Repository m \<noteq> name)) (ListGroupMembers None g s))) \<and>
     (\<forall>repo d. GetManifest None repo d s' =
        (if belongsTo repo name then Inl (NotFound ''manifest'' d) else GetManifest None repo d s)) \<and>
     (\<forall>repo d. ListManifestRefs None repo d s' =
        (if belongsTo repo name then Inl (NotFound ''manifest'' d) else ListManifestRefs None repo d s)) \<and>
     (\<forall>repo d. ListIndexParents None repo d s' =
        (if belongsTo repo name then Inr [] else ListIndexParents None repo d s)) \<and>
     (\<forall>repo d k. ListReferrers None repo d k s' =
        (if belongsTo repo name then Inr [] else ListReferrers None repo d k s)) \<and>
     (\<forall>repo n. GetTag None repo n s' =
        (if belongsTo repo name then Inl (NotFound ''tag'' n) else GetTag None repo n s)) \<and>
     (\<forall>i u. GetUpload None i s' = Inr u \<longleftrightarrow>
        GetUpload None i s = Inr u \<and> \<not> belongsTo (up_Repository u) name) \<and>
     (\<forall>repo d. GetCachedManifest None repo d s' =
        (if belongsTo repo name then Inl (NotFound ''cached manifest'' d) else GetCachedManifest None repo d s)) \<and>
     (\<forall>repo d. ListCachedManifestRefs None repo d s' =
        (if belongsTo repo name then Inl (NotFound ''cached manifest'' d) else ListCachedManifestRefs None repo d s)) \<and>
     (\<forall>repo d. GetCachedBlob None repo d s' =
        (if belongsTo repo name then Inl (NotFound ''cached blob'' d) else GetCachedBlob None repo d s)) \<and>
     (\<forall>repo n. GetTagLease None repo n s' =
        (if belongsTo repo name then Inl (NotFound ''tag lease'' n) else GetTagLease None repo n s)) \<and>
     (\<forall>repo x. GetNegativeEntry None repo x s' =
        (if belongsTo repo name then Inl (NotFound ''negative cache entry'' x)
         else GetNegativeEntry None repo x s)) \<and>
     (\<forall>d. GetBlob None d s' = GetBlob None d s) \<and>
     (\<forall>opts. ListEvents None opts s' = ListEvents None opts s) \<and>
     identity_part s' = identity_part s \<and> credential_part s' = credential_part s"
proof -
  have s': "s' = without_repository name s"
    using DeleteRepository_Inr [OF assms(2)] remove_repository_eq [OF assms(1)] by simp
  have op: "\<not> st_closed s" using assms(2) by (simp add: DeleteRepository_def ok_simps)
  show ?thesis
    using without_repository_reads [OF op, where name = name] without_repository_content [OF op, where name = name]
      without_repository_cached [OF op, where name = name]
    unfolding s' by (simp add: without_repository_def part_defs)
qed

theorem DeleteRepository_exact_witness:
  "reachable sample_store \<and> DeleteRepository None ''team'' sample_store = Inr (remove_repository ''team'' sample_store) \<and>
   GetManifest None ''team/api'' ''d1'' (remove_repository ''team'' sample_store) =
     Inl (NotFound ''manifest'' ''d1'')"
proof -
  have d: "DeleteRepository None ''team'' sample_store = Inr (remove_repository ''team'' sample_store)"
    by (simp add: DeleteRepository_def with_open_def checkOpen_def sample_defs)
  have b: "belongsTo ''team/api'' ''team''" by code_simp
  show ?thesis using DeleteRepository_exact [OF sample_reachable d] d b sample_reachable by metis
qed

lemma lists_child_parents:
  "set (map fst (filter (\<lambda>(p, es). P p \<and> lists_child d es) (entries (inner m repo)))) =
     {p. P p \<and> (\<exists>es. lookup2 m repo p = Some es \<and> lists_child d es)}"
proof -
  have "set (filter (\<lambda>(p, es). P p \<and> lists_child d es) (entries (inner m repo))) =
      {(p, es). lookup2 m repo p = Some es \<and> P p \<and> lists_child d es}"
    unfolding lookup2_inner by auto
  moreover have "fst ` {(p, es). lookup2 m repo p = Some es \<and> P p \<and> lists_child d es} =
     {p. P p \<and> (\<exists>es. lookup2 m repo p = Some es \<and> lists_child d es)}"
    by (auto simp: image_iff)
  ultimately show ?thesis by (simp only: set_map)
qed

text \<open>The indexes that list a manifest, read off the edges of the stored manifests.\<close>

lemma ListIndexParents_exact:
  assumes "reachable s" "\<not> st_closed s"
  shows "\<exists>ps. ListIndexParents None repo d s = Inr ps \<and> sorted ps \<and> distinct ps \<and>
    (\<forall>p. p \<in> set ps \<longleftrightarrow> (\<exists>es. ListManifestRefs None repo p s = Inr es \<and> lists_child d es)) \<and>
    sort (map fst (filter (\<lambda>(p, es). p \<noteq> d \<and> lists_child d es) (entries (inner (st_refs s) repo)))) =
       filter (\<lambda>p. p \<noteq> d) ps"
proof -
  let ?all = "map fst (filter (\<lambda>(p, es). lists_child d es) (entries (inner (st_refs s) repo)))"
  have keys: "lookup2 (st_refs s) repo p = None \<longleftrightarrow> lookup2 (st_manifests s) repo p = None" for p
    using reachable_inv(3) [OF assms(1)] by (simp add: inv_content_def same_keys_def)
  have "set ?all = {p. \<exists>es. lookup2 (st_refs s) repo p = Some es \<and> lists_child d es}"
    using lists_child_parents [of "\<lambda>_. True"] by simp
  also have "\<dots> = {p. \<exists>es. ListManifestRefs None repo p s = Inr es \<and> lists_child d es}"
  proof -
    have "(\<exists>es. lookup2 (st_refs s) repo p = Some es \<and> lists_child d es) \<longleftrightarrow>
        (\<exists>es. ListManifestRefs None repo p s = Inr es \<and> lists_child d es)" for p
      using assms(2) keys [of p] by (cases "lookup2 (st_refs s) repo p") (auto simp: ListManifestRefs_def)
    then show ?thesis by simp
  qed
  finally have "set (sort ?all) = {p. \<exists>es. ListManifestRefs None repo p s = Inr es \<and> lists_child d es}"
    unfolding set_sort .
  then have "\<forall>p. p \<in> set (sort ?all) \<longleftrightarrow> (\<exists>es. ListManifestRefs None repo p s = Inr es \<and> lists_child d es)"
    unfolding set_eq_iff mem_Collect_eq .
  moreover have "sorted (sort ?all)" "distinct (sort ?all)"
    using distinct_entries [of "inner (st_refs s) repo"] by (simp_all add: distinct_map_filter)
  moreover have "sort (map fst (filter (\<lambda>(p, es). p \<noteq> d \<and> lists_child d es) (entries (inner (st_refs s) repo)))) =
      filter (\<lambda>p. p \<noteq> d) (sort ?all)"
    by (simp add: filter_sort filter_map comp_def case_prod_unfold conj_commute)
  moreover have "ListIndexParents None repo d s = Inr (sort ?all)" using assms(2) by (simp add: ListIndexParents_def)
  ultimately show ?thesis by (intro exI [of _ "sort ?all"] conjI)
qed

lemma if_three:
  "(\<not> P \<Longrightarrow> A) \<Longrightarrow> (P \<Longrightarrow> Q \<Longrightarrow> B) \<Longrightarrow> (P \<Longrightarrow> \<not> Q \<Longrightarrow> C) \<Longrightarrow> if \<not> P then A else if Q then B else C"
  by simp

lemma DeleteManifest_reads:
  assumes "\<not> st_closed s" "DeleteManifest None repo d s = Inr s'"
  shows "GetManifest None r e s' =
      (if r = repo \<and> e = d then Inl (NotFound ''manifest'' e) else GetManifest None r e s)"
    "ListManifestRefs None r e s' =
      (if r = repo \<and> e = d then Inl (NotFound ''manifest'' e) else ListManifestRefs None r e s)"
    "GetTag None r n s' = Inr t \<longleftrightarrow> GetTag None r n s = Inr t \<and> \<not> (r = repo \<and> tg_Digest t = d)"
    "s'\<lparr>st_manifests := st_manifests s, st_refs := st_refs s, st_tags := st_tags s\<rparr> = s"
proof -
  have s': "s' = s\<lparr>st_manifests := del2 repo d (st_manifests s), st_refs := del2 repo d (st_refs s),
            st_tags := (case fmlookup (st_tags s) repo of None \<Rightarrow> st_tags s
              | Some ts \<Rightarrow> fmupd repo (keep_entries (\<lambda>_ tag. tg_Digest tag \<noteq> d) ts) (st_tags s))\<rparr>"
    using assms by (auto simp: DeleteManifest_def Let_def split: if_splits)
  have "lookup2 (st_tags s') r n = (case lookup2 (st_tags s) r n of None \<Rightarrow> None
      | Some t \<Rightarrow> if r = repo \<and> tg_Digest t = d then None else Some t)"
    by (simp add: s' lookup2_def split: option.split)
  then show "GetTag None r n s' = Inr t \<longleftrightarrow> GetTag None r n s = Inr t \<and> \<not> (r = repo \<and> tg_Digest t = d)"
    using assms(1) by (auto simp: GetTag_def s' split: option.splits if_splits)
  show "GetManifest None r e s' =
      (if r = repo \<and> e = d then Inl (NotFound ''manifest'' e) else GetManifest None r e s)"
    "ListManifestRefs None r e s' =
      (if r = repo \<and> e = d then Inl (NotFound ''manifest'' e) else ListManifestRefs None r e s)"
    using assms(1) by (auto simp: GetManifest_def ListManifestRefs_def s')
  show "s'\<lparr>st_manifests := st_manifests s, st_refs := st_refs s, st_tags := st_tags s\<rparr> = s"
    by (simp add: s')
qed

text \<open>C3: Deleting a manifest of a reachable store has exactly three outcomes, decided by the manifests
  of its repository whose edges list it as a child. If it is not stored it is not found. If a manifest
  other than itself lists it the deletion is refused, and the refusal names exactly those manifests, in
  order and each once. Otherwise it is deleted: the manifest, its edges and the tags that named it can
  no longer be read, every other manifest, edge list and tag reads as before, and nothing else of the
  store changes.\<close>

theorem DeleteManifest_guarded:
  assumes "reachable s" "\<not> st_closed s"
  shows
    "\<exists>ps. ListIndexParents None repo d s = Inr ps \<and> sorted ps \<and> distinct ps \<and>
      (\<forall>p. p \<in> set ps \<longleftrightarrow> (\<exists>es. ListManifestRefs None repo p s = Inr es \<and> lists_child d es)) \<and>
      (if \<not> (\<exists>m. GetManifest None repo d s = Inr m)
       then DeleteManifest None repo d s = Inl (NotFound ''manifest'' d)
       else if set ps \<subseteq> {d}
       then (\<exists>s'. DeleteManifest None repo d s = Inr s' \<and>
          (\<forall>r e. GetManifest None r e s' =
             (if r = repo \<and> e = d then Inl (NotFound ''manifest'' e) else GetManifest None r e s)) \<and>
          (\<forall>r e. ListManifestRefs None r e s' =
             (if r = repo \<and> e = d then Inl (NotFound ''manifest'' e) else ListManifestRefs None r e s)) \<and>
          (\<forall>r n t. GetTag None r n s' = Inr t \<longleftrightarrow>
             GetTag None r n s = Inr t \<and> \<not> (r = repo \<and> tg_Digest t = d)) \<and>
          s'\<lparr>st_manifests := st_manifests s, st_refs := st_refs s, st_tags := st_tags s\<rparr> = s)
       else DeleteManifest None repo d s = Inl (Referenced ''manifest'' d (filter (\<lambda>p. p \<noteq> d) ps)))"
proof -
  obtain ps where ps: "ListIndexParents None repo d s = Inr ps" "sorted ps" "distinct ps"
      "\<forall>p. p \<in> set ps \<longleftrightarrow> (\<exists>es. ListManifestRefs None repo p s = Inr es \<and> lists_child d es)"
    and others: "sort (map fst (filter (\<lambda>(p, es). p \<noteq> d \<and> lists_child d es) (entries (inner (st_refs s) repo)))) =
       filter (\<lambda>p. p \<noteq> d) ps"
    using ListIndexParents_exact [OF assms, of repo d] by (elim exE conjE)
  have none: "map fst (filter (\<lambda>(p, es). p \<noteq> d \<and> lists_child d es) (entries (inner (st_refs s) repo))) = [] \<longleftrightarrow> set ps \<subseteq> {d}"
    (is "?others = [] \<longleftrightarrow> _")
  proof -
    have "length ?others = length (filter (\<lambda>p. p \<noteq> d) ps)"
      unfolding others [symmetric] length_sort ..
    then have "?others = [] \<longleftrightarrow> filter (\<lambda>p. p \<noteq> d) ps = []" by (simp only: length_0_conv [symmetric])
    also have "\<dots> \<longleftrightarrow> set ps \<subseteq> {d}" by (auto simp: filter_empty_conv)
    finally show ?thesis .
  qed
  have stored: "(\<exists>m. GetManifest None repo d s = Inr m) \<longleftrightarrow> lookup2 (st_manifests s) repo d \<noteq> None"
    using assms(2) by (auto simp: GetManifest_def split: option.splits)
  have missing: "DeleteManifest None repo d s = Inl (NotFound ''manifest'' d)" if "lookup2 (st_manifests s) repo d = None"
    using that assms(2) by (simp add: DeleteManifest_def)
  have refused: "DeleteManifest None repo d s = Inl (Referenced ''manifest'' d (filter (\<lambda>p. p \<noteq> d) ps))"
    if "lookup2 (st_manifests s) repo d \<noteq> None" "\<not> set ps \<subseteq> {d}"
    using that assms(2) none unfolding DeleteManifest_def Let_def others by simp
  have deleted: "\<exists>s'. DeleteManifest None repo d s = Inr s' \<and>
        (\<forall>r e. GetManifest None r e s' =
           (if r = repo \<and> e = d then Inl (NotFound ''manifest'' e) else GetManifest None r e s)) \<and>
        (\<forall>r e. ListManifestRefs None r e s' =
           (if r = repo \<and> e = d then Inl (NotFound ''manifest'' e) else ListManifestRefs None r e s)) \<and>
        (\<forall>r n t. GetTag None r n s' = Inr t \<longleftrightarrow>
           GetTag None r n s = Inr t \<and> \<not> (r = repo \<and> tg_Digest t = d)) \<and>
        s'\<lparr>st_manifests := st_manifests s, st_refs := st_refs s, st_tags := st_tags s\<rparr> = s"
    if "lookup2 (st_manifests s) repo d \<noteq> None" "set ps \<subseteq> {d}"
  proof -
    have "\<exists>s'. DeleteManifest None repo d s = Inr s'"
      using that assms(2) none unfolding DeleteManifest_def Let_def by simp
    then obtain s' where s': "DeleteManifest None repo d s = Inr s'" ..
    show ?thesis by (intro exI [of _ s'] conjI allI s' DeleteManifest_reads [OF assms(2) s'])
  qed
  show ?thesis unfolding stored
    by (intro exI [of _ ps] conjI ps if_three missing deleted refused) blast+
qed

theorem DeleteManifest_guarded_witness:
  "reachable sample_store \<and> \<not> st_closed sample_store \<and>
   (\<exists>ps. ListIndexParents None ''team/api'' ''d1'' sample_store = Inr ps \<and> set ps = {''d2''} \<and>
      DeleteManifest None ''team/api'' ''d1'' sample_store =
        Inl (Referenced ''manifest'' ''d1'' (filter (\<lambda>p. p \<noteq> ''d1'') ps)))"
proof -
  have op: "\<not> st_closed sample_store" by (simp add: sample_defs)
  have ps: "ListIndexParents None ''team/api'' ''d1'' sample_store = Inr [''d2'']"
    "\<exists>m. GetManifest None ''team/api'' ''d1'' sample_store = Inr m"
    by (simp_all add: ListIndexParents_def GetManifest_def with_open_def checkOpen_def lookup2_def inner_def lists_child_def
        sorted_list_of_fmap_def sorted_list_of_fset.rep_eq sample_defs Let_def)
  show ?thesis using DeleteManifest_guarded [OF sample_reachable op, of "''team/api''" "''d1''"] ps op sample_reachable
    by auto
qed

text \<open>C9: A configuration update takes effect only against the version it was based on. It raises the
  version by one, files what it replaced at the end of the lineage, leaves the lineage numbered
  1, 2, ... up to the version replaced, and any other update based on the same version is then
  refused as stale: no update is lost and no revision is skipped.\<close>

theorem config_lineage:
  assumes "reachable s" "UpdateRepositoryConfig None name cfg v actor at s = Inr (r, s')"
  shows "\<exists>old h. GetRepository None name s = Inr old \<and> rp_ConfigVersion old = v \<and>
    r = old\<lparr>rp_Config := cfg, rp_ConfigVersion := v + 1, rp_UpdatedAt := at\<rparr> \<and>
    GetRepository None name s' = Inr r \<and> ListConfigHistory None name s = Inr h \<and>
    ListConfigHistory None name s' = Inr (h @ [\<lparr>cr_Repository = name, cr_Version = v,
       cr_Config = rp_Config old, cr_Actor = actor, cr_At = at\<rparr>]) \<and>
    map cr_Version h = [1..v - 1] \<and>
    (\<forall>cfg' actor' at'. UpdateRepositoryConfig None name cfg' v actor' at' s' = Inl Stale)"
proof -
  obtain old where old: "fmlookup (st_repos s) name = Some old" "rp_ConfigVersion old = v"
    and op: "\<not> st_closed s"
    and r: "r = old\<lparr>rp_Config := cfg, rp_ConfigVersion := v + 1, rp_UpdatedAt := at\<rparr>"
    and s': "s' = s\<lparr>st_configHistory := fmupd name (history s name @ [\<lparr>cr_Repository = name, cr_Version = v,
         cr_Config = rp_Config old, cr_Actor = actor, cr_At = at\<rparr>]) (st_configHistory s),
       st_repos := fmupd name r (st_repos s)\<rparr>"
    using assms(2)
    by (auto simp: UpdateRepositoryConfig_def ok_simps history_def Let_def split: if_splits)
  have "map cr_Version (history s name) = [1..v - 1]"
    using inv_repos_row [OF reachable_inv(1) [OF assms(1)] old(1)] old(2) by simp
  moreover have "ListConfigHistory None name s = Inr (history s name)"
    using op by (simp add: ListConfigHistory_def history_def)
  moreover have "UpdateRepositoryConfig None name cfg' v actor' at' s' = Inl Stale" for cfg' actor' at'
    using op by (simp add: UpdateRepositoryConfig_def s' r)
  ultimately show ?thesis
    using old op r by (auto simp: GetRepository_def ListConfigHistory_def s')
qed

theorem config_lineage_witness:
  "reachable sample_store \<and>
   (\<exists>r s'. UpdateRepositoryConfig None ''team'' None 1 ''alice'' 9 sample_store = Inr (r, s') \<and>
      UpdateRepositoryConfig None ''team'' (Some ''x'') 1 ''bob'' 10 s' = Inl Stale)"
proof -
  obtain r s' where u: "UpdateRepositoryConfig None ''team'' None 1 ''alice'' 9 sample_store = Inr (r, s')"
    by (simp add: UpdateRepositoryConfig_def with_open_def checkOpen_def sample_defs Let_def)
  show ?thesis using config_lineage [OF sample_reachable u] u sample_reachable by blast
qed

end
