(* ===== verification/Meta_Listing.thy ===== *)
theory Meta_Listing
  imports Meta_Correct
begin

text \<open>
  The paged listings of the metadata store as instances of one keyset listing: what a page may name,
  how large it is, and that following the cursors from the start lists every visible key exactly once.
\<close>

section \<open>Pages over the keys of a map\<close>

lemma sort_filter_keys: "sort (filter P (keys_of m)) = filter P (keys_of m)"
  by (simp add: sorted_sort_id sorted_wrt_filter)

text \<open>The page every listing computes: the keys past the cursor that the request may see.\<close>

definition key_page :: "nat \<Rightarrow> (string \<Rightarrow> bool) \<Rightarrow> string list \<Rightarrow> string \<Rightarrow> string list \<times> string" where
  "key_page limit allowed ks cursor = page_names limit (sort (filter (\<lambda>n. allowed n \<and> cursor < n) ks))"

interpretation key_listing:
  keyset_listing "key_page (EffectiveLimit opts) allowed (keys_of m)"
    "filter (\<lambda>n. allowed n \<and> n \<noteq> []) (keys_of m)" "EffectiveLimit opts"
  for opts allowed and m :: "(string, 'v) fmap"
proof unfold_locales
  show "key_page (EffectiveLimit opts) allowed (keys_of m) cursor =
      page_names (EffectiveLimit opts) (filter (\<lambda>n. cursor < n) (filter (\<lambda>n. allowed n \<and> n \<noteq> []) (keys_of m)))"
    for cursor
  proof -
    have "filter (\<lambda>n. allowed n \<and> cursor < n) (keys_of m) =
        filter (\<lambda>n. cursor < n \<and> allowed n \<and> n \<noteq> []) (keys_of m)"
      by (rule filter_cong) auto
    then show ?thesis by (simp add: key_page_def sort_filter_keys conj_ac)
  qed
qed (simp_all add: EffectiveLimit_bounds sorted_wrt_filter)

lemma key_walk:
  assumes "length (keys_of m) < fuel"
  shows "walk (key_page (EffectiveLimit opts) allowed (keys_of m)) fuel [] =
    Some (filter (\<lambda>n. allowed n \<and> n \<noteq> []) (keys_of m))"
proof -
  let ?vs = "filter (\<lambda>n. allowed n \<and> n \<noteq> []) (keys_of m)"
  have id: "filter (\<lambda>n. [] < n) ?vs = ?vs"
    by (rule filter_True) (auto simp: neq_Nil_conv)
  have "walk (key_page (EffectiveLimit opts) allowed (keys_of m)) fuel [] = Some (filter (\<lambda>n. [] < n) ?vs)"
    by (rule key_listing.walk_complete)
      (simp only: id le_less_trans [OF length_filter_le assms], simp)
  then show ?thesis unfolding id .
qed

section \<open>The listings\<close>

text \<open>What a client reads off a page: the keys of the rows and the next cursor.\<close>

definition view :: "('a \<Rightarrow> string) \<Rightarrow> merror + 'a list \<times> string \<Rightarrow> string list \<times> string" where
  "view key r = (case r of Inl e \<Rightarrow> ([], []) | Inr (rows, next) \<Rightarrow> (map key rows, next))"

lemma limit_cursor [simp]: "EffectiveLimit (opts\<lparr>lo_Cursor := c\<rparr>) = EffectiveLimit opts"
  by (simp add: EffectiveLimit_def)

lemma map_rows:
  assumes "\<forall>n \<in> set shown. key (row n) = n"
  shows "map (\<lambda>n. key (row n)) shown = shown"
  using assms by (induction shown) simp_all

lemma page_names_subset: "0 < limit \<Longrightarrow> set (fst (page_names limit ns)) \<subseteq> set ns"
  by (auto simp: page_names_eq dest: in_set_takeD)

lemma ListRepositories_page:
  assumes "inv_repos s" "\<not> st_closed s"
  shows "view rp_Name (ListRepositories None (opts\<lparr>lo_Cursor := c\<rparr>) s) =
    key_page (EffectiveLimit opts) (Visibility_Allows (lo_Visibility opts)) (keys_of (st_repos s)) c"
proof -
  let ?ns = "sort (filter (\<lambda>n. Visibility_Allows (lo_Visibility opts) n \<and> c < n) (keys_of (st_repos s)))"
  have "rp_Name (the (fmlookup (st_repos s) n)) = n" if "n \<in> set (fst (page_names (EffectiveLimit opts) ?ns))" for n
    using that page_names_subset [OF EffectiveLimit_bounds(1) [of opts], of ?ns] inv_repos_row [OF assms(1)]
    by fastforce
  then show ?thesis
    using assms(2) by (auto simp: ListRepositories_def view_def key_page_def split: prod.split intro: map_rows)
qed

lemma ListSubjects_page:
  assumes "inv_identity s" "\<not> st_closed s"
  shows "view sj_Name (ListSubjects None (opts\<lparr>lo_Cursor := c\<rparr>) s) =
    key_page (EffectiveLimit opts) (\<lambda>_. True) (keys_of (st_subjects s)) c"
proof -
  let ?ns = "sort (filter (\<lambda>n. c < n) (keys_of (st_subjects s)))"
  have "sj_Name x = n" if "fmlookup (st_subjects s) n = Some x" for n x
    using assms(1) that unfolding inv_identity_def by (blast dest: fmpredD)
  then have "sj_Name (the (fmlookup (st_subjects s) n)) = n"
    if "n \<in> set (fst (page_names (EffectiveLimit opts) ?ns))" for n
    using that page_names_subset [OF EffectiveLimit_bounds(1) [of opts], of ?ns] by fastforce
  then show ?thesis
    using assms(2) by (auto simp: ListSubjects_def view_def key_page_def split: prod.split intro: map_rows)
qed

lemma ListTags_page:
  assumes "inv_content s" "\<not> st_closed s" "knownContentName s repo"
    "Visibility_Allows (lo_Visibility opts) repo"
  shows "view tg_Name (ListTags None repo (opts\<lparr>lo_Cursor := c\<rparr>) s) =
    key_page (EffectiveLimit opts) (\<lambda>_. True) (keys_of (inner (st_tags s) repo)) c"
proof -
  let ?ns = "sort (filter (\<lambda>n. c < n) (keys_of (inner (st_tags s) repo)))"
  have "tg_Name x = n" if "lookup2 (st_tags s) repo n = Some x" for n x
    using assms(1) that by (auto simp: inv_content_def rows_ok_def)
  then have "tg_Name (the (lookup2 (st_tags s) repo n)) = n"
    if "n \<in> set (fst (page_names (EffectiveLimit opts) ?ns))" for n
    using that page_names_subset [OF EffectiveLimit_bounds(1) [of opts], of ?ns]
    by (fastforce simp flip: lookup2_inner)
  then show ?thesis
    using assms(2-4) by (auto simp: ListTags_def view_def key_page_def split: prod.split intro: map_rows)
qed

lemma ListEvents_page:
  assumes "inv_credentials s" "\<not> st_closed s"
  shows "view ev_ID (ListEvents None (opts\<lparr>lo_Cursor := c\<rparr>) s) =
    key_page (EffectiveLimit opts) (\<lambda>n. visibleEvent (lo_Visibility opts) (the (fmlookup (st_events s) n)))
      (keys_of (st_events s)) c"
proof -
  let ?seen = "\<lambda>(n, e). \<not> (\<not> visibleEvent (lo_Visibility opts) e \<or> n \<le> c)"
  let ?ns = "sort (map fst (filter ?seen (entries (st_events s))))"
  have "map fst (filter ?seen (entries (st_events s))) = filter (\<lambda>n. visibleEvent (lo_Visibility opts)
      (the (fmlookup (st_events s) n)) \<and> c < n) (keys_of (st_events s))"
    unfolding keys_of_def filter_map
    by (rule arg_cong [where f = "map fst"], rule filter_cong) auto
  then have page: "page_names (EffectiveLimit opts) ?ns = key_page (EffectiveLimit opts)
      (\<lambda>n. visibleEvent (lo_Visibility opts) (the (fmlookup (st_events s) n))) (keys_of (st_events s)) c"
    by (simp only: key_page_def)
  have "ev_ID x = n" if "fmlookup (st_events s) n = Some x" for n x
    using assms(1) that unfolding inv_credentials_def by (blast dest: fmpredD)
  then have "ev_ID (the (fmlookup (st_events s) n)) = n"
    if "n \<in> set (fst (page_names (EffectiveLimit opts) ?ns))" for n
    using that page_names_subset [OF EffectiveLimit_bounds(1) [of opts], of ?ns] by fastforce
  then show ?thesis
    using assms(2) by (auto simp: ListEvents_def view_def page [symmetric] split: prod.split intro: map_rows)
qed

text \<open>\<^verbatim>\<open>ListContentNames\<close> ranges over two maps; its keys are those of both that hold a row.\<close>

definition held_names :: "(string, ('k::linorder, 'v) fmap) fmap \<Rightarrow> string list" where
  "held_names m = map fst (filter (\<lambda>(_, ms). entries ms \<noteq> []) (entries m))"

definition content_index :: "Store \<Rightarrow> (string, unit) fmap" where
  "content_index s =
    fmap_of_list (map (\<lambda>n. (n, ())) (held_names (st_manifests s) @ held_names (st_cachedManifests s)))"

lemma set_content_index:
  "set (keys_of (content_index s)) = set (held_names (st_manifests s)) \<union> set (held_names (st_cachedManifests s))"
proof -
  have "set (keys_of (content_index s)) =
      dom (map_of (map (\<lambda>n. (n, ())) (held_names (st_manifests s) @ held_names (st_cachedManifests s))))"
    unfolding set_keys_of content_index_def fmlookup_of_list dom_def by blast
  then show ?thesis by (simp add: dom_map_of_conv_image_fst image_image del: set_keys_of)
qed

lemma fold_collect:
  "distinct acc \<Longrightarrow> distinct (fold (\<lambda>(n, ms). collect opts n (entries ms \<noteq> [])) xs acc) \<and>
     set (fold (\<lambda>(n, ms). collect opts n (entries ms \<noteq> [])) xs acc) = set acc \<union>
       {n \<in> set (map fst (filter (\<lambda>(_, ms). entries ms \<noteq> []) xs)).
          Visibility_Allows (lo_Visibility opts) n \<and> lo_Cursor opts < n}"
proof (induction xs arbitrary: acc)
  case (Cons x xs)
  obtain n ms where x: "x = (n, ms)" by (cases x)
  have d: "distinct (collect opts n (entries ms \<noteq> []) acc)" using Cons.prems by (simp add: collect_def)
  have "set (collect opts n (entries ms \<noteq> []) acc) = set acc \<union>
      {k. k = n \<and> entries ms \<noteq> [] \<and> Visibility_Allows (lo_Visibility opts) n \<and> lo_Cursor opts < n}"
    by (auto simp: collect_def)
  then show ?case using Cons.IH [OF d] by (auto simp: x)
qed simp

lemma ListContentNames_page:
  assumes "\<not> st_closed s"
  shows "view (\<lambda>n. n) (ListContentNames None (opts\<lparr>lo_Cursor := c\<rparr>) s) =
    key_page (EffectiveLimit opts) (Visibility_Allows (lo_Visibility opts)) (keys_of (content_index s)) c"
proof -
  let ?o = "opts\<lparr>lo_Cursor := c\<rparr>"
  define names1 where "names1 = fold (\<lambda>(n, ms). collect ?o n (entries ms \<noteq> [])) (entries (st_manifests s)) []"
  define names2 where
    "names2 = fold (\<lambda>(n, ms). collect ?o n (entries ms \<noteq> [])) (entries (st_cachedManifests s)) names1"
  have 1: "distinct names1" "set names1 = {n \<in> set (held_names (st_manifests s)).
      Visibility_Allows (lo_Visibility opts) n \<and> c < n}"
    using fold_collect [of "[]" ?o "entries (st_manifests s)"] by (simp_all add: names1_def held_names_def)
  have 2: "distinct names2" "set names2 = set names1 \<union> {n \<in> set (held_names (st_cachedManifests s)).
      Visibility_Allows (lo_Visibility opts) n \<and> c < n}"
    using fold_collect [OF 1(1), of ?o "entries (st_cachedManifests s)"]
    by (simp_all add: names2_def held_names_def)
  have "sort names2 = sort (filter (\<lambda>n. Visibility_Allows (lo_Visibility opts) n \<and> c < n)
      (keys_of (content_index s)))"
  proof (rule sorted_distinct_set_unique)
    show "set (sort names2) = set (sort (filter (\<lambda>n. Visibility_Allows (lo_Visibility opts) n \<and> c < n)
        (keys_of (content_index s))))"
      unfolding set_sort set_filter set_content_index 2(2) 1(2) by blast
  qed (simp_all add: 2(1))
  then show ?thesis
    using assms
    by (simp add: ListContentNames_def view_def key_page_def names1_def names2_def Let_def split: prod.split)
qed

lemma rows_ok_outer: "rows_ok P Q m \<Longrightarrow> fmlookup m c \<noteq> None \<Longrightarrow> P c"
  unfolding rows_ok_def by metis

lemma content_index_nonempty:
  assumes "inv_repos s" "inv_content s" "inv_cached s" "n \<in> set (keys_of (content_index s))"
  shows "n \<noteq> []"
proof -
  have "fmlookup (st_manifests s) n \<noteq> None \<or> fmlookup (st_cachedManifests s) n \<noteq> None"
    using assms(4) unfolding set_content_index by (auto simp: held_names_def)
  then have "repoExists s (entityOf n)"
  proof
    assume "fmlookup (st_manifests s) n \<noteq> None"
    with assms(2) show ?thesis
      unfolding inv_content_def by (elim conjE) (drule (1) rows_ok_outer, assumption)
  next
    assume "fmlookup (st_cachedManifests s) n \<noteq> None"
    with assms(3) have "proxy_content s n"
      unfolding inv_cached_def by (elim conjE) (drule (1) rows_ok_outer, assumption)
    then show ?thesis by (auto simp: proxy_content_def has_type_def repoExists_def)
  qed
  moreover have "\<not> repoExists s []" 
    using inv_repos_row [OF assms(1), of "[]"] by (cases "fmlookup (st_repos s) []") (auto simp: repoExists_def)
  moreover have "entityOf [] = []" by code_simp
  ultimately show ?thesis by auto
qed

section \<open>Walking a listing\<close>

lemma key_walk_nonempty:
  assumes "length (keys_of m) < fuel" "\<And>n. n \<in> set (keys_of m) \<Longrightarrow> n \<noteq> []"
  shows "walk (key_page (EffectiveLimit opts) allowed (keys_of m)) fuel [] = Some (filter allowed (keys_of m))"
proof -
  have "filter (\<lambda>n. allowed n \<and> n \<noteq> []) (keys_of m) = filter allowed (keys_of m)"
    by (rule filter_cong [OF refl]) (use assms(2) in blast)
  then show ?thesis unfolding key_walk [OF assms(1)] by simp
qed

text \<open>C7: A client that starts with the empty cursor and follows the one each page returns reaches the
  end of the listing, in no more calls than there are keys and one, and has then seen every visible
  repository, content name, event, and tag of a visible repository exactly once, in order.\<close>

theorem listings_walk_to_the_end:
  assumes "reachable s" "\<not> st_closed s"
  shows
    "walk (\<lambda>c. view rp_Name (ListRepositories None (opts\<lparr>lo_Cursor := c\<rparr>) s))
        (Suc (length (keys_of (st_repos s)))) [] =
       Some (filter (Visibility_Allows (lo_Visibility opts)) (keys_of (st_repos s))) \<and>
     walk (\<lambda>c. view (\<lambda>n. n) (ListContentNames None (opts\<lparr>lo_Cursor := c\<rparr>) s))
        (Suc (length (keys_of (content_index s)))) [] =
       Some (filter (Visibility_Allows (lo_Visibility opts)) (keys_of (content_index s))) \<and>
     walk (\<lambda>c. view ev_ID (ListEvents None (opts\<lparr>lo_Cursor := c\<rparr>) s))
        (Suc (length (keys_of (st_events s)))) [] =
       Some (filter (\<lambda>n. visibleEvent (lo_Visibility opts) (the (fmlookup (st_events s) n)))
         (keys_of (st_events s))) \<and>
     (knownContentName s repo \<and> Visibility_Allows (lo_Visibility opts) repo \<longrightarrow>
      walk (\<lambda>c. view tg_Name (ListTags None repo (opts\<lparr>lo_Cursor := c\<rparr>) s))
        (Suc (length (keys_of (inner (st_tags s) repo)))) [] = Some (keys_of (inner (st_tags s) repo)))"
proof -
  note inv = reachable_inv [OF assms(1)]
  have repos: "n \<noteq> []" if "n \<in> set (keys_of (st_repos s))" for n
    using that inv_repos_row [OF inv(1)] by auto
  have events: "n \<noteq> []" if n: "n \<in> set (keys_of (st_events s))" for n
  proof -
    obtain e where "fmlookup (st_events s) n = Some e" using n by auto
    then have "ev_ID e = n \<and> validEvent e = None"
      using inv(7) unfolding inv_credentials_def by (blast dest: fmpredD)
    then show ?thesis by (auto simp: validEvent_def)
  qed
  have tags: "n \<noteq> []" if n: "n \<in> set (keys_of (inner (st_tags s) repo))" for n
  proof -
    obtain t where "lookup2 (st_tags s) repo n = Some t" using n by (auto simp flip: lookup2_inner)
    with inv(3) show ?thesis unfolding inv_content_def by (elim conjE) (drule (1) rows_okD(1), simp)
  qed
  note pages = ListRepositories_page [OF inv(1) assms(2)] ListContentNames_page [OF assms(2)]
    ListEvents_page [OF inv(7) assms(2)]
  show ?thesis
  proof (intro conjI impI; (elim conjE)?; (unfold pages)?)
    assume "knownContentName s repo" "Visibility_Allows (lo_Visibility opts) repo"
    then show "walk (\<lambda>c. view tg_Name (ListTags None repo (opts\<lparr>lo_Cursor := c\<rparr>) s))
        (Suc (length (keys_of (inner (st_tags s) repo)))) [] = Some (keys_of (inner (st_tags s) repo))"
      unfolding ListTags_page [OF inv(3) assms(2) \<open>knownContentName s repo\<close>
          \<open>Visibility_Allows (lo_Visibility opts) repo\<close>]
      by (subst key_walk_nonempty [OF lessI]) (use tags in simp_all)
  qed (rule key_walk_nonempty [OF lessI], erule repos content_index_nonempty [OF inv(1,3,5)] events)+
qed

theorem listings_walk_to_the_end_witness:
  "reachable sample_store \<and> \<not> st_closed sample_store \<and>
   walk (\<lambda>c. view tg_Name (ListTags None ''team/api'' (\<lparr>lo_Visibility = Unrestricted, lo_Limit = 1, lo_Cursor = c\<rparr>)
       sample_store)) 2 [] = Some [''v1'']"
proof -
  let ?o = "\<lparr>lo_Visibility = Unrestricted, lo_Limit = 1, lo_Cursor = []\<rparr>"
  have op: "\<not> st_closed sample_store" by (simp add: sample_defs)
  have known: "knownContentName sample_store ''team/api''" "Visibility_Allows (lo_Visibility ?o) ''team/api''"
    "keys_of (inner (st_tags sample_store) ''team/api'') = [''v1'']"
    by (simp_all add: knownContentName_def repoExists_def inner_def sample_defs keys_of_def
        Visibility_Allows_def Unrestricted_def sorted_list_of_fmap_def sorted_list_of_fset.rep_eq)
  show ?thesis
    using listings_walk_to_the_end [OF sample_reachable op, where opts = ?o and repo = "''team/api''"]
      known op sample_reachable
    by (simp add: numeral_2_eq_2 del: walk.simps)
qed

text \<open>What a page of any of these listings may name: the keys of its rows, and its cursor, which is empty
  or the key of its last row.\<close>

definition page_within :: "ListOptions \<Rightarrow> (string \<Rightarrow> bool) \<Rightarrow> string list \<Rightarrow> string \<Rightarrow> bool" where
  "page_within opts seen keys next \<longleftrightarrow>
    length keys \<le> EffectiveLimit opts \<and> EffectiveLimit opts \<le> 1000 \<and>
    (next = [] \<or> keys \<noteq> [] \<and> next = last keys) \<and>
    (\<forall>n \<in> set keys \<union> ({next} - {[]}). seen n \<and> lo_Cursor opts < n)"

lemma last_of_page:
  assumes "0 < limit" "\<not> length ns \<le> limit"
  shows "take limit ns \<noteq> [] \<and> ns ! (limit - 1) = last (take limit ns)"
proof
  show ne: "take limit ns \<noteq> []" using assms by auto
  show "ns ! (limit - 1) = last (take limit ns)" using assms unfolding last_conv_nth [OF ne] by (simp add: min_def)
qed

lemma key_page_within:
  assumes "r = Inr (rows, next)"
    and "view key r = key_page (EffectiveLimit opts) v ks (lo_Cursor opts)"
    and "\<And>n. n \<in> set ks \<Longrightarrow> v n \<Longrightarrow> seen n"
  shows "page_within opts seen (map key rows) next"
proof -
  define ns where "ns = sort (filter (\<lambda>n. v n \<and> lo_Cursor opts < n) ks)"
  let ?l = "EffectiveLimit opts"
  note pos = EffectiveLimit_bounds [of opts]
  have page: "map key rows = take ?l ns" "next = (if length ns \<le> ?l then [] else ns ! (?l - 1))"
    using assms(1,2) pos(1) by (simp_all add: view_def key_page_def page_names_eq ns_def)
  have keys: "seen n \<and> lo_Cursor opts < n" if "n \<in> set (take ?l ns)" for n
    using in_set_takeD [OF that] assms(3) by (auto simp: ns_def)
  have cursor: "next = [] \<or> take ?l ns \<noteq> [] \<and> next = last (take ?l ns)"
    using page(2) last_of_page [OF pos(1), of ns] by auto
  have "seen next \<and> lo_Cursor opts < next" if "next \<noteq> []"
  proof -
    have "next \<in> set (take ?l ns)" using cursor that by (metis last_in_set)
    then show ?thesis by (rule keys)
  qed
  moreover have "length (take ?l ns) \<le> ?l" by simp
  ultimately show ?thesis unfolding page_within_def page(1) using keys cursor pos(2) by blast
qed

lemma ListEvents_rows:
  assumes "inv_credentials s" "ListEvents None opts s = Inr (rows, next)" "e \<in> set rows"
  shows "fmlookup (st_events s) (ev_ID e) = Some e"
proof -
  define ids where "ids = sort (map fst (filter (\<lambda>(eid, event). \<not> (\<not> visibleEvent (lo_Visibility opts) event \<or>
     eid \<le> lo_Cursor opts)) (entries (st_events s))))"
  have "rows = map (\<lambda>n. the (fmlookup (st_events s) n)) (fst (page_names (EffectiveLimit opts) ids))"
    using assms(2) by (auto simp: ids_def ListEvents_def ok_simps split: prod.splits)
  then obtain n where "n \<in> set ids" "e = the (fmlookup (st_events s) n)"
    using assms(3) page_names_subset [OF EffectiveLimit_bounds(1) [of opts], of ids] by auto
  then obtain e' where n: "fmlookup (st_events s) n = Some e'" "e = e'" by (auto simp: ids_def)
  moreover have "ev_ID e' = n"
    using assms(1) n(1) unfolding inv_credentials_def by (blast dest: fmpredD)
  ultimately show ?thesis by simp
qed

text \<open>C8: A page is bounded and discloses nothing. A page of repositories, of content names, of the tags
  of a content name or of events holds at most the effective limit of rows, itself at most 1000; its
  cursor is empty or the key of its last row; and every key it names, in a row or as its cursor, comes
  after the cursor given and is one the visibility asked for allows: a visible repository or content
  name, a tag of a visible name, the identifier of a visible event, whose row is that event.\<close>

theorem pages_disclose_nothing:
  assumes "reachable s"
  shows
    "(\<forall>rows next. ListRepositories None opts s = Inr (rows, next) \<longrightarrow>
        page_within opts (Visibility_Allows (lo_Visibility opts)) (map rp_Name rows) next) \<and>
     (\<forall>names next. ListContentNames None opts s = Inr (names, next) \<longrightarrow>
        page_within opts (Visibility_Allows (lo_Visibility opts)) names next) \<and>
     (\<forall>repo rows next. ListTags None repo opts s = Inr (rows, next) \<longrightarrow>
        Visibility_Allows (lo_Visibility opts) repo \<and>
        page_within opts (\<lambda>n. \<exists>t. GetTag None repo n s = Inr t) (map tg_Name rows) next) \<and>
     (\<forall>rows next. ListEvents None opts s = Inr (rows, next) \<longrightarrow>
        page_within opts (\<lambda>n. \<exists>e. fmlookup (st_events s) n = Some e \<and> visibleEvent (lo_Visibility opts) e)
          (map ev_ID rows) next \<and>
        (\<forall>e \<in> set rows. fmlookup (st_events s) (ev_ID e) = Some e))"
proof (intro conjI allI impI ballI)
  note inv = reachable_inv [OF assms]
  have o: "opts\<lparr>lo_Cursor := lo_Cursor opts\<rparr> = opts" by simp
  show "page_within opts (Visibility_Allows (lo_Visibility opts)) (map rp_Name rows) next"
    if r: "ListRepositories None opts s = Inr (rows, next)" for rows "next"
  proof -
    have "\<not> st_closed s" using r by (simp add: ListRepositories_def ok_simps)
    from ListRepositories_page [OF inv(1) this, where opts = opts and c = "lo_Cursor opts", unfolded o]
    show ?thesis by (rule key_page_within [OF r])
  qed
  show "page_within opts (Visibility_Allows (lo_Visibility opts)) names next"
    if r: "ListContentNames None opts s = Inr (names, next)" for names "next"
  proof -
    have "\<not> st_closed s" using r by (simp add: ListContentNames_def ok_simps)
    from ListContentNames_page [OF this, where opts = opts and c = "lo_Cursor opts", unfolded o]
    have "page_within opts (Visibility_Allows (lo_Visibility opts)) (map id names) next"
      unfolding id_def by (rule key_page_within [OF r])
    then show ?thesis by simp
  qed
  fix repo
  show vis: "Visibility_Allows (lo_Visibility opts) repo" if r: "ListTags None repo opts s = Inr (rows, next)" for rows "next"
    using r by (simp add: ListTags_def ok_simps split: if_splits)
  show "page_within opts (\<lambda>n. \<exists>t. GetTag None repo n s = Inr t) (map tg_Name rows) next"
    if r: "ListTags None repo opts s = Inr (rows, next)" for rows "next"
  proof -
    have op: "\<not> st_closed s" "knownContentName s repo" using r by (simp_all add: ListTags_def ok_simps split: if_splits)
    from ListTags_page [OF inv(3) op vis [OF r], where c = "lo_Cursor opts", unfolded o]
    show ?thesis
      by (rule key_page_within [OF r]) (use op in \<open>auto simp: GetTag_def lookup2_inner\<close>)
  qed
  show "page_within opts (\<lambda>n. \<exists>e. fmlookup (st_events s) n = Some e \<and> visibleEvent (lo_Visibility opts) e) (map ev_ID rows) next"
    if r: "ListEvents None opts s = Inr (rows, next)" for rows "next"
  proof -
    have "\<not> st_closed s" using r by (simp add: ListEvents_def ok_simps)
    from ListEvents_page [OF inv(7) this, where opts = opts and c = "lo_Cursor opts", unfolded o]
    show ?thesis by (rule key_page_within [OF r]) auto
  qed
  show "fmlookup (st_events s) (ev_ID e) = Some e" if "ListEvents None opts s = Inr (rows, next)" "e \<in> set rows" for rows "next" e
    by (rule ListEvents_rows [OF inv(7) that])
qed

theorem pages_disclose_nothing_witness:
  "reachable sample_store \<and>
   ListRepositories None \<lparr>lo_Visibility = Unrestricted, lo_Limit = 5, lo_Cursor = []\<rparr> sample_store =
     Inr ([sample_repo], []) \<and>
   Visibility_Allows Unrestricted (rp_Name sample_repo) \<and>
   EffectiveLimit \<lparr>lo_Visibility = Unrestricted, lo_Limit = 5, lo_Cursor = []\<rparr> \<le> 1000"
proof -
  let ?o = "\<lparr>lo_Visibility = Unrestricted, lo_Limit = 5, lo_Cursor = []\<rparr>"
  have r: "ListRepositories None ?o sample_store = Inr ([sample_repo], [])"
    by (simp add: ListRepositories_def with_open_def checkOpen_def sample_defs keys_of_def page_names_def
        Visibility_Allows_def Unrestricted_def sorted_list_of_fmap_def sorted_list_of_fset.rep_eq
        EffectiveLimit_def numeral_eq_Suc)
  show ?thesis using pages_disclose_nothing [OF sample_reachable, of ?o] r sample_reachable by (auto simp: page_within_def)
qed

end
