(* ===== verification/Meta_Access.thy ===== *)
theory Meta_Access
  imports Meta_Correct
begin

text \<open>
  The access half of the metadata store: events are appended atomically, a session never outlives the
  bound it was created with, a subject's effective bindings are exactly the ones that name it or a
  group it is in, and cached rows are offered for eviction in one total order.
\<close>

section \<open>Events\<close>

lemma append_all_None:
  "\<not> tx_done t \<Longrightarrow> (\<exists>t'. append_all es t = (t', None)) \<longleftrightarrow>
     (\<forall>e \<in> set es. validEvent e = None) \<and> distinct (map ev_ID es) \<and>
     ev_ID ` set es \<inter> ev_ID ` set (tx_pending t) = {}"
proof (induction es arbitrary: t)
  case (Cons e es)
  show ?case
  proof (cases "AppendEvent e t")
    case (Inl err)
    then show ?thesis using Cons.prems
      by (auto simp: AppendEvent_def list_ex_iff split: option.splits if_splits) (metis imageI)
  next
    case (Inr t1)
    then have t1: "t1 = t\<lparr>tx_pending := tx_pending t @ [e]\<rparr>" "validEvent e = None"
      "\<forall>q \<in> set (tx_pending t). ev_ID q \<noteq> ev_ID e"
      by (auto simp: AppendEvent_def list_ex_iff split: option.splits if_splits)
    then have "\<not> tx_done t1" using Cons.prems by simp
    from Cons.IH [OF this] show ?thesis using Inr t1 by (auto simp: image_iff)
  qed
qed simp

lemma lookup_fold_fmupd:
  "distinct (map key es) \<Longrightarrow> fmlookup (fold (\<lambda>e. fmupd (key e) e) es m) i =
     (case find (\<lambda>e. key e = i) es of Some e \<Rightarrow> Some e | None \<Rightarrow> fmlookup m i)"
proof (induction es arbitrary: m)
  case (Cons e es)
  have "find (\<lambda>x. key x = i) es = None" if "key e = i"
    using Cons.prems that by (auto simp: find_None_iff) (metis imageI)
  then show ?case using Cons by (auto split: option.splits)
qed simp

text \<open>C25: A transaction that appends events is all or nothing. It commits exactly when the store is
  open, every event is valid, no identifier is used twice in it and none is already stored; it then
  adds exactly those events; otherwise it leaves the store as it was.\<close>

theorem event_append_atomic:
  assumes "WithinTx ctx (append_fn es) s = (err, s')"
  shows
    "(err = None \<longleftrightarrow> ctx = None \<and> \<not> st_closed s \<and> list_all (\<lambda>e. validEvent e = None) es \<and>
        distinct (map ev_ID es) \<and> list_all (\<lambda>e. fmlookup (st_events s) (ev_ID e) = None) es) \<and>
     s' = (if err = None then s\<lparr>st_events := st_events s'\<rparr> else s) \<and>
     (err = None \<longrightarrow> (\<forall>i. fmlookup (st_events s') i =
        (case find (\<lambda>e. ev_ID e = i) es of Some e \<Rightarrow> Some e | None \<Rightarrow> fmlookup (st_events s) i)))"
proof -
  let ?t = "\<lparr>tx_pending = [], tx_done = False\<rparr>"
  obtain t' e' where a: "append_all es ?t = (t', e')" by (cases "append_all es ?t")
  have valid: "e' = None \<longleftrightarrow> (\<forall>e \<in> set es. validEvent e = None) \<and> distinct (map ev_ID es)"
    using append_all_None [of ?t es] a by auto
  have pend: "tx_pending t' = es" if "e' = None"
    using append_all_pending [of es ?t t'] a that by simp
  show ?thesis
  proof (cases "ctx = None \<and> \<not> st_closed s \<and> e' = None")
    case True
    then have w: "WithinTx ctx (append_fn es) s =
        (case find (\<lambda>e. fmlookup (st_events s) (ev_ID e) \<noteq> None) es of
           Some e \<Rightarrow> (Some (Conflict ''event'' (ev_ID e)), s)
         | None \<Rightarrow> (None, s\<lparr>st_events := fold (\<lambda>e. fmupd (ev_ID e) e) es (st_events s)\<rparr>))"
      using a pend by (simp add: WithinTx_def commit_tx_def checkOpen_def append_fn_def split: option.split)
    show ?thesis
    proof (cases "find (\<lambda>e. fmlookup (st_events s) (ev_ID e) \<noteq> None) es")
      case None
      then have new: "\<forall>e \<in> set es. fmlookup (st_events s) (ev_ID e) = None"
        by (simp add: find_None_iff)
      have "err = None" "s' = s\<lparr>st_events := fold (\<lambda>e. fmupd (ev_ID e) e) es (st_events s)\<rparr>"
        using assms unfolding w None by simp_all
      then show ?thesis using True valid new by (simp add: lookup_fold_fmupd list_all_iff)
    next
      case (Some e)
      then have "\<not> list_all (\<lambda>e. fmlookup (st_events s) (ev_ID e) = None) es"
        by (auto simp: find_Some_iff list_all_iff intro: nth_mem bexI [rotated])
      moreover have "err \<noteq> None" "s' = s" using assms unfolding w Some by auto
      ultimately show ?thesis by auto
    qed
  next
    case False
    then have "err \<noteq> None" "s' = s"
      using assms a by (auto simp: WithinTx_def checkOpen_def append_fn_def split: option.splits if_splits)
    moreover have "\<not> (ctx = None \<and> \<not> st_closed s \<and> list_all (\<lambda>e. validEvent e = None) es \<and> distinct (map ev_ID es))"
      using False valid by (auto simp: list_all_iff)
    ultimately show ?thesis by auto
  qed
qed

definition sample_event :: "string \<Rightarrow> Event" where
  "sample_event i = \<lparr>ev_ID = i, ev_Type = ''push'', ev_Repository = ''team'', ev_Resource = ''v1'',
     ev_Actor = ''alice'', ev_Payload = None, ev_At = 5\<rparr>"

theorem event_append_atomic_witness:
  "\<exists>err s'. WithinTx None (append_fn [sample_event ''a'', sample_event ''b'']) New = (err, s') \<and>
     err = None \<and> fmlookup (st_events s') ''a'' = Some (sample_event ''a'')"
proof -
  obtain err s' where w: "WithinTx None (append_fn [sample_event ''a'', sample_event ''b'']) New = (err, s')"
    by fastforce
  note atomic = event_append_atomic [OF w]
  have err: "err = None"
    using atomic by (simp add: sample_event_def validEvent_def New_def newEmpty_def)
  moreover have "fmlookup (st_events s') ''a'' = Some (sample_event ''a'')"
    using atomic err by (simp add: sample_event_def)
  ultimately show ?thesis using w by blast
qed

section \<open>Sessions\<close>

lemma identity_step_sessions:
  assumes "identity_step s s'" "fmlookup (st_sessions s') i = Some y"
  shows "fmlookup (st_sessions s) i = Some y"
  using assms(1)
proof (cases rule: identity_step.cases)
  case (delete_subject ctx name)
  then show ?thesis
    using assms(2) by (clarsimp simp: DeleteSubject_def dropBindings_def ok_simps Let_def split: option.splits if_splits)
qed (use assms(2) in \<open>clarsimp simp: store_defs ok_simps Let_def split: option.splits if_splits\<close>)+

lemma credential_step_sessions:
  assumes "credential_step s s'" "fmlookup (st_sessions s) i = Some x" "fmlookup (st_sessions s') i = Some y"
  shows "y = x \<or> (\<exists>idle. idle \<le> se_AbsoluteExpiresAt x \<and> y = x\<lparr>se_IdleExpiresAt := idle\<rparr>)"
  using assms(1)
proof (cases rule: credential_step.cases)
  case (commit_events es t)
  then show ?thesis using assms(2,3) by (auto dest!: commit_tx_Inr(1))
next
  case (refresh_session ctx sid idle)
  then obtain session where session: "fmlookup (st_sessions s) sid = Some session"
    by (cases "fmlookup (st_sessions s) sid") (simp_all add: RefreshSession_def ok_simps)
  have s': "s' = s\<lparr>st_sessions := fmupd sid (session\<lparr>se_IdleExpiresAt :=
        min idle (se_AbsoluteExpiresAt session)\<rparr>) (st_sessions s)\<rparr>"
  proof (cases "se_AbsoluteExpiresAt session < idle")
    case True
    then show ?thesis using refresh_session by (simp add: RefreshSession_def with_open_Inr session min_def)
  next
    case False
    then show ?thesis using refresh_session by (simp add: RefreshSession_def with_open_Inr session min_def)
  qed
  show ?thesis
  proof (cases "i = sid")
    case True
    then have "y = x\<lparr>se_IdleExpiresAt := min idle (se_AbsoluteExpiresAt x)\<rparr>"
      using assms(2,3) session by (simp add: s')
    then show ?thesis using min.cobounded2 by blast
  qed (use assms(2,3) in \<open>simp add: s'\<close>)
next
  case (touch_token ctx tid at)
  then show ?thesis using assms(2,3) by (clarsimp simp: TouchAccessToken_def ok_simps)
next
  case (close_store)
  then show ?thesis using assms(2,3) by (simp add: Close_def)
qed (use assms(2,3) in \<open>clarsimp simp: store_defs ok_simps Let_def split: if_splits option.splits\<close>)+

lemma session_step:
  assumes "store_step s s'" "fmlookup (st_sessions s) i = Some x" "fmlookup (st_sessions s') i = Some y"
  shows "se_Subject y = se_Subject x \<and> se_CSRFToken y = se_CSRFToken x \<and>
    se_AbsoluteExpiresAt y = se_AbsoluteExpiresAt x \<and> (y = x \<or> se_IdleExpiresAt y \<le> se_AbsoluteExpiresAt y)"
  using assms(1)
proof (cases rule: store_step.cases)
  case content
  then show ?thesis using content_step_frame(2) [OF content] assms(2,3) by (simp add: part_defs)
next
  case cached
  then show ?thesis using cached_step_frame(5) [OF cached] assms(2,3) by (simp add: part_defs)
next
  case gc
  then show ?thesis using gc_step_frame(5) [OF gc] assms(2,3) by (simp add: part_defs)
next
  case identity
  then show ?thesis using identity_step_sessions [OF identity assms(3)] assms(2) by simp
next
  case credential
  then show ?thesis using credential_step_sessions [OF credential assms(2,3)] by auto
next
  case (delete_repository ctx name)
  then show ?thesis
    using remove_repository_fields(18) [of name s] DeleteRepository_Inr [OF delete_repository] assms(2,3)
    by (simp add: part_defs)
qed

text \<open>C26: A session cannot be stretched. Along any run of calls in which it is not removed it keeps its
  owner, its CSRF token and the absolute expiry it was created with, whatever refreshes it gets, and
  it is never returned at or after that time, nor at or after its idle expiry.\<close>

theorem session_never_outlives_its_bound:
  assumes "successively store_step (s # ss)"
    and "list_all (\<lambda>u. fmlookup (st_sessions u) i \<noteq> None) (s # ss)"
    and "fmlookup (st_sessions s) i = Some x" and "GetSession None i now (last (s # ss)) = Inr y"
  shows "se_Subject y = se_Subject x \<and> se_CSRFToken y = se_CSRFToken x \<and>
    se_AbsoluteExpiresAt y = se_AbsoluteExpiresAt x \<and> now < se_AbsoluteExpiresAt x \<and>
    now < se_IdleExpiresAt y"
  using assms
proof (induction ss arbitrary: s x)
  case Nil
  then show ?case by (auto simp: GetSession_def ok_simps Session_Expired_def split: option.splits if_splits)
next
  case (Cons s1 ss)
  obtain x1 where x1: "fmlookup (st_sessions s1) i = Some x1" using Cons.prems(2) by auto
  have "store_step s s1" using Cons.prems(1) by simp
  from session_step [OF this Cons.prems(3) x1] Cons.IH [OF _ _ x1] Cons.prems
  show ?case by simp
qed

definition sample_session :: Session where
  "sample_session = \<lparr>se_ID = ''s1'', se_Subject = AnonymousSubjectName, se_CSRFToken = ''c'', se_CreatedAt = 1,
     se_IdleExpiresAt = 5, se_AbsoluteExpiresAt = 9\<rparr>"

theorem session_never_outlives_its_bound_witness:
  "\<exists>s1 s2 y. CreateSession None sample_session New = Inr s1 \<and> RefreshSession None ''s1'' 50 s1 = Inr s2 \<and>
     GetSession None ''s1'' 8 s2 = Inr y \<and> se_AbsoluteExpiresAt y = 9 \<and> se_Subject y = AnonymousSubjectName"
proof -
  let ?s1 = "New\<lparr>st_sessions := fmupd ''s1'' sample_session fmempty\<rparr>"
  let ?y = "sample_session\<lparr>se_IdleExpiresAt := 9\<rparr>"
  let ?s2 = "New\<lparr>st_sessions := fmupd ''s1'' ?y fmempty\<rparr>"
  note defs = with_open_def checkOpen_def New_def newEmpty_def sample_session_def Let_def
  have 1: "CreateSession None sample_session New = Inr ?s1" by (simp add: CreateSession_def defs)
  have 2: "RefreshSession None ''s1'' 50 ?s1 = Inr ?s2" by (simp add: RefreshSession_def defs)
  have 3: "GetSession None ''s1'' 8 (last [?s1, ?s2]) = Inr ?y"
    by (simp add: GetSession_def Session_Expired_def defs)
  have run: "successively store_step [?s1, ?s2]"
    using store_step.credential [OF credential_step.refresh_session [OF 2]] by simp
  have "se_AbsoluteExpiresAt ?y = se_AbsoluteExpiresAt sample_session \<and> se_Subject ?y = se_Subject sample_session"
    using session_never_outlives_its_bound [OF run _ _ 3] by simp
  then show ?thesis using 1 2 3 by (auto simp: sample_session_def)
qed

section \<open>Effective bindings\<close>

lemma fold_group_ids:
  fixes n :: string and f :: "string \<Rightarrow> string" and xs :: "(string \<times> string fset) list"
  defines "F \<equiv> fold (\<lambda>(grp, members) ids. if n |\<in>| members then fmupd (f grp) grp ids else ids)"
  shows "fmlookup (F xs acc) i = Some g \<Longrightarrow>
      fmlookup acc i = Some g \<or> (\<exists>ms. (g, ms) \<in> set xs \<and> n |\<in>| ms \<and> f g = i)"
    and "fmlookup acc i \<noteq> None \<or> (\<exists>g ms. (g, ms) \<in> set xs \<and> n |\<in>| ms \<and> f g = i) \<Longrightarrow>
      fmlookup (F xs acc) i \<noteq> None"
  unfolding F_def
proof (induction xs arbitrary: acc)
  case (Cons x xs)
  obtain grp ms where x: "x = (grp, ms)" by (cases x)
  {
    case 1
    then show ?case using Cons.IH(1) [of "if n |\<in>| ms then fmupd (f grp) grp acc else acc"]
      by (auto simp: x split: if_splits)
  next
    case 2
    then have "fmlookup (if n |\<in>| ms then fmupd (f grp) grp acc else acc) i \<noteq> None \<or>
        (\<exists>g ms. (g, ms) \<in> set xs \<and> n |\<in>| ms \<and> f g = i)"
      by (auto simp: x split: if_splits)
    from Cons.IH(2) [OF this] show ?case by (simp add: x)
  }
qed simp_all

lemma group_ids_iff:
  "fmlookup (group_ids s n) i \<noteq> None \<longleftrightarrow>
     (\<exists>g ms. fmlookup (st_groupMembers s) g = Some ms \<and> n |\<in>| ms \<and> sg_ID (group_named s g) = i)"
  "fmlookup (group_ids s n) i = Some g \<Longrightarrow>
     \<exists>ms. fmlookup (st_groupMembers s) g = Some ms \<and> n |\<in>| ms \<and> sg_ID (group_named s g) = i"
proof -
  note F = fold_group_ids [where f = "\<lambda>g. sg_ID (group_named s g)" and xs = "entries (st_groupMembers s)"
      and acc = fmempty and n = n and i = i]
  show some: "\<exists>ms. fmlookup (st_groupMembers s) g = Some ms \<and> n |\<in>| ms \<and> sg_ID (group_named s g) = i"
    if "fmlookup (group_ids s n) i = Some g" for g
    using F(1) [of g] that by (auto simp: group_ids_def)
  show "fmlookup (group_ids s n) i \<noteq> None \<longleftrightarrow>
     (\<exists>g ms. fmlookup (st_groupMembers s) g = Some ms \<and> n |\<in>| ms \<and> sg_ID (group_named s g) = i)"
    using F(2) some by (auto simp: group_ids_def)
qed

lemma set_map_filter: "set (List.map_filter f xs) = {y. \<exists>x \<in> set xs. f x = Some y}"
  by (induction xs) (auto simp: map_filter_simps split: option.splits)

lemma map_map_filter:
  assumes "\<And>x y. f x = Some y \<Longrightarrow> g y = x"
  shows "map g (List.map_filter f xs) = filter (\<lambda>x. f x \<noteq> None) xs"
  using assms by (induction xs) (auto simp: map_filter_simps split: option.splits)

lemma strict_sort_key:
  fixes key :: "'a \<Rightarrow> 'b::linorder"
  assumes "distinct (map key xs)"
  shows "sorted_wrt (\<lambda>a b. key a < key b) (sort_key key xs)"
proof -
  have "distinct (map key (sort_key key xs))"
    using assms by (metis distinct_map distinct_sort set_sort)
  then have "sorted_wrt (<) (map key (sort_key key xs))"
    by (simp add: strict_sorted_iff)
  then show ?thesis by (simp add: sorted_wrt_map)
qed

lemma map_key_entries:
  assumes "fmpred (\<lambda>k v. key v = k) m"
  shows "map key (map snd (entries m)) = keys_of m"
proof -
  have "key v = k" if "(k, v) \<in> set (entries m)" for k v
    using that fmpredD [OF assms] by simp
  then show ?thesis by (auto simp: keys_of_def)
qed

lemma effective_binding: "effective x ids b = Some e \<Longrightarrow> eb_Binding e = b"
  by (auto simp: effective_def split: if_splits option.splits)

text \<open>C27: A subject's effective bindings are exactly the stored bindings that name it or a group it
  belongs to, in strict order of their identifiers, each group grant labelled with such a group; a
  disabled subject has none, and asking never fails for a subject that exists.\<close>

theorem effective_bindings_exact:
  assumes "reachable s" "GetSubject None name s = Inr x"
  shows "\<exists>es gs. ListEffectiveBindings None name s = Inr es \<and> ListSubjectGroups None name s = Inr gs \<and>
    (sj_Disabled x \<longrightarrow> es = []) \<and>
    sorted_wrt (\<lambda>a b. bi_ID (eb_Binding a) < bi_ID (eb_Binding b)) es \<and>
    (\<not> sj_Disabled x \<longrightarrow> (\<forall>b. b \<in> eb_Binding ` set es \<longleftrightarrow>
       (\<exists>i. GetBinding None i s = Inr b) \<and>
       (bi_PrincipalKind b = PrincipalSubject \<and> bi_PrincipalID b = sj_ID x \<or>
        bi_PrincipalKind b = PrincipalGroup \<and> bi_PrincipalID b \<in> sg_ID ` set gs))) \<and>
    (\<forall>e. e \<in> set es \<and> bi_PrincipalKind (eb_Binding e) = PrincipalGroup \<longrightarrow>
       (\<exists>g. g \<in> set gs \<and> sg_Name g = eb_ViaGroup e \<and> sg_ID g = bi_PrincipalID (eb_Binding e)))"
proof -
  have inv: "inv_identity s" by (rule reachable_inv [OF assms(1)])
  note rows = inv_identity_rows [OF inv]
  have x: "fmlookup (st_subjects s) name = Some x" and op: "\<not> st_closed s"
    using assms(2) by (auto simp: GetSubject_def ok_simps split: option.splits)
  let ?f = "effective x (group_ids s name)"
  let ?bs = "map snd (entries (st_bindings s))"
  define all where "all = List.map_filter ?f ?bs"
  define gs where "gs = sort_key sg_Name (map (\<lambda>(grp, _). group_named s grp)
      (filter (\<lambda>(_, members). name |\<in>| members) (entries (st_groupMembers s))))"
  have groups: "ListSubjectGroups None name s = Inr gs"
    using op x by (simp add: ListSubjectGroups_def gs_def)
  have es: "ListEffectiveBindings None name s =
      Inr (if sj_Disabled x then [] else sort_key (\<lambda>e. bi_ID (eb_Binding e)) all)"
    using op x by (simp add: ListEffectiveBindings_def all_def)
  have set_gs: "set gs = {group_named s g |g. \<exists>ms. fmlookup (st_groupMembers s) g = Some ms \<and> name |\<in>| ms}"
    by (force simp: gs_def)
  have set_all: "set all = {e. \<exists>i b. fmlookup (st_bindings s) i = Some b \<and> ?f b = Some e}"
    by (force simp: all_def set_map_filter)
  have "map bi_ID ?bs = keys_of (st_bindings s)"
    by (rule map_key_entries) (use inv in \<open>auto simp: inv_identity_def fmpred_iff\<close>)
  then have "distinct (map bi_ID ?bs)" by simp
  moreover have "map eb_Binding all = filter (\<lambda>b. ?f b \<noteq> None) ?bs"
    unfolding all_def by (rule map_map_filter) (rule effective_binding)
  ultimately have "distinct (map bi_ID (map eb_Binding all))"
    by (simp only: distinct_map_filter)
  then have sorted: "sorted_wrt (\<lambda>a b. bi_ID (eb_Binding a) < bi_ID (eb_Binding b))
      (sort_key (\<lambda>e. bi_ID (eb_Binding e)) all)"
    by (intro strict_sort_key) (simp add: comp_def)
  have in_gs: "i \<in> sg_ID ` set gs \<longleftrightarrow> fmlookup (group_ids s name) i \<noteq> None" for i
    unfolding set_gs group_ids_iff(1) by blast
  have bound: "(\<exists>e. ?f b = Some e) \<longleftrightarrow>
      (bi_PrincipalKind b = PrincipalSubject \<and> bi_PrincipalID b = sj_ID x \<or>
       bi_PrincipalKind b = PrincipalGroup \<and> bi_PrincipalID b \<in> sg_ID ` set gs)" for b
    unfolding in_gs by (simp add: effective_def split: option.split)
  have via: "\<exists>g. g \<in> set gs \<and> sg_Name g = eb_ViaGroup e \<and> sg_ID g = bi_PrincipalID (eb_Binding e)"
    if e: "e \<in> set all" "bi_PrincipalKind (eb_Binding e) = PrincipalGroup" for e
  proof -
    obtain b where "?f b = Some e" using e(1) unfolding set_all by blast
    then have "fmlookup (group_ids s name) (bi_PrincipalID (eb_Binding e)) = Some (eb_ViaGroup e)"
      using e(2) by (auto simp: effective_def split: if_splits option.splits)
    from group_ids_iff(2) [OF this] obtain ms where
      g: "fmlookup (st_groupMembers s) (eb_ViaGroup e) = Some ms" "name |\<in>| ms"
        "sg_ID (group_named s (eb_ViaGroup e)) = bi_PrincipalID (eb_Binding e)"
      by blast
    obtain grp where grp: "fmlookup (st_subjectGroups s) (eb_ViaGroup e) = Some grp"
      using rows(5) [of "eb_ViaGroup e"] g(1) by auto
    then have "sg_Name (group_named s (eb_ViaGroup e)) = eb_ViaGroup e"
      using inv by (auto simp: inv_identity_def fmpred_iff group_named_def)
    then show ?thesis using g unfolding set_gs by blast
  qed
  have members: "b \<in> eb_Binding ` set all \<longleftrightarrow> (\<exists>i. GetBinding None i s = Inr b) \<and> (\<exists>e. ?f b = Some e)" for b
  proof -
    have "GetBinding None i s = Inr b \<longleftrightarrow> fmlookup (st_bindings s) i = Some b" for i
      using op by (simp add: GetBinding_def split: option.split)
    then show ?thesis unfolding set_all by (auto simp: image_iff dest: effective_binding)
  qed
  show ?thesis
    unfolding es using groups sorted via by (auto simp: members bound)
qed

definition sample_people :: Store where
  "sample_people = New\<lparr>
     st_roles := fmupd ''reader'' \<lparr>ro_Name = ''reader'', ro_Builtin = False, ro_Verbs = []\<rparr> fmempty,
     st_bindings := fmupd ''b1'' \<lparr>bi_ID = ''b1'', bi_PrincipalKind = PrincipalSubject,
       bi_PrincipalID = AnonymousSubjectID, bi_Role = ''reader'', bi_Scope = ''*'', bi_CreatedAt = 2\<rparr> fmempty\<rparr>"

lemma sample_people_reachable: "reachable sample_people"
proof -
  let ?s1 = "New\<lparr>st_roles := fmupd ''reader'' \<lparr>ro_Name = ''reader'', ro_Builtin = False, ro_Verbs = []\<rparr> fmempty\<rparr>"
  note defs = with_open_def checkOpen_def New_def newEmpty_def
  have 1: "CreateRole None \<lparr>ro_Name = ''reader'', ro_Builtin = False, ro_Verbs = []\<rparr> New = Inr ?s1"
    by (simp add: CreateRole_def defs)
  have 2: "CreateBinding None \<lparr>bi_ID = ''b1'', bi_PrincipalKind = PrincipalSubject,
       bi_PrincipalID = AnonymousSubjectID, bi_Role = ''reader'', bi_Scope = ''*'', bi_CreatedAt = 2\<rparr> ?s1 =
      Inr sample_people"
    by (simp add: CreateBinding_def sample_people_def Valid_principalkind_def principalExists_def
        sorted_list_of_fmap_def sorted_list_of_fset.rep_eq defs)
  show ?thesis
    by (rule reachable.call [OF reachable.call [OF reachable.fresh
          store_step.identity [OF identity_step.create_role [OF 1]]]
          store_step.identity [OF identity_step.create_binding [OF 2]]])
qed

theorem effective_bindings_exact_witness:
  "reachable sample_people \<and> (\<exists>x es. GetSubject None AnonymousSubjectName sample_people = Inr x \<and>
     ListEffectiveBindings None AnonymousSubjectName sample_people = Inr es \<and>
     ''b1'' \<in> bi_ID ` eb_Binding ` set es)"
proof -
  let ?b = "\<lparr>bi_ID = ''b1'', bi_PrincipalKind = PrincipalSubject, bi_PrincipalID = AnonymousSubjectID,
     bi_Role = ''reader'', bi_Scope = ''*'', bi_CreatedAt = 2\<rparr>"
  let ?x = "\<lparr>sj_ID = AnonymousSubjectID, sj_Kind = Anonymous, sj_Name = AnonymousSubjectName,
     sj_Disabled = False, sj_CreatedAt = 0\<rparr>"
  note defs = with_open_def checkOpen_def New_def newEmpty_def sample_people_def
  have g: "GetSubject None AnonymousSubjectName sample_people = Inr ?x" by (simp add: GetSubject_def defs)
  have "\<exists>i. GetBinding None i sample_people = Inr ?b"
    by (rule exI [of _ "''b1''"]) (simp add: GetBinding_def defs)
  moreover obtain es and gs :: "SubjectGroup list" where es: "ListEffectiveBindings None AnonymousSubjectName sample_people = Inr es"
    and iff: "\<forall>b. b \<in> eb_Binding ` set es \<longleftrightarrow> (\<exists>i. GetBinding None i sample_people = Inr b) \<and>
       (bi_PrincipalKind b = PrincipalSubject \<and> bi_PrincipalID b = sj_ID ?x \<or>
        bi_PrincipalKind b = PrincipalGroup \<and> bi_PrincipalID b \<in> sg_ID ` set gs)"
    using effective_bindings_exact [OF sample_people_reachable g]
    by (elim exE conjE) (rule that, assumption, rule mp, assumption, simp)
  ultimately have "?b \<in> eb_Binding ` set es" unfolding iff [rule_format] by simp
  then have "bi_ID ?b \<in> bi_ID ` eb_Binding ` set es" by (rule imageI)
  then show ?thesis using es g sample_people_reachable by auto
qed

end
