(* ===== verification/Blob_Digest.thy ===== *)
theory Blob_Digest
  imports Trove_Prelude
begin

text \<open>
  \<^verbatim>\<open>internal/blob\<close>: digests, references, upload identifiers and errors. A byte slice is a
  \<^typ>\<open>string\<close>. The hash functions of \<^verbatim>\<open>crypto/sha256\<close> and \<^verbatim>\<open>crypto/sha512\<close> are a parameter
  \<open>H\<close>: \<open>H algorithm data\<close> is what \<^verbatim>\<open>Sum(nil)\<close> returns after \<open>data\<close> was written, and all that is
  ever assumed of it is the number of bytes it returns (\<open>hash_sizes\<close>).
\<close>

section \<open>Errors\<close>

text \<open>The sentinels of \<^verbatim>\<open>errors.go\<close> with what their typed errors carry; \<open>SourceError\<close> is a failure of
  the stream being read and \<open>EOF\<close> its end.\<close>

datatype blob_error =
    BlobNotFound string string
  | InvalidDigest string
  | Mismatch string string int
  | InvalidArgument string
  | BlobCtx ctx_err
  | SourceError string
  | EOF

text \<open>\<^verbatim>\<open>errors.Is(err, blob.ErrNotFound)\<close>.\<close>

fun is_BlobNotFound :: "blob_error \<Rightarrow> bool" where
  "is_BlobNotFound (BlobNotFound _ _) = True"
| "is_BlobNotFound _ = False"

section \<open>Algorithms\<close>

abbreviation SHA256 :: string where "SHA256 \<equiv> ''sha256''"
abbreviation SHA512 :: string where "SHA512 \<equiv> ''sha512''"

text \<open>The allowlist, as the hex length of each entry.\<close>

definition algorithms :: "string \<Rightarrow> nat option" where
  "algorithms a = (if a = SHA256 then Some 64 else if a = SHA512 then Some 128 else None)"

definition Available :: "string \<Rightarrow> bool" where
  "Available a \<longleftrightarrow> algorithms a \<noteq> None"

definition HexLength :: "string \<Rightarrow> nat" where
  "HexLength a = (case algorithms a of None \<Rightarrow> 0 | Some n \<Rightarrow> n)"

section \<open>Digests\<close>

definition isLowerHex :: "char \<Rightarrow> bool" where
  "isLowerHex c \<longleftrightarrow> (c \<ge> CHR ''0'' \<and> c \<le> CHR ''9'') \<or> (c \<ge> CHR ''a'' \<and> c \<le> CHR ''f'')"

definition ParseDigest :: "string \<Rightarrow> blob_error + string" where
  "ParseDigest s =
    (case Cut s CHR '':'' of (algorithm, hex, found) \<Rightarrow>
       if \<not> found then Inl (InvalidDigest s)
       else
         (case algorithms algorithm of
            None \<Rightarrow> Inl (InvalidDigest s)
          | Some hexLength \<Rightarrow>
              if length hex \<noteq> hexLength then Inl (InvalidDigest s)
              else if \<not> list_all isLowerHex hex then Inl (InvalidDigest s)
              else Inr s))"

definition Validate_digest :: "string \<Rightarrow> blob_error option" where
  "Validate_digest d = (case ParseDigest d of Inl e \<Rightarrow> Some e | Inr _ \<Rightarrow> None)"

definition Algorithm_of :: "string \<Rightarrow> string" where
  "Algorithm_of d =
    (case Cut d CHR '':'' of (algorithm, _, found) \<Rightarrow> if \<not> found then [] else algorithm)"

definition Hex :: "string \<Rightarrow> string" where
  "Hex d = (case Cut d CHR '':'' of (_, hex, found) \<Rightarrow> if \<not> found then [] else hex)"

text \<open>\<^verbatim>\<open>%x\<close> of a byte slice.\<close>

definition hex_digit :: "nat \<Rightarrow> char" where
  "hex_digit n = ''0123456789abcdef'' ! n"

definition format_hex :: "string \<Rightarrow> string" where
  "format_hex bytes =
    concat (map (\<lambda>c. [hex_digit (of_char c div 16), hex_digit (of_char c mod 16)]) bytes)"

definition digestOf :: "(string \<Rightarrow> string \<Rightarrow> string) \<Rightarrow> string \<Rightarrow> string \<Rightarrow> string" where
  "digestOf H algo data = algo @ '':'' @ format_hex (H algo data)"

text \<open>\<^verbatim>\<open>FromBytes\<close> panics on an algorithm that is not available: \<^term>\<open>None\<close>.\<close>

definition FromBytes :: "(string \<Rightarrow> string \<Rightarrow> string) \<Rightarrow> string \<Rightarrow> string \<Rightarrow> string option" where
  "FromBytes H algo data = (if \<not> Available algo then None else Some (digestOf H algo data))"

section \<open>References\<close>

text \<open>\<^verbatim>\<open>CachedRef\<close> and \<^verbatim>\<open>HostedRef\<close> wrap a digest in distinct types.\<close>

datatype CachedRef = CachedRef (cached_digest: string)
datatype HostedRef = HostedRef (hosted_digest: string)

definition NewCachedRef :: "string \<Rightarrow> blob_error + CachedRef" where
  "NewCachedRef digest =
    (case Validate_digest digest of Some e \<Rightarrow> Inl e | None \<Rightarrow> Inr (CachedRef digest))"

definition NewHostedRef :: "string \<Rightarrow> blob_error + HostedRef" where
  "NewHostedRef digest =
    (case Validate_digest digest of Some e \<Rightarrow> Inl e | None \<Rightarrow> Inr (HostedRef digest))"

section \<open>Upload identifiers\<close>

abbreviation MaxUploadIDLength :: nat where "MaxUploadIDLength \<equiv> 128"

definition upload_char :: "char \<Rightarrow> bool" where
  "upload_char c \<longleftrightarrow>
    (c \<ge> CHR ''a'' \<and> c \<le> CHR ''z'') \<or> (c \<ge> CHR ''A'' \<and> c \<le> CHR ''Z'') \<or>
    (c \<ge> CHR ''0'' \<and> c \<le> CHR ''9'') \<or> c = CHR ''-'' \<or> c = CHR ''_'' \<or> c = CHR ''.''"

definition ValidateUploadID :: "string \<Rightarrow> blob_error option" where
  "ValidateUploadID uid =
    (if uid = [] then Some (InvalidArgument ''id'')
     else if length uid > MaxUploadIDLength then Some (InvalidArgument ''id'')
     else if uid = ''.'' \<or> uid = ''..'' then Some (InvalidArgument ''id'')
     else if \<not> list_all upload_char uid then Some (InvalidArgument ''id'')
     else None)"

section \<open>What the parser accepts\<close>

definition hash_sizes :: "(string \<Rightarrow> string \<Rightarrow> string) \<Rightarrow> bool" where
  "hash_sizes H \<longleftrightarrow> (\<forall>data. length (H SHA256 data) = 32 \<and> length (H SHA512 data) = 64)"

lemma algorithms_Some: "algorithms a = Some n \<longleftrightarrow> a = SHA256 \<and> n = 64 \<or> a = SHA512 \<and> n = 128"
  by (auto simp: algorithms_def)

lemma algorithms_no_colon: "algorithms a = Some n \<Longrightarrow> CHR '':'' \<notin> set a"
  by (auto simp: algorithms_Some)

lemma ParseDigest_iff:
  "ParseDigest s = Inr d \<longleftrightarrow> d = s \<and>
     (\<exists>a n hex. algorithms a = Some n \<and> s = a @ '':'' @ hex \<and> length hex = n \<and> list_all isLowerHex hex)"
proof (cases s "CHR '':''" rule: Cut_cases)
  case (found a b)
  have s: "s = a @ '':'' @ b" using found(2) by simp
  have split: "a' = a \<and> hex = b" if "algorithms a' = Some n" "s = a' @ '':'' @ hex" for a' n hex
  proof -
    have "Cut s CHR '':'' = (a', hex, True)"
      unfolding Cut_found using that(2) algorithms_no_colon [OF that(1)] by simp
    then show ?thesis using found(1) by simp
  qed
  have "(\<exists>a n hex. algorithms a = Some n \<and> s = a @ '':'' @ hex \<and> length hex = n \<and> list_all isLowerHex hex) \<longleftrightarrow>
      (\<exists>n. algorithms a = Some n \<and> length b = n \<and> list_all isLowerHex b)" (is "?L \<longleftrightarrow> ?R")
  proof
    assume ?L
    then obtain a' n hex where a': "algorithms a' = Some n" "s = a' @ '':'' @ hex" "length hex = n"
      "list_all isLowerHex hex" by blast
    with split [OF a'(1,2)] show ?R by blast
  qed (use s in blast)
  note iff = this
  have parse: "ParseDigest s = (case algorithms a of None \<Rightarrow> Inl (InvalidDigest s)
      | Some n \<Rightarrow> if length b \<noteq> n \<or> \<not> list_all isLowerHex b then Inl (InvalidDigest s) else Inr s)"
    using found(1) by (simp add: ParseDigest_def split: option.split)
  show ?thesis unfolding iff parse by (cases "algorithms a") auto
next
  case missing
  then show ?thesis by (auto simp: ParseDigest_def)
qed

lemma ParseDigest_Inl: "ParseDigest s = Inl e \<Longrightarrow> e = InvalidDigest s"
  by (auto simp: ParseDigest_def split: prod.splits option.splits if_splits)

lemma Cut_algorithm: "algorithms a = Some n \<Longrightarrow> Cut (a @ '':'' @ hex) CHR '':'' = (a, hex, True)"
  by (simp add: Cut_found algorithms_no_colon)

lemma hex_digit_lower: "n < 16 \<Longrightarrow> isLowerHex (hex_digit n)"
proof -
  have "list_all (\<lambda>n. isLowerHex (hex_digit n)) [0..<16]" by code_simp
  then show "n < 16 \<Longrightarrow> isLowerHex (hex_digit n)" by (simp add: list_all_iff)
qed

lemma format_hex_facts: "length (format_hex bytes) = 2 * length bytes" "list_all isLowerHex (format_hex bytes)"
proof -
  have "of_char c div 16 < (16::nat)" for c
  proof -
    have "of_char c mod 256 = (of_char c :: nat)" by (rule of_char_mod_256)
    then have "of_char c < (256::nat)" by (metis mod_less_divisor zero_less_numeral)
    then show ?thesis by (intro less_mult_imp_div_less) simp
  qed
  then show "list_all isLowerHex (format_hex bytes)"
    by (induction bytes) (simp_all add: format_hex_def hex_digit_lower)
  show "length (format_hex bytes) = 2 * length bytes"
    by (induction bytes) (simp_all add: format_hex_def)
qed

lemma digestOf_parses:
  assumes "hash_sizes H" "Available a"
  shows "ParseDigest (digestOf H a data) = Inr (digestOf H a data)"
    "Algorithm_of (digestOf H a data) = a" "Hex (digestOf H a data) = format_hex (H a data)"
proof -
  obtain n where n: "algorithms a = Some n" using assms(2) by (auto simp: Available_def)
  then have "length (format_hex (H a data)) = n"
    using assms(1) by (auto simp: algorithms_Some hash_sizes_def format_hex_facts(1))
  then show "ParseDigest (digestOf H a data) = Inr (digestOf H a data)"
    unfolding ParseDigest_iff digestOf_def using n format_hex_facts(2) by blast
  show "Algorithm_of (digestOf H a data) = a" "Hex (digestOf H a data) = format_hex (H a data)"
    by (simp_all only: Algorithm_of_def Hex_def digestOf_def Cut_algorithm [OF n]) simp_all
qed

lemma Validate_digest_None: "Validate_digest d = None \<longleftrightarrow> ParseDigest d = Inr d"
proof (cases "ParseDigest d")
  case (Inr x)
  then show ?thesis using ParseDigest_iff [of d x] by (simp add: Validate_digest_def)
qed (simp add: Validate_digest_def)

lemma Validate_digest_available:
  assumes "Validate_digest d = None"
  shows "Available (Algorithm_of d)"
proof -
  obtain a n hex where a: "algorithms a = Some n" "d = a @ '':'' @ hex"
    using assms unfolding Validate_digest_None ParseDigest_iff by blast
  then have "Algorithm_of d = a" by (simp only: Algorithm_of_def Cut_algorithm [OF a(1)]) simp
  then show ?thesis using a(1) by (simp add: Available_def)
qed

text \<open>C23: The digest parser accepts exactly an allowlisted algorithm, a colon and the right number of
  lowercase hex characters, gives back the string it was given, and answers everything else with the
  invalid-digest error naming it; and what \<^verbatim>\<open>FromBytes\<close> renders always parses, back to its algorithm
  and the hex of the hash. The hypothesis is the size of a SHA-256 and of a SHA-512 sum.\<close>

theorem digest_parser_exact:
  assumes "hash_sizes H"
  shows
    "(ParseDigest s = Inr d \<longleftrightarrow> d = s \<and> (\<exists>hex. list_all isLowerHex hex \<and>
        (s = ''sha256:'' @ hex \<and> length hex = 64 \<or> s = ''sha512:'' @ hex \<and> length hex = 128))) \<and>
     (ParseDigest s = Inl e \<longrightarrow> e = InvalidDigest s) \<and>
     (FromBytes H a data = Some d' \<longrightarrow>
        ParseDigest d' = Inr d' \<and> Algorithm_of d' = a \<and> Hex d' = format_hex (H a data))"
proof -
  have "ParseDigest s = Inr d \<longleftrightarrow> d = s \<and> (\<exists>hex. list_all isLowerHex hex \<and>
        (s = ''sha256:'' @ hex \<and> length hex = 64 \<or> s = ''sha512:'' @ hex \<and> length hex = 128))"
  proof -
    have "(\<exists>a n hex. (a = SHA256 \<and> n = 64 \<or> a = SHA512 \<and> n = 128) \<and> s = a @ '':'' @ hex \<and>
          length hex = n \<and> list_all isLowerHex hex) \<longleftrightarrow>
        (\<exists>hex. list_all isLowerHex hex \<and> (s = SHA256 @ '':'' @ hex \<and> length hex = 64 \<or>
          s = SHA512 @ '':'' @ hex \<and> length hex = 128))" by blast
    then show ?thesis unfolding ParseDigest_iff algorithms_Some by simp
  qed
  then show ?thesis
    using digestOf_parses [OF assms] ParseDigest_Inl by (auto simp: FromBytes_def split: if_splits)
qed

theorem digest_parser_exact_witness:
  "\<exists>d. FromBytes (\<lambda>a data. replicate (if a = SHA256 then 32 else 64) CHR ''x'') SHA256 ''layer'' = Some d \<and>
     ParseDigest d = Inr d \<and> Algorithm_of d = SHA256"
proof -
  let ?H = "\<lambda>a (data::string). replicate (if a = SHA256 then 32 else 64) CHR ''x''"
  have H: "hash_sizes ?H" by (simp add: hash_sizes_def)
  have f: "FromBytes ?H SHA256 ''layer'' = Some (digestOf ?H SHA256 ''layer'')"
    by (simp add: FromBytes_def Available_def algorithms_def)
  show ?thesis using digest_parser_exact [OF H] f by blast
qed

text \<open>C24: What becomes a file name or an object key cannot leave its directory. The hex of an accepted
  digest and an accepted upload identifier are single path components: not empty, not a dot or two
  dots, with no slash, backslash, colon or null byte; an identifier has at most 128 bytes; and a
  reference of either kind can only be made of an accepted digest.\<close>

theorem storage_names_are_safe:
  shows
    "(ParseDigest s = Inr d \<longrightarrow>
        Hex d \<noteq> [] \<and> Hex d \<noteq> ''.'' \<and> Hex d \<noteq> ''..'' \<and>
        set (Hex d) \<inter> {CHR ''/'', CHR 0x5C, CHR '':'', CHR 0x00} = {}) \<and>
     (ValidateUploadID uid = None \<longrightarrow>
        uid \<noteq> [] \<and> uid \<noteq> ''.'' \<and> uid \<noteq> ''..'' \<and> length uid \<le> 128 \<and>
        set uid \<inter> {CHR ''/'', CHR 0x5C, CHR '':'', CHR 0x00} = {}) \<and>
     (\<forall>r. NewHostedRef s = Inr r \<longleftrightarrow> ParseDigest s = Inr s \<and> hosted_digest r = s) \<and>
     (\<forall>r. NewCachedRef s = Inr r \<longleftrightarrow> ParseDigest s = Inr s \<and> cached_digest r = s)"
proof -
  have bad: "\<not> isLowerHex CHR ''/''" "\<not> isLowerHex CHR 0x5C" "\<not> isLowerHex CHR '':''" "\<not> isLowerHex CHR 0x00"
    "\<not> isLowerHex CHR ''.''" "\<not> upload_char CHR ''/''" "\<not> upload_char CHR 0x5C" "\<not> upload_char CHR '':''"
    "\<not> upload_char CHR 0x00" by code_simp+
  have digest: "Hex d \<noteq> [] \<and> Hex d \<noteq> ''.'' \<and> Hex d \<noteq> ''..'' \<and>
        set (Hex d) \<inter> {CHR ''/'', CHR 0x5C, CHR '':'', CHR 0x00} = {}" if p: "ParseDigest s = Inr d"
  proof -
    obtain a n hex where h: "algorithms a = Some n" "d = a @ '':'' @ hex" "length hex = n" "list_all isLowerHex hex"
      using p unfolding ParseDigest_iff by blast
    then have "Hex d = hex" by (simp only: Hex_def Cut_algorithm [OF h(1)]) simp
    moreover have "2 < n" using h(1) by (auto simp: algorithms_Some)
    ultimately show ?thesis using h(3,4) bad by (auto simp: list_all_iff)
  qed
  have upload: "uid \<noteq> [] \<and> uid \<noteq> ''.'' \<and> uid \<noteq> ''..'' \<and> length uid \<le> 128 \<and>
        set uid \<inter> {CHR ''/'', CHR 0x5C, CHR '':'', CHR 0x00} = {}" if "ValidateUploadID uid = None"
    using that bad by (auto simp: ValidateUploadID_def list_all_iff split: if_splits)
  have refs: "NewHostedRef s = Inr r \<longleftrightarrow> ParseDigest s = Inr s \<and> hosted_digest r = s"
    "NewCachedRef s = Inr c \<longleftrightarrow> ParseDigest s = Inr s \<and> cached_digest c = s" for r c
    using Validate_digest_None [of s]
    by (cases r; cases c; auto simp: NewHostedRef_def NewCachedRef_def split: option.splits)+
  show ?thesis using digest upload refs by blast
qed

theorem storage_names_are_safe_witness:
  "ValidateUploadID ''01H-upload_1.part'' = None \<and> length ''01H-upload_1.part'' \<le> 128 \<and>
   CHR ''/'' \<notin> set ''01H-upload_1.part''"
proof -
  have v: "ValidateUploadID ''01H-upload_1.part'' = None" by code_simp
  show ?thesis using storage_names_are_safe [of "[]" _ "''01H-upload_1.part''"] v by blast
qed

end
