(* ===== verification/Blob_Verify.thy ===== *)
theory Blob_Verify
  imports Blob_Digest
begin

text \<open>
  \<^verbatim>\<open>internal/blob/verify.go\<close>: hashing while writing, the verified copy, and the reader that withholds
  the last byte of a blob until its hash checks out.

  An \<^verbatim>\<open>io.Reader\<close> is the list of what its calls have to return: each entry is the bytes that are
  there with the error that comes with them, if any. A call with a shorter buffer takes a prefix and
  leaves the rest; past the end of the list the stream is at \<^verbatim>\<open>io.EOF\<close>.
  \<open>EOF\<close> stands for \<^verbatim>\<open>io.EOF\<close> and for every error that wraps it, which \<^verbatim>\<open>errors.Is\<close> does not tell apart.
\<close>

type_synonym source = "(string \<times> blob_error option) list"

fun src_read :: "nat \<Rightarrow> source \<Rightarrow> (string \<times> blob_error option) \<times> source" where
  "src_read k [] = (([], Some EOF), [])"
| "src_read k ((bs, e) # rest) =
    (if length bs \<le> k then ((bs, e), rest) else ((take k bs, None), (drop k bs, e) # rest))"

section \<open>Verifiers\<close>

text \<open>The state of a hash is what was written to it.\<close>

record Verifier =
  ve_expected :: string
  ve_hash :: string
  ve_size :: int

definition NewVerifier :: "string \<Rightarrow> blob_error + Verifier" where
  "NewVerifier expected =
    (case Validate_digest expected of
       Some e \<Rightarrow> Inl e
     | None \<Rightarrow> Inr \<lparr>ve_expected = expected, ve_hash = [], ve_size = 0\<rparr>)"

definition Verifier_Write :: "string \<Rightarrow> Verifier \<Rightarrow> Verifier" where
  "Verifier_Write p v = v\<lparr>ve_hash := ve_hash v @ p, ve_size := ve_size v + int (length p)\<rparr>"

definition Verifier_Digest :: "(string \<Rightarrow> string \<Rightarrow> string) \<Rightarrow> Verifier \<Rightarrow> string" where
  "Verifier_Digest H v = digestOf H (Algorithm_of (ve_expected v)) (ve_hash v)"

definition Verify :: "(string \<Rightarrow> string \<Rightarrow> string) \<Rightarrow> Verifier \<Rightarrow> blob_error option" where
  "Verify H v =
    (let actual = Verifier_Digest H v
     in if actual \<noteq> ve_expected v then Some (Mismatch (ve_expected v) actual (ve_size v)) else None)"

text \<open>\<^verbatim>\<open>io.Copy\<close> into a buffer and a verifier: the bytes up to the first error, \<^verbatim>\<open>io.EOF\<close> being none.\<close>

fun io_Copy :: "source \<Rightarrow> string \<times> blob_error option" where
  "io_Copy [] = ([], None)"
| "io_Copy ((bs, None) # rest) = (case io_Copy rest of (tail, e) \<Rightarrow> (bs @ tail, e))"
| "io_Copy ((bs, Some e) # rest) = (bs, if e = EOF then None else Some e)"

definition Copy ::
    "(string \<Rightarrow> string \<Rightarrow> string) \<Rightarrow> source \<Rightarrow> string \<Rightarrow> string \<times> int \<times> blob_error option" where
  "Copy H src expected =
    (case NewVerifier expected of
       Inl e \<Rightarrow> ([], 0, Some e)
     | Inr verifier \<Rightarrow>
         (case io_Copy src of (written, err) \<Rightarrow>
            (case err of
               Some e \<Rightarrow> (written, int (length written), Some e)
             | None \<Rightarrow> (written, int (length written), Verify H (Verifier_Write written verifier)))))"

section \<open>The verified reader\<close>

record Descriptor =
  de_Digest :: string
  de_Size :: int

text \<open>\<open>vr_hook\<close> says whether \<^verbatim>\<open>onCorrupt\<close> was given; \<open>vr_corrupt\<close> records its calls.\<close>

record verifiedReader =
  vr_src :: source
  vr_desc :: Descriptor
  vr_verifier :: Verifier
  vr_held :: char
  vr_hasHeld :: bool
  vr_done :: bool
  vr_err :: "blob_error option"
  vr_hook :: bool
  vr_corrupt :: "(Descriptor \<times> blob_error) list"

definition NewVerifiedReader :: "source \<Rightarrow> Descriptor \<Rightarrow> bool \<Rightarrow> blob_error + verifiedReader" where
  "NewVerifiedReader src desc hook =
    (case NewVerifier (de_Digest desc) of
       Inl e \<Rightarrow> Inl e
     | Inr verifier \<Rightarrow> Inr \<lparr>vr_src = src, vr_desc = desc, vr_verifier = verifier, vr_held = CHR 0x00,
         vr_hasHeld = False, vr_done = False, vr_err = None, vr_hook = hook, vr_corrupt = []\<rparr>)"

text \<open>The bytes a call delivers are the part of the buffer it reports as written.\<close>

definition finish ::
    "(string \<Rightarrow> string \<Rightarrow> string) \<Rightarrow> verifiedReader \<Rightarrow> string \<Rightarrow> (string \<times> blob_error option) \<times> verifiedReader" where
  "finish H r out =
    (case Verify H (vr_verifier r) of
       Some e \<Rightarrow>
         ((out, Some e),
          r\<lparr>vr_done := True, vr_err := Some e, vr_hasHeld := False,
            vr_corrupt := vr_corrupt r @ (if vr_hook r then [(vr_desc r, e)] else [])\<rparr>)
     | None \<Rightarrow>
         ((if vr_hasHeld r then out @ [vr_held r] else out, Some EOF),
          r\<lparr>vr_hasHeld := False, vr_done := True, vr_err := Some EOF\<rparr>))"

function Read ::
    "(string \<Rightarrow> string \<Rightarrow> string) \<Rightarrow> nat \<Rightarrow> verifiedReader \<Rightarrow> (string \<times> blob_error option) \<times> verifiedReader" where
  "Read H k r =
    (if k = 0 then (([], None), r)
     else if vr_done r then (([], vr_err r), r)
     else if vr_hasHeld r \<and> k = 1 then
       (case src_read 1 (vr_src r) of ((scratch, err), src') \<Rightarrow>
          (case scratch of
             b # _ \<Rightarrow>
               (([vr_held r], None),
                r\<lparr>vr_src := src', vr_verifier := Verifier_Write [b] (vr_verifier r), vr_held := b\<rparr>)
           | [] \<Rightarrow>
               (case err of
                  Some e \<Rightarrow>
                    if e = EOF then finish H (r\<lparr>vr_src := src'\<rparr>) []
                    else (([], Some e), r\<lparr>vr_src := src', vr_done := True, vr_err := Some e\<rparr>)
                | None \<Rightarrow> Read H k (r\<lparr>vr_src := src'\<rparr>))))
     else
       (case src_read (if vr_hasHeld r then k - 1 else k) (vr_src r) of ((bs, err), src') \<Rightarrow>
          (let r1 = r\<lparr>vr_src := src'\<rparr>;
               out = (if bs = [] then [] else (if vr_hasHeld r then [vr_held r] else []) @ butlast bs);
               r2 = (if bs = [] then r1
                     else r1\<lparr>vr_verifier := Verifier_Write bs (vr_verifier r), vr_held := last bs,
                             vr_hasHeld := True\<rparr>)
           in case err of
                Some e \<Rightarrow>
                  if e = EOF then finish H r2 out
                  else ((out, Some e), r2\<lparr>vr_done := True, vr_err := Some e\<rparr>)
              | None \<Rightarrow> if out \<noteq> [] then ((out, None), r2) else Read H k r2)))"
  by pat_completeness auto

text \<open>Every round of the loop that does not return takes an entry or a byte off the source.\<close>

definition src_measure :: "source \<Rightarrow> nat" where
  "src_measure src = length src + length (concat (map fst src))"

lemma src_read_decreases:
  assumes "src_read k src = ((bs, e), src')" "src \<noteq> []" "0 < k"
  shows "src_measure src' < src_measure src"
  using assms by (cases "(k, src)" rule: src_read.cases) (auto simp: src_measure_def split: if_splits)

lemma src_read_progress:
  "((bs, None), src') = src_read k src \<Longrightarrow> 0 < k \<Longrightarrow> src_measure src' < src_measure src"
  using src_read_decreases [of k src bs None src'] by (cases src) (simp, metis list.distinct(1))

termination Read
proof (relation "measure (\<lambda>(H, k, r). src_measure (vr_src r))")
qed (auto dest!: src_read_progress split: if_splits)

declare Read.simps [simp del]

section \<open>What the reader guarantees\<close>

text \<open>The state of a reader that has delivered \<open>d\<close>: while it runs, it has delivered everything it
  hashed but the byte it holds; once it is done, it has delivered everything exactly when that
  verified, and everything but the last byte otherwise.\<close>

definition reader_open :: "string \<Rightarrow> verifiedReader \<Rightarrow> bool" where
  "reader_open d r \<longleftrightarrow> \<not> vr_done r \<and> vr_corrupt r = [] \<and>
     ve_size (vr_verifier r) = int (length (ve_hash (vr_verifier r))) \<and>
     d @ (if vr_hasHeld r then [vr_held r] else []) = ve_hash (vr_verifier r) \<and>
     (vr_hasHeld r \<or> d = [])"

definition reader_closed :: "(string \<Rightarrow> string \<Rightarrow> string) \<Rightarrow> string \<Rightarrow> verifiedReader \<Rightarrow> bool" where
  "reader_closed H d r \<longleftrightarrow> vr_done r \<and>
     ve_size (vr_verifier r) = int (length (ve_hash (vr_verifier r))) \<and>
     (let data = ve_hash (vr_verifier r) in
       (vr_err r = Some EOF \<and> Verify H (vr_verifier r) = None \<and> d = data \<and> vr_corrupt r = []) \<or>
       (\<exists>e. vr_err r = Some e \<and> Verify H (vr_verifier r) = Some e \<and> d = butlast data \<and>
          vr_corrupt r = (if vr_hook r then [(vr_desc r, e)] else [])) \<or>
       (\<exists>e. e \<noteq> EOF \<and> vr_err r = Some e \<and> d = butlast data \<and> vr_corrupt r = []))"

lemma reader_open_butlast:
  assumes "reader_open d r"
  shows "d = butlast (ve_hash (vr_verifier r))"
    "ve_hash (vr_verifier r) = d @ (if vr_hasHeld r then [vr_held r] else [])"
proof -
  show "ve_hash (vr_verifier r) = d @ (if vr_hasHeld r then [vr_held r] else [])"
    using assms by (simp add: reader_open_def)
  then show "d = butlast (ve_hash (vr_verifier r))"
    using assms by (cases "vr_hasHeld r") (simp_all add: reader_open_def)
qed

lemma reader_open_src [simp]: "reader_open d (r\<lparr>vr_src := src\<rparr>) = reader_open d r"
  by (simp add: reader_open_def)

lemma reader_open_hold:
  assumes "reader_open d r" "bs \<noteq> []"
  shows "reader_open (d @ (if vr_hasHeld r then [vr_held r] else []) @ butlast bs)
    (r\<lparr>vr_src := src, vr_verifier := Verifier_Write bs (vr_verifier r), vr_held := last bs, vr_hasHeld := True\<rparr>)"
  using assms reader_open_butlast(2) [OF assms(1)] by (simp add: reader_open_def Verifier_Write_def)

lemma reader_closed_error:
  assumes "reader_open d r" "e \<noteq> EOF"
  shows "reader_closed H d (r\<lparr>vr_done := True, vr_err := Some e\<rparr>)"
  using assms reader_open_butlast(1) [OF assms(1)]
  by (simp add: reader_closed_def reader_open_def Let_def)

lemma finish_closed:
  assumes "reader_open (d @ out) r" "finish H r out = ((out', e), r')"
  shows "reader_closed H (d @ out') r' \<and> vr_err r' = e \<and> e \<noteq> None \<and>
    length out' \<le> length out + (if vr_hasHeld r then 1 else 0) \<and>
    vr_desc r' = vr_desc r \<and> vr_hook r' = vr_hook r \<and>
    vr_src r' = vr_src r \<and> vr_verifier r' = vr_verifier r \<and>
    (e = Some EOF \<or> e = Verify H (vr_verifier r'))"
proof (cases "Verify H (vr_verifier r)")
  case None
  then have "out' = out @ (if vr_hasHeld r then [vr_held r] else [])" "e = Some EOF"
    "r' = r\<lparr>vr_hasHeld := False, vr_done := True, vr_err := Some EOF\<rparr>"
    using assms(2) by (auto simp: finish_def)
  then show ?thesis
    using None assms(1) reader_open_butlast(2) [OF assms(1)]
    by (simp add: reader_closed_def Let_def reader_open_def)
next
  case (Some x)
  then have "out' = out" "e = Some x"
    "r' = r\<lparr>vr_done := True, vr_err := Some x, vr_hasHeld := False,
       vr_corrupt := vr_corrupt r @ (if vr_hook r then [(vr_desc r, x)] else [])\<rparr>"
    using assms(2) by (auto simp: finish_def)
  then show ?thesis
    using Some assms(1) reader_open_butlast(1) [OF assms(1)]
    by (simp add: reader_closed_def Let_def reader_open_def)
qed

text \<open>A stream that gives its bytes and then ends, in whatever pieces.\<close>

definition clean :: "source \<Rightarrow> bool" where
  "clean src \<longleftrightarrow> list_all (\<lambda>(_, e). e = None) src"

definition content_of :: "source \<Rightarrow> string" where
  "content_of src = concat (map fst src)"

lemma content_of_Nil [simp]: "content_of [] = []"
  by (simp add: content_of_def)

definition whole :: "verifiedReader \<Rightarrow> string" where
  "whole r = ve_hash (vr_verifier r) @ content_of (vr_src r)"

lemma src_read_clean:
  assumes "src_read k src = ((bs, e), src')" "clean src"
  shows "clean src' \<and> bs @ content_of src' = content_of src \<and>
    (e \<noteq> None \<longrightarrow> e = Some EOF \<and> bs = [] \<and> src' = [])"
  using assms by (cases "(k, src)" rule: src_read.cases) (auto simp: clean_def content_of_def split: if_splits)

lemma src_read_bound: "src_read k src = ((bs, e), src') \<Longrightarrow> length bs \<le> k"
  by (cases "(k, src)" rule: src_read.cases) (auto split: if_splits)


lemma Read_step:
  assumes "reader_open d r" "Read H k r = ((out, e), r')" "0 < k"
  shows "length out \<le> k \<and> vr_desc r' = vr_desc r \<and> vr_hook r' = vr_hook r \<and>
    ve_expected (vr_verifier r') = ve_expected (vr_verifier r) \<and>
    (case e of None \<Rightarrow> out \<noteq> [] \<and> reader_open (d @ out) r'
     | Some _ \<Rightarrow> reader_closed H (d @ out) r' \<and> vr_err r' = e) \<and>
    (clean (vr_src r) \<longrightarrow> clean (vr_src r') \<and> whole r' = whole r \<and>
       (e \<noteq> None \<longrightarrow> vr_src r' = [] \<and> (e = Some EOF \<or> e = Verify H (vr_verifier r'))))"
  using assms
proof (induction H k r arbitrary: d out e r' rule: Read.induct)
  case (1 H k r)
  have k: "k \<noteq> 0" and nd: "\<not> vr_done r" using 1(3,5) by (simp_all add: reader_open_def)
  show ?case
  proof (cases "vr_hasHeld r \<and> k = 1")
    case True
    obtain scratch err src' where read: "src_read 1 (vr_src r) = ((scratch, err), src')"
      by (metis prod.exhaust)
    have opn: "reader_open d (r\<lparr>vr_src := src'\<rparr>)" using 1(3) by simp
    note eq = 1(4) [unfolded Read.simps [of H k r]]
    note cl = src_read_clean [OF read]
    show ?thesis
    proof (cases scratch)
      case (Cons b bs)
      have len: "bs = []" using src_read_bound [OF read] Cons by simp
      have "out = [vr_held r]" "e = None"
        "r' = r\<lparr>vr_src := src', vr_verifier := Verifier_Write [b] (vr_verifier r), vr_held := b\<rparr>"
        using eq True k nd read Cons by auto
      then show ?thesis
        using 1(3) True reader_open_butlast(2) [OF 1(3)] cl Cons len
        by (simp add: reader_open_def Verifier_Write_def whole_def)
    next
      case Nil
      show ?thesis
      proof (cases err)
        case None
        then have "Read H k (r\<lparr>vr_src := src'\<rparr>) = ((out, e), r')" using eq True k nd read Nil by simp
        from 1(1) [OF k nd True read [symmetric] refl Nil None opn this 1(5)] show ?thesis
          using cl Nil by (simp add: whole_def)
      next
        case (Some x)
        show ?thesis
        proof (cases "x = EOF")
          case True
          then have "finish H (r\<lparr>vr_src := src'\<rparr>) [] = ((out, e), r')"
            using eq \<open>vr_hasHeld r \<and> k = 1\<close> k nd read Nil Some by simp
          from finish_closed [OF _ this, of d] opn show ?thesis
            using 1(5) cl Nil Some by (auto simp: whole_def split: option.splits if_splits)
        next
          case False
          then have "out = []" "e = Some x" "r' = r\<lparr>vr_src := src', vr_done := True, vr_err := Some x\<rparr>"
            using eq \<open>vr_hasHeld r \<and> k = 1\<close> k nd read Nil Some by auto
          then show ?thesis using reader_closed_error [OF opn False] cl False Some by auto
        qed
      qed
    qed
  next
    case False
    obtain bs err src' where read: "src_read (if vr_hasHeld r then k - 1 else k) (vr_src r) = ((bs, err), src')"
      by (metis prod.exhaust)
    define r1 where "r1 = r\<lparr>vr_src := src'\<rparr>"
    define o1 where "o1 = (if bs = [] then [] else (if vr_hasHeld r then [vr_held r] else []) @ butlast bs)"
    define r2 where "r2 = (if bs = [] then r1 else r1\<lparr>vr_verifier := Verifier_Write bs (vr_verifier r),
        vr_held := last bs, vr_hasHeld := True\<rparr>)"
    have opn: "reader_open (d @ o1) r2"
      using 1(3) reader_open_hold [OF 1(3), of bs src'] by (simp add: o1_def r1_def r2_def)
    have len: "length o1 + (if vr_hasHeld r2 then 1 else 0) \<le> k"
      using src_read_bound [OF read] False k by (auto simp: o1_def r2_def r1_def)
    note cl = src_read_clean [OF read]
    have wh: "clean (vr_src r) \<longrightarrow> whole r2 = whole r" "vr_src r2 = src'"
      using cl by (auto simp: whole_def r2_def r1_def Verifier_Write_def)
    have same: "vr_desc r2 = vr_desc r" "vr_hook r2 = vr_hook r" "ve_expected (vr_verifier r2) = ve_expected (vr_verifier r)"
      by (simp_all add: r2_def r1_def Verifier_Write_def)
    have eq: "((out, e), r') = (case err of
         Some x \<Rightarrow> if x = EOF then finish H r2 o1 else ((o1, Some x), r2\<lparr>vr_done := True, vr_err := Some x\<rparr>)
       | None \<Rightarrow> if o1 \<noteq> [] then ((o1, None), r2) else Read H k r2)"
      using 1(4) unfolding Read.simps [of H k r] if_not_P [OF k] if_not_P [OF nd] if_not_P [OF False] read
        prod.case Let_def r1_def [symmetric] o1_def [symmetric] r2_def [symmetric]
      by (rule sym)
    show ?thesis
    proof (cases err)
      case None
      show ?thesis
      proof (cases "o1 = []")
        case True
        then have rec: "Read H k r2 = ((out, e), r')" using eq None by simp
        have "reader_open d r2" using opn True by simp
        from 1(2) [OF k nd False read [symmetric] refl r1_def o1_def r2_def None] True this rec 1(5)
        show ?thesis using wh cl by (simp add: same)
      qed (use eq None opn len same wh cl in simp)
    next
      case (Some x)
      show ?thesis
      proof (cases "x = EOF")
        case True
        then have "finish H r2 o1 = ((out, e), r')" using eq Some by simp
        from finish_closed [OF opn this] show ?thesis
          using len same wh cl Some by (auto simp: whole_def split: option.splits if_splits)
      next
        case False
        then have "out = o1" "e = Some x" "r' = r2\<lparr>vr_done := True, vr_err := Some x\<rparr>"
          using eq Some by auto
        then show ?thesis using reader_closed_error [OF opn False] len same cl False Some by auto
      qed
    qed
  qed
qed

text \<open>A client reads with buffers of the sizes it likes until it is told to stop.\<close>

fun read_all ::
    "(string \<Rightarrow> string \<Rightarrow> string) \<Rightarrow> nat list \<Rightarrow> verifiedReader \<Rightarrow> (string \<times> blob_error option) \<times> verifiedReader" where
  "read_all H [] r = (([], None), r)"
| "read_all H (k # ks) r =
    (case Read H k r of
       ((out, Some e), r') \<Rightarrow> ((out, Some e), r')
     | ((out, None), r') \<Rightarrow> (case read_all H ks r' of ((rest, e), r'') \<Rightarrow> ((out @ rest, e), r'')))"

lemma read_all_step:
  assumes "reader_open d r" "read_all H ks r = ((out, e), r')" "0 \<notin> set ks"
  shows "vr_desc r' = vr_desc r \<and> vr_hook r' = vr_hook r \<and>
    ve_expected (vr_verifier r') = ve_expected (vr_verifier r) \<and>
    (case e of None \<Rightarrow> length ks \<le> length out \<and> reader_open (d @ out) r'
     | Some _ \<Rightarrow> reader_closed H (d @ out) r' \<and> vr_err r' = e) \<and>
    (clean (vr_src r) \<longrightarrow> clean (vr_src r') \<and> whole r' = whole r \<and>
       (e \<noteq> None \<longrightarrow> vr_src r' = [] \<and> (e = Some EOF \<or> e = Verify H (vr_verifier r'))))"
  using assms
proof (induction ks arbitrary: d r out)
  case (Cons k ks)
  obtain o1 e1 r1 where read: "Read H k r = ((o1, e1), r1)" by (metis prod.exhaust)
  have "0 < k" using Cons.prems(3) by simp
  note step = Read_step [OF Cons.prems(1) read this]
  show ?case
  proof (cases e1)
    case None
    obtain o2 where rest: "read_all H ks r1 = ((o2, e), r')" "out = o1 @ o2"
      using Cons.prems(2) read None by (auto split: prod.splits)
    have "reader_open (d @ o1) r1" "o1 \<noteq> []" using step None by auto
    note IH = Cons.IH [OF this(1) rest(1)]
    have "length o1 \<ge> 1" using \<open>o1 \<noteq> []\<close> by (cases o1) auto
    then show ?thesis using IH step None rest(2) Cons.prems(3) by (auto split: option.splits)
  next
    case (Some x)
    then have same: "out = o1" "e = Some x" "r' = r1" using Cons.prems(2) read by auto
    show ?thesis using step unfolding same Some option.case by blast
  qed
qed simp

lemma NewVerifiedReader_open:
  assumes "NewVerifiedReader src desc hook = Inr r"
  shows "reader_open [] r" "vr_src r = src" "vr_desc r = desc" "vr_hook r = hook"
    "ve_expected (vr_verifier r) = de_Digest desc" "whole r = content_of src"
  using assms
  by (auto simp: NewVerifiedReader_def NewVerifier_def reader_open_def whole_def split: option.splits)

lemma Verify_None: "Verify H v = None \<longleftrightarrow> digestOf H (Algorithm_of (ve_expected v)) (ve_hash v) = ve_expected v"
  by (simp add: Verify_def Verifier_Digest_def Let_def)

lemma reader_closed_outcome:
  assumes "reader_closed H out r" "vr_err r = Some x" "vr_hook r = hook" "vr_desc r = desc"
    "ve_expected (vr_verifier r) = expected"
  shows "(x = EOF \<and> digestOf H (Algorithm_of expected) out = expected \<and>
      out = ve_hash (vr_verifier r) \<and> vr_corrupt r = []) \<or>
    (x \<noteq> EOF \<and> out = butlast (ve_hash (vr_verifier r)) \<and>
      (vr_corrupt r = [] \<or> vr_corrupt r = [(desc, x)] \<and>
        digestOf H (Algorithm_of expected) (ve_hash (vr_verifier r)) \<noteq> expected))"
proof -
  have "Verify H (vr_verifier r) \<noteq> Some EOF" by (simp add: Verify_def Let_def)
  moreover have "Verify H (vr_verifier r) = None \<longleftrightarrow>
      digestOf H (Algorithm_of expected) (ve_hash (vr_verifier r)) = expected"
    using assms(5) by (simp add: Verify_None)
  moreover have "(x = EOF \<and> Verify H (vr_verifier r) = None \<and> out = ve_hash (vr_verifier r) \<and> vr_corrupt r = []) \<or>
      (Verify H (vr_verifier r) = Some x \<and> out = butlast (ve_hash (vr_verifier r)) \<and>
        vr_corrupt r = (if hook then [(desc, x)] else [])) \<or>
      (x \<noteq> EOF \<and> out = butlast (ve_hash (vr_verifier r)) \<and> vr_corrupt r = [])"
    using assms(1) unfolding reader_closed_def Let_def assms(2-4) option.inject by simp
  ultimately show ?thesis by (elim disjE) (simp_all split: if_splits)
qed

text \<open>C21: Corrupt content is never handed over whole. Whatever the stream does and whatever buffers the
  client reads with: if a client is told it reached the end, what it got hashes to the digest asked
  for; if it is told anything else, it got everything that was read but the last byte, so a blob that
  does not match ends one byte short, with the mismatch error and one call of the hook. As long as
  no error is reported every read delivers something.\<close>

theorem verified_reader_withholds:
  assumes "NewVerifiedReader src desc hook = Inr r" "0 \<notin> set ks"
    and "read_all H ks r = ((out, e), r')"
  shows
    "(e = Some EOF \<longrightarrow> digestOf H (Algorithm_of (de_Digest desc)) out = de_Digest desc \<and>
        out = ve_hash (vr_verifier r')) \<and>
     (e \<noteq> Some EOF \<longrightarrow> out = butlast (ve_hash (vr_verifier r'))) \<and>
     (vr_corrupt r' \<noteq> [] \<longrightarrow> (\<exists>x. e = Some x \<and> vr_corrupt r' = [(desc, x)] \<and>
        digestOf H (Algorithm_of (de_Digest desc)) (ve_hash (vr_verifier r')) \<noteq> de_Digest desc)) \<and>
     (e = None \<longrightarrow> length ks \<le> length out)"
proof -
  note new = NewVerifiedReader_open [OF assms(1)]
  note run = read_all_step [OF new(1) assms(3,2)]
  show ?thesis
  proof (cases e)
    case None
    then have "reader_open out r'" "length ks \<le> length out" using run by auto
    then show ?thesis
      using None reader_open_butlast(1) [of out r'] by (simp add: reader_open_def)
  next
    case (Some x)
    then have "reader_closed H out r'" "vr_err r' = Some x" "vr_hook r' = hook" "vr_desc r' = desc"
        "ve_expected (vr_verifier r') = de_Digest desc"
      using run new by simp_all
    from reader_closed_outcome [OF this] Some show ?thesis by auto
  qed
qed

lemma reads_to_the_end:
  assumes "NewVerifiedReader src desc hook = Inr r" "0 \<notin> set ks" "clean src"
    and "length (content_of src) < length ks"
  shows "\<exists>out e r'. read_all H ks r = ((out, Some e), r') \<and>
    (if digestOf H (Algorithm_of (de_Digest desc)) (content_of src) = de_Digest desc
     then e = EOF \<and> out = content_of src
     else e = Mismatch (de_Digest desc) (digestOf H (Algorithm_of (de_Digest desc)) (content_of src))
            (int (length (content_of src))) \<and> out = butlast (content_of src))"
proof -
  note new = NewVerifiedReader_open [OF assms(1)]
  obtain out e r' where read: "read_all H ks r = ((out, e), r')" by (metis prod.exhaust)
  note run = read_all_step [OF new(1) read assms(2)]
  have wh: "whole r' = content_of src" using run new assms(3) by simp
  have "e \<noteq> None"
  proof
    assume "e = None"
    then have "reader_open out r'" "length ks \<le> length out" using run by auto
    moreover have "length out \<le> length (whole r')"
      using reader_open_butlast(1) [OF calculation(1)] by (simp add: whole_def)
    ultimately show False using wh assms(4) by simp
  qed
  then obtain x where x: "e = Some x" by blast
  have src: "vr_src r' = []" "x = EOF \<or> Verify H (vr_verifier r') = Some x"
    using run new assms(3) x by auto
  then have hash: "ve_hash (vr_verifier r') = content_of src" using wh by (simp add: whole_def)
  have closed: "reader_closed H out r'" "vr_err r' = Some x" using run x by auto
  have exp: "ve_expected (vr_verifier r') = de_Digest desc" using run new by simp
  have size: "ve_size (vr_verifier r') = int (length (content_of src))"
    using closed(1) hash by (simp add: reader_closed_def)
  show ?thesis
    using read x closed src(2) hash exp size
    by (auto simp: reader_closed_def Let_def Verify_def Verifier_Digest_def split: if_splits)
qed

text \<open>C22: Good content comes back whole. When a stream gives, in any pieces, bytes that hash to the
  digest and then ends, a client that keeps reading with any non-empty buffers is told it reached the
  end after at most one read more than there are bytes, and has then read exactly those bytes; when
  they do not hash to it, the client is told so within the same number of reads and the last byte
  never arrives.\<close>

theorem verified_reader_delivers:
  assumes "NewVerifiedReader src desc hook = Inr r" "0 \<notin> set ks" "clean src"
    and "length (content_of src) < length ks"
  shows "\<exists>out e r'. read_all H ks r = ((out, Some e), r') \<and>
    (if digestOf H (Algorithm_of (de_Digest desc)) (content_of src) = de_Digest desc
     then e = EOF \<and> out = content_of src
     else e = Mismatch (de_Digest desc) (digestOf H (Algorithm_of (de_Digest desc)) (content_of src))
            (int (length (content_of src))) \<and> out = butlast (content_of src))"
  using reads_to_the_end [OF assms] .

section \<open>A concrete stream\<close>

text \<open>A stand-in for the hash with the sizes of the real ones, and a stream of two pieces.\<close>

definition sample_hash :: "string \<Rightarrow> string \<Rightarrow> string" where
  "sample_hash algo data =
    replicate (if algo = SHA512 then 63 else 31) (CHR 0x00) @ [char_of (length data)]"

definition sample_desc :: Descriptor where
  "sample_desc =
    \<lparr>de_Digest = ''sha256:0000000000000000000000000000000000000000000000000000000000000003'', de_Size = 3\<rparr>"

definition sample_reader :: "source \<Rightarrow> verifiedReader" where
  "sample_reader src = projr (NewVerifiedReader src sample_desc True)"

lemma sample_hash_sizes: "hash_sizes sample_hash"
  by (simp add: hash_sizes_def sample_hash_def)

lemma sample_reader_new: "NewVerifiedReader src sample_desc True = Inr (sample_reader src)"
proof -
  have "Validate_digest (de_Digest sample_desc) = None" by code_simp
  then show ?thesis by (simp add: sample_reader_def NewVerifiedReader_def NewVerifier_def)
qed

theorem verified_reader_withholds_witness:
  "\<exists>out r'. read_all sample_hash [1, 3, 2, 4] (sample_reader [(''ab'', None), (''cd'', None)]) =
       ((out, Some (Mismatch (de_Digest sample_desc) (digestOf sample_hash SHA256 ''abcd'') 4)), r') \<and>
     out = butlast (ve_hash (vr_verifier r')) \<and> length out = 3"
proof -
  let ?r = "sample_reader [(''ab'', None), (''cd'', None)]"
  obtain out e r' where run: "read_all sample_hash [1, 3, 2, 4] ?r = ((out, e), r')"
    by (metis prod.exhaust)
  have "fst (read_all sample_hash [1, 3, 2, 4] ?r) =
      (''abc'', Some (Mismatch (de_Digest sample_desc) (digestOf sample_hash SHA256 ''abcd'') 4))"
    by code_simp
  then have e: "out = ''abc''"
      "e = Some (Mismatch (de_Digest sample_desc) (digestOf sample_hash SHA256 ''abcd'') 4)"
    using run by simp_all
  have "out = butlast (ve_hash (vr_verifier r'))"
    using verified_reader_withholds [OF sample_reader_new _ run] e(2) by simp
  then show ?thesis using run e by (metis length_Cons list.size(3) numeral_3_eq_3)
qed

theorem verified_reader_delivers_witness:
  "\<exists>r'. read_all sample_hash [1, 2, 1, 1] (sample_reader [(''ab'', None), (''c'', None)]) =
     ((''abc'', Some EOF), r')"
proof -
  let ?src = "[(''ab'', None), (''c'', None)] :: source"
  have src: "clean ?src" "content_of ?src = ''abc''" by (simp_all add: clean_def content_of_def)
  have alg: "digestOf sample_hash (Algorithm_of (de_Digest sample_desc)) ''abc'' = de_Digest sample_desc"
    by code_simp
  show ?thesis
    using verified_reader_delivers [OF sample_reader_new _ src(1), of "[1, 2, 1, 1]" sample_hash] src(2) alg
    by auto
qed

end
