(* ===== verification/Blob_Memory.thy ===== *)
theory Blob_Memory
  imports Blob_Verify
begin

text \<open>
  \<^verbatim>\<open>internal/blob/memory/memory.go\<close>, the reference blob store: content under its digest and resumable
  upload sessions.

  A session is a pointer in the code: the store registers it under its identifier while callers keep
  using the pointer they were given. \<open>bs_heap\<close> holds every session ever made, and a pointer is its
  position there, so what a stale pointer does to a store is part of the model.
\<close>

section \<open>The store\<close>

record session =
  se_id :: string
  se_buf :: string
  se_closed :: bool

record blob_Store =
  bs_blobs :: "(string, string) fmap"
  bs_uploads :: "(string, nat) fmap"
  bs_heap :: "session list"
  bs_onCorrupt :: bool

definition New_blobs :: "bool \<Rightarrow> blob_Store" where
  "New_blobs onCorrupt = \<lparr>bs_blobs = fmempty, bs_uploads = fmempty, bs_heap = [], bs_onCorrupt = onCorrupt\<rparr>"

text \<open>\<^verbatim>\<open>bytes.NewReader\<close>.\<close>

definition bytes_reader :: "string \<Rightarrow> source" where
  "bytes_reader data = (if data = [] then [] else [(data, None)])"

definition Put ::
    "ctx_err option \<Rightarrow> (string \<Rightarrow> string \<Rightarrow> string) \<Rightarrow> string \<Rightarrow> source \<Rightarrow> blob_Store \<Rightarrow> blob_error option \<times> blob_Store" where
  "Put ctx H expected r s =
    (case ctx of
       Some e \<Rightarrow> (Some (BlobCtx e), s)
     | None \<Rightarrow>
         (case Validate_digest expected of
            Some e \<Rightarrow> (Some e, s)
          | None \<Rightarrow>
              (case Copy H r expected of
                 (_, _, Some e) \<Rightarrow> (Some e, s)
               | (buf, _, None) \<Rightarrow>
                   if fmlookup (bs_blobs s) expected \<noteq> None then (None, s)
                   else (None, s\<lparr>bs_blobs := fmupd expected buf (bs_blobs s)\<rparr>))))"

definition Get :: "ctx_err option \<Rightarrow> string \<Rightarrow> blob_Store \<Rightarrow> blob_error + verifiedReader" where
  "Get ctx digest s =
    (case ctx of
       Some e \<Rightarrow> Inl (BlobCtx e)
     | None \<Rightarrow>
         (case Validate_digest digest of
            Some e \<Rightarrow> Inl e
          | None \<Rightarrow>
              (case fmlookup (bs_blobs s) digest of
                 None \<Rightarrow> Inl (BlobNotFound ''blob'' digest)
               | Some data \<Rightarrow>
                   NewVerifiedReader (bytes_reader data)
                     \<lparr>de_Digest = digest, de_Size = int (length data)\<rparr> (bs_onCorrupt s))))"

definition Stat :: "ctx_err option \<Rightarrow> string \<Rightarrow> blob_Store \<Rightarrow> blob_error + Descriptor" where
  "Stat ctx digest s =
    (case ctx of
       Some e \<Rightarrow> Inl (BlobCtx e)
     | None \<Rightarrow>
         (case Validate_digest digest of
            Some e \<Rightarrow> Inl e
          | None \<Rightarrow>
              (case fmlookup (bs_blobs s) digest of
                 None \<Rightarrow> Inl (BlobNotFound ''blob'' digest)
               | Some data \<Rightarrow> Inr \<lparr>de_Digest = digest, de_Size = int (length data)\<rparr>)))"

definition Delete_blob :: "ctx_err option \<Rightarrow> string \<Rightarrow> blob_Store \<Rightarrow> blob_error option \<times> blob_Store" where
  "Delete_blob ctx digest s =
    (case ctx of
       Some e \<Rightarrow> (Some (BlobCtx e), s)
     | None \<Rightarrow>
         (case Validate_digest digest of
            Some e \<Rightarrow> (Some e, s)
          | None \<Rightarrow>
              if fmlookup (bs_blobs s) digest = None then (Some (BlobNotFound ''blob'' digest), s)
              else (None, s\<lparr>bs_blobs := fmdrop digest (bs_blobs s)\<rparr>)))"

text \<open>The callback works on a state of the caller's and has errors of the caller's: the walk ends with
  \<^term>\<open>Inl\<close> of an error of its own or \<^term>\<open>Inr\<close> of the callback's. Go leaves the order in which a map
  is ranged over open: \<open>order\<close> is the one this call happens to use, and \<open>ctx\<close> what the context reports
  before the walk and before each call.\<close>

fun walk_loop ::
    "(nat \<Rightarrow> ctx_err option) \<Rightarrow> nat \<Rightarrow> (Descriptor \<Rightarrow> 'w \<Rightarrow> 'e option \<times> 'w) \<Rightarrow> Descriptor list \<Rightarrow> 'w \<Rightarrow>
     (blob_error + 'e) option \<times> 'w" where
  "walk_loop ctx i fn [] w = (None, w)"
| "walk_loop ctx i fn (desc # descriptors) w =
    (case ctx i of
       Some e \<Rightarrow> (Some (Inl (BlobCtx e)), w)
     | None \<Rightarrow>
         (case fn desc w of
            (Some e, w') \<Rightarrow> (Some (Inr e), w')
          | (None, w') \<Rightarrow> walk_loop ctx (Suc i) fn descriptors w'))"

definition Walk ::
    "(nat \<Rightarrow> ctx_err option) \<Rightarrow> string list \<Rightarrow> (Descriptor \<Rightarrow> 'w \<Rightarrow> 'e option \<times> 'w) \<Rightarrow> blob_Store \<Rightarrow> 'w \<Rightarrow>
     (blob_error + 'e) option \<times> 'w" where
  "Walk ctx order fn s w =
    (case ctx 0 of
       Some e \<Rightarrow> (Some (Inl (BlobCtx e)), w)
     | None \<Rightarrow>
         walk_loop ctx 1 fn
           (map (\<lambda>digest. \<lparr>de_Digest = digest, de_Size = int (length (the (fmlookup (bs_blobs s) digest)))\<rparr>) order) w)"

section \<open>Upload sessions\<close>

definition CreateUpload_blob :: "ctx_err option \<Rightarrow> string \<Rightarrow> blob_Store \<Rightarrow> (blob_error + nat) \<times> blob_Store" where
  "CreateUpload_blob ctx uid s =
    (case ctx of
       Some e \<Rightarrow> (Inl (BlobCtx e), s)
     | None \<Rightarrow>
         if uid = [] then (Inl (InvalidArgument ''id''), s)
         else if fmlookup (bs_uploads s) uid \<noteq> None then (Inl (InvalidArgument ''id''), s)
         else
           (let upload = length (bs_heap s)
            in (Inr upload,
                s\<lparr>bs_heap := bs_heap s @ [\<lparr>se_id = uid, se_buf = [], se_closed = False\<rparr>],
                  bs_uploads := fmupd uid upload (bs_uploads s)\<rparr>)))"

definition OpenUpload :: "ctx_err option \<Rightarrow> string \<Rightarrow> blob_Store \<Rightarrow> blob_error + nat" where
  "OpenUpload ctx uid s =
    (case ctx of
       Some e \<Rightarrow> Inl (BlobCtx e)
     | None \<Rightarrow>
         (case fmlookup (bs_uploads s) uid of
            None \<Rightarrow> Inl (BlobNotFound ''upload'' uid)
          | Some upload \<Rightarrow> Inr upload))"

definition ID_session :: "nat \<Rightarrow> blob_Store \<Rightarrow> string" where
  "ID_session u s = se_id (bs_heap s ! u)"

definition Offset :: "nat \<Rightarrow> blob_Store \<Rightarrow> int" where
  "Offset u s = int (length (se_buf (bs_heap s ! u)))"

definition Write_session ::
    "ctx_err option \<Rightarrow> nat \<Rightarrow> source \<Rightarrow> blob_Store \<Rightarrow> (int \<times> blob_error option) \<times> blob_Store" where
  "Write_session ctx u r s =
    (case ctx of
       Some e \<Rightarrow> ((0, Some (BlobCtx e)), s)
     | None \<Rightarrow>
         (let se = bs_heap s ! u
          in if se_closed se then ((0, Some (BlobNotFound ''upload'' (se_id se))), s)
             else
               (case io_Copy r of (chunk, err) \<Rightarrow>
                  (let buf = se_buf se @ chunk
                   in ((int (length buf), err), s\<lparr>bs_heap := (bs_heap s)[u := se\<lparr>se_buf := buf\<rparr>]\<rparr>)))))"

definition discard :: "nat \<Rightarrow> blob_Store \<Rightarrow> blob_Store" where
  "discard u s =
    (let se = bs_heap s ! u
     in s\<lparr>bs_uploads := fmdrop (se_id se) (bs_uploads s),
          bs_heap := (bs_heap s)[u := se\<lparr>se_closed := True, se_buf := []\<rparr>]\<rparr>)"

definition Commit ::
    "ctx_err option \<Rightarrow> (string \<Rightarrow> string \<Rightarrow> string) \<Rightarrow> nat \<Rightarrow> string \<Rightarrow> blob_Store \<Rightarrow>
     (blob_error + Descriptor) \<times> blob_Store" where
  "Commit ctx H u expected s =
    (case ctx of
       Some e \<Rightarrow> (Inl (BlobCtx e), s)
     | None \<Rightarrow>
         (let se = bs_heap s ! u
          in if se_closed se then (Inl (BlobNotFound ''upload'' (se_id se)), s)
             else
               (case NewVerifier expected of
                  Inl e \<Rightarrow> (Inl e, s)
                | Inr verifier \<Rightarrow>
                    (case Verify H (Verifier_Write (se_buf se) verifier) of
                       Some e \<Rightarrow> (Inl e, discard u s)
                     | None \<Rightarrow>
                         (Inr \<lparr>de_Digest = expected, de_Size = int (length (se_buf se))\<rparr>,
                          s\<lparr>bs_blobs := (if fmlookup (bs_blobs s) expected = None
                                         then fmupd expected (se_buf se) (bs_blobs s) else bs_blobs s),
                            bs_uploads := fmdrop (se_id se) (bs_uploads s),
                            bs_heap := (bs_heap s)[u := se\<lparr>se_closed := True, se_buf := []\<rparr>]\<rparr>)))))"

definition Cancel :: "ctx_err option \<Rightarrow> nat \<Rightarrow> blob_Store \<Rightarrow> blob_error option \<times> blob_Store" where
  "Cancel ctx u s =
    (case ctx of
       Some e \<Rightarrow> (Some (BlobCtx e), s)
     | None \<Rightarrow> (None, discard u s))"

section \<open>Sequences of calls\<close>

text \<open>The calls that change a store. A call through a pointer nobody was given is none.\<close>

datatype blob_op =
    OpPut "ctx_err option" string source
  | OpDelete "ctx_err option" string
  | OpCreate "ctx_err option" string
  | OpWrite "ctx_err option" nat source
  | OpCommit "ctx_err option" nat string
  | OpCancel "ctx_err option" nat

fun exec_op :: "(string \<Rightarrow> string \<Rightarrow> string) \<Rightarrow> blob_op \<Rightarrow> blob_Store \<Rightarrow> blob_Store" where
  "exec_op H (OpPut ctx d src) s = snd (Put ctx H d src s)"
| "exec_op H (OpDelete ctx d) s = snd (Delete_blob ctx d s)"
| "exec_op H (OpCreate ctx uid) s = snd (CreateUpload_blob ctx uid s)"
| "exec_op H (OpWrite ctx u src) s = (if u < length (bs_heap s) then snd (Write_session ctx u src s) else s)"
| "exec_op H (OpCommit ctx u d) s = (if u < length (bs_heap s) then snd (Commit ctx H u d s) else s)"
| "exec_op H (OpCancel ctx u) s = (if u < length (bs_heap s) then snd (Cancel ctx u s) else s)"

abbreviation exec_ops :: "(string \<Rightarrow> string \<Rightarrow> string) \<Rightarrow> blob_op list \<Rightarrow> blob_Store \<Rightarrow> blob_Store" where
  "exec_ops H ops s \<equiv> fold (exec_op H) ops s"

section \<open>Content\<close>

text \<open>Content is only ever stored under the digest it hashes to.\<close>

definition addressed :: "(string \<Rightarrow> string \<Rightarrow> string) \<Rightarrow> string \<Rightarrow> string \<Rightarrow> bool" where
  "addressed H d data \<longleftrightarrow> Validate_digest d = None \<and> digestOf H (Algorithm_of d) data = d"

definition content_ok :: "(string \<Rightarrow> string \<Rightarrow> string) \<Rightarrow> blob_Store \<Rightarrow> bool" where
  "content_ok H s \<longleftrightarrow> (\<forall>d data. fmlookup (bs_blobs s) d = Some data \<longrightarrow> addressed H d data)"

lemma content_ok_upd:
  "content_ok H s \<Longrightarrow> addressed H d data \<Longrightarrow> bs_blobs s' = fmupd d data (bs_blobs s) \<Longrightarrow> content_ok H s'"
  by (simp add: content_ok_def)

lemma Copy_None:
  "Copy H r d = (buf, n, None) \<longleftrightarrow>
     io_Copy r = (buf, None) \<and> addressed H d buf \<and> n = int (length buf)"
  by (auto simp: Copy_def NewVerifier_def Verify_None Verifier_Write_def addressed_def
      split: option.splits prod.splits sum.splits)

lemma Commit_verified:
  "NewVerifier d = Inr v \<Longrightarrow> Verify H (Verifier_Write buf v) = None \<longleftrightarrow> addressed H d buf"
  by (auto simp: NewVerifier_def Verify_None Verifier_Write_def addressed_def split: option.splits)

lemma Put_blobs:
  "bs_blobs (snd (Put ctx H d r s)) =
    (if ctx = None \<and> fmlookup (bs_blobs s) d = None \<and> snd (io_Copy r) = None \<and> addressed H d (fst (io_Copy r))
     then fmupd d (fst (io_Copy r)) (bs_blobs s) else bs_blobs s)"
proof (cases "ctx = None \<and> Validate_digest d = None")
  case True
  obtain buf n e where copy: "Copy H r d = (buf, n, e)" by (metis prod.exhaust)
  show ?thesis
  proof (cases e)
    case None
    then show ?thesis using True copy Copy_None [of H r d buf n] by (auto simp: Put_def)
  next
    case (Some x)
    then have "\<not> (snd (io_Copy r) = None \<and> addressed H d (fst (io_Copy r)))"
      using copy Copy_None [of H r d "fst (io_Copy r)"] by (metis option.distinct(1) prod.collapse prod.inject)
    then show ?thesis using True copy Some by (auto simp: Put_def)
  qed
next
  case False
  then show ?thesis by (auto simp: Put_def addressed_def split: option.splits)
qed

lemma Commit_blobs:
  "bs_blobs (snd (Commit ctx H u d s)) =
    (if ctx = None \<and> \<not> se_closed (bs_heap s ! u) \<and> fmlookup (bs_blobs s) d = None \<and>
        addressed H d (se_buf (bs_heap s ! u))
     then fmupd d (se_buf (bs_heap s ! u)) (bs_blobs s) else bs_blobs s)"
proof (cases "NewVerifier d")
  case (Inl e)
  then have "\<not> addressed H d (se_buf (bs_heap s ! u))"
    by (auto simp: NewVerifier_def addressed_def split: option.splits)
  then show ?thesis using Inl by (simp add: Commit_def Let_def split: option.split)
next
  case (Inr v)
  show ?thesis
  proof (cases "Verify H (Verifier_Write (se_buf (bs_heap s ! u)) v)")
    case None
    then have "addressed H d (se_buf (bs_heap s ! u))" using Commit_verified [OF Inr, of H "se_buf (bs_heap s ! u)"] by simp
    then show ?thesis using Inr None by (simp add: Commit_def Let_def split: option.split)
  next
    case (Some e)
    then have "\<not> addressed H d (se_buf (bs_heap s ! u))" using Commit_verified [OF Inr, of H "se_buf (bs_heap s ! u)"] by simp
    then show ?thesis using Inr Some by (simp add: Commit_def discard_def Let_def split: option.split)
  qed
qed

lemma Delete_blobs:
  "bs_blobs (snd (Delete_blob ctx d s)) =
    (if ctx = None \<and> Validate_digest d = None then fmdrop d (bs_blobs s) else bs_blobs s)"
  by (auto simp: Delete_blob_def split: option.split intro!: fmap_ext)

lemma other_blobs [simp]:
  "bs_blobs (snd (CreateUpload_blob ctx uid s)) = bs_blobs s"
  "bs_blobs (snd (Write_session ctx u src s)) = bs_blobs s"
  "bs_blobs (snd (Cancel ctx u s)) = bs_blobs s"
  by (simp_all add: CreateUpload_blob_def Write_session_def Cancel_def discard_def Let_def
      split: option.split prod.split)

lemma exec_op_content: "content_ok H s \<Longrightarrow> content_ok H (exec_op H op s)"
  by (cases op) (auto simp: content_ok_def Put_blobs Commit_blobs Delete_blobs split: if_splits)

lemma exec_ops_content: "content_ok H s \<Longrightarrow> content_ok H (exec_ops H ops s)"
  by (induction ops arbitrary: s) (simp_all add: exec_op_content)

lemma New_content: "content_ok H (New_blobs hook)"
  by (simp add: content_ok_def New_blobs_def)

lemma exec_op_keeps:
  assumes "fmlookup (bs_blobs s) d = Some data" "\<forall>ctx. op \<noteq> OpDelete ctx d"
  shows "fmlookup (bs_blobs (exec_op H op s)) d = Some data"
  using assms by (cases op) (auto simp: Put_blobs Commit_blobs Delete_blobs)

lemma exec_ops_keeps:
  assumes "fmlookup (bs_blobs s) d = Some data" "\<forall>ctx. OpDelete ctx d \<notin> set ops"
  shows "fmlookup (bs_blobs (exec_ops H ops s)) d = Some data"
  using assms
proof (induction ops arbitrary: s)
  case (Cons op ops)
  then have "fmlookup (bs_blobs (exec_op H op s)) d = Some data" by (intro exec_op_keeps) auto
  then show ?case using Cons by simp
qed simp

section \<open>Serving what was stored\<close>

lemma bytes_reader_clean [simp]: "clean (bytes_reader data)" "content_of (bytes_reader data) = data"
  by (simp_all add: bytes_reader_def clean_def content_of_def)

lemma Get_stored:
  assumes "fmlookup (bs_blobs s) d = Some data" "addressed H d data"
  shows "\<exists>r. Get None d s = Inr r \<and>
    Stat None d s = Inr \<lparr>de_Digest = d, de_Size = int (length data)\<rparr> \<and>
    (\<forall>ks. 0 \<notin> set ks \<and> length data < length ks \<longrightarrow> (\<exists>r'. read_all H ks r = ((data, Some EOF), r')))"
proof -
  let ?desc = "\<lparr>de_Digest = d, de_Size = int (length data)\<rparr>"
  have "Validate_digest d = None" and eq: "digestOf H (Algorithm_of d) data = d"
    using assms(2) by (simp_all add: addressed_def)
  then obtain r where r: "NewVerifiedReader (bytes_reader data) ?desc (bs_onCorrupt s) = Inr r"
    "Get None d s = Inr r" "Stat None d s = Inr ?desc"
    using assms(1) by (simp add: Get_def Stat_def NewVerifiedReader_def NewVerifier_def)
  have "\<exists>r'. read_all H ks r = ((data, Some EOF), r')" if "0 \<notin> set ks" "length data < length ks" for ks
    using reads_to_the_end [OF r(1) that(1), of H] that(2) eq by auto
  with r show ?thesis by blast
qed

text \<open>C17: A blob that was accepted stays readable. After a \<^verbatim>\<open>Put\<close> that succeeds on any store the code can
  get into, and any further calls, uploads, cancellations and failures of other calls among them, but no
  deletion of that digest: the blob opens, its descriptor has its size, reading it with any buffers
  ends cleanly within one read more than it has bytes, and what is read hashes to the digest; it is
  exactly what was put if the store did not have that digest before.\<close>

theorem stored_content_is_served:
  assumes "s = exec_ops H ops (New_blobs hook)" "Put None H d src s = (None, s1)"
    and "s2 = exec_ops H later s1" "\<forall>ctx. OpDelete ctx d \<notin> set later"
  shows "\<exists>data r. digestOf H (Algorithm_of d) data = d \<and>
    (fmlookup (bs_blobs s) d = None \<longrightarrow> data = fst (io_Copy src)) \<and>
    Get None d s2 = Inr r \<and> Stat None d s2 = Inr \<lparr>de_Digest = d, de_Size = int (length data)\<rparr> \<and>
    (\<forall>ks. 0 \<notin> set ks \<and> length data < length ks \<longrightarrow> (\<exists>r'. read_all H ks r = ((data, Some EOF), r')))"
proof -
  obtain buf n where "Copy H src d = (buf, n, None)"
    using assms(2) by (auto simp: Put_def split: option.splits prod.splits)
  then have copy: "io_Copy src = (buf, None)" "addressed H d buf" by (simp_all add: Copy_None)
  have "bs_blobs s1 = bs_blobs (snd (Put None H d src s))" using assms(2) by simp
  then have "bs_blobs s1 = (if fmlookup (bs_blobs s) d = None then fmupd d buf (bs_blobs s) else bs_blobs s)"
    unfolding Put_blobs using copy by simp
  then obtain data where data: "fmlookup (bs_blobs s1) d = Some data"
    "fmlookup (bs_blobs s) d = None \<longrightarrow> data = buf" by (auto split: if_splits)
  have "content_ok H s2" unfolding assms(3)
  proof (rule exec_ops_content)
    have "content_ok H (exec_op H (OpPut None d src) s)"
      unfolding assms(1) by (intro exec_op_content exec_ops_content New_content)
    then show "content_ok H s1" using assms(2) by simp
  qed
  moreover have look: "fmlookup (bs_blobs s2) d = Some data"
    unfolding assms(3) by (rule exec_ops_keeps [OF data(1) assms(4)])
  ultimately have "addressed H d data" by (simp add: content_ok_def)
  from Get_stored [OF look this] this data(2) copy(1) show ?thesis by (auto simp: addressed_def)
qed

theorem stored_content_is_served_witness:
  "\<exists>data r. data = ''abc'' \<and>
    Get None (de_Digest sample_desc)
      (exec_ops sample_hash [OpCreate None ''u'', OpWrite None 0 [(''xy'', None)], OpCommit None 0 (de_Digest sample_desc)]
        (snd (Put None sample_hash (de_Digest sample_desc) [(''ab'', None), (''c'', None)] (New_blobs True)))) = Inr r \<and>
    (\<exists>r'. read_all sample_hash [1, 1, 1, 1] r = ((data, Some EOF), r'))"
proof -
  let ?src = "[(''ab'', None), (''c'', None)] :: source"
  obtain s1 where put: "Put None sample_hash (de_Digest sample_desc) ?src (New_blobs True) = (None, s1)"
  proof -
    have "fst (Put None sample_hash (de_Digest sample_desc) ?src (New_blobs True)) = None" by code_simp
    then show thesis using that by (metis prod.collapse)
  qed
  have "fmlookup (bs_blobs (New_blobs True)) (de_Digest sample_desc) = None" by (simp add: New_blobs_def)
  with stored_content_is_served [where ops = "[]", OF _ put refl, of True
      "[OpCreate None ''u'', OpWrite None 0 [(''xy'', None)], OpCommit None 0 (de_Digest sample_desc)]"]
  obtain data r where "data = fst (io_Copy ?src)"
    "Get None (de_Digest sample_desc)
      (exec_ops sample_hash [OpCreate None ''u'', OpWrite None 0 [(''xy'', None)], OpCommit None 0 (de_Digest sample_desc)] s1) = Inr r"
    "\<forall>ks. 0 \<notin> set ks \<and> length data < length ks \<longrightarrow> (\<exists>r'. read_all sample_hash ks r = ((data, Some EOF), r'))"
    by auto
  moreover from this(3) have "\<exists>r'. read_all sample_hash [1, 1, 1, 1] r = ((data, Some EOF), r')"
    by (rule allE [of _ "[1, 1, 1, 1]"]) (simp add: \<open>data = _\<close> del: read_all.simps)
  ultimately show ?thesis using put by (simp del: read_all.simps fold_simps)
qed

section \<open>Upload sessions\<close>

text \<open>What reaches a session through its pointer, and the calls that end it.\<close>

fun uploaded :: "nat \<Rightarrow> blob_op list \<Rightarrow> string" where
  "uploaded u [] = []"
| "uploaded u (op # ops) =
    (case op of OpWrite None v src \<Rightarrow> if v = u then fst (io_Copy src) else [] | _ \<Rightarrow> []) @ uploaded u ops"

fun ends_session :: "nat \<Rightarrow> blob_op \<Rightarrow> bool" where
  "ends_session u (OpCommit ctx v d) \<longleftrightarrow> v = u"
| "ends_session u (OpCancel ctx v) \<longleftrightarrow> v = u"
| "ends_session u _ \<longleftrightarrow> False"

definition open_session :: "nat \<Rightarrow> string \<Rightarrow> blob_Store \<Rightarrow> bool" where
  "open_session u buf s \<longleftrightarrow>
    u < length (bs_heap s) \<and> \<not> se_closed (bs_heap s ! u) \<and> se_buf (bs_heap s ! u) = buf"

lemma heap_other:
  assumes "v \<noteq> u" "u < length (bs_heap s)"
  shows "bs_heap (snd (Write_session ctx v src s)) ! u = bs_heap s ! u"
    "bs_heap (snd (Commit ctx H v d s)) ! u = bs_heap s ! u"
    "bs_heap (snd (Cancel ctx v s)) ! u = bs_heap s ! u"
    "bs_heap (snd (CreateUpload_blob ctx uid s)) ! u = bs_heap s ! u"
  using assms
  by (simp_all add: Write_session_def Commit_def Cancel_def CreateUpload_blob_def discard_def Let_def nth_append
      split: option.split prod.split sum.split)

lemma heap_length [simp]:
  "length (bs_heap (snd (Write_session ctx v src s))) = length (bs_heap s)"
  "length (bs_heap (snd (Commit ctx H v d s))) = length (bs_heap s)"
  "length (bs_heap (snd (Cancel ctx v s))) = length (bs_heap s)"
  by (simp_all add: Write_session_def Commit_def Cancel_def discard_def Let_def
      split: option.split prod.split sum.split)

lemma heap_kept [simp]:
  "bs_heap (snd (Put ctx H d src s)) = bs_heap s" "bs_heap (snd (Delete_blob ctx d s)) = bs_heap s"
  by (simp_all add: Put_def Delete_blob_def split: option.split prod.split)

lemma exec_op_session:
  assumes "open_session u buf s" "\<not> ends_session u op"
  shows "open_session u (buf @ uploaded u [op]) (exec_op H op s)"
proof (cases op)
  case (OpWrite ctx v src)
  show ?thesis
  proof (cases "v = u")
    case True
    then show ?thesis using assms(1) OpWrite
      by (cases ctx) (simp_all add: open_session_def Write_session_def Let_def split: prod.split)
  next
    case False
    then show ?thesis using assms(1) OpWrite heap_other(1) [OF False]
      by (simp add: open_session_def split: option.split)
  qed
next
  case (OpCreate ctx uid)
  have "u < length (bs_heap s)" using assms(1) by (simp add: open_session_def)
  then show ?thesis using assms(1) OpCreate
    by (auto simp: open_session_def CreateUpload_blob_def Let_def nth_append split: option.split)
qed (use assms heap_other in \<open>auto simp: open_session_def\<close>)

lemma exec_ops_session:
  assumes "open_session u buf s" "list_all (\<lambda>op. \<not> ends_session u op) ops"
  shows "open_session u (buf @ uploaded u ops) (exec_ops H ops s)"
  using assms
proof (induction ops arbitrary: s buf)
  case (Cons op ops)
  then have "open_session u (buf @ uploaded u [op]) (exec_op H op s)" by (intro exec_op_session) auto
  from Cons.IH [OF this] Cons.prems show ?case by simp
qed simp

lemma CreateUpload_session:
  "CreateUpload_blob ctx uid s = (Inr u, s') \<Longrightarrow> open_session u [] s' \<and> se_id (bs_heap s' ! u) = uid"
  by (auto simp: CreateUpload_blob_def open_session_def Let_def split: option.splits if_splits)

lemma io_Copy_bytes [simp]: "io_Copy (bytes_reader data) = (data, None)"
  by (simp add: bytes_reader_def)

lemma Copy_bytes:
  "Copy H (bytes_reader data) d =
    (case NewVerifier d of
       Inl e \<Rightarrow> ([], 0, Some e)
     | Inr v \<Rightarrow> (data, int (length data), Verify H (Verifier_Write data v)))"
  by (simp add: Copy_def split: sum.split)

text \<open>C16: A chunked upload is a \<^verbatim>\<open>Put\<close> of its chunks. Open a session, let any calls happen, to this
  session only writes, whose streams may break off; then committing it answers what putting the bytes
  that arrived would answer, with the same error or none, and leaves the same content; the offset
  reported before is the number of those bytes; and after a digest that parses the session is over,
  whichever way the commit went.\<close>

theorem upload_equals_put:
  assumes "CreateUpload_blob None uid s = (Inr u, s0)" "list_all (\<lambda>op. \<not> ends_session u op) ops"
    and "s1 = exec_ops H ops s0" "data = uploaded u ops"
  shows "bs_blobs (snd (Commit None H u d s1)) = bs_blobs (snd (Put None H d (bytes_reader data) s1)) \<and>
    fst (Commit None H u d s1) =
      (case fst (Put None H d (bytes_reader data) s1) of
         None \<Rightarrow> Inr \<lparr>de_Digest = d, de_Size = int (length data)\<rparr> | Some e \<Rightarrow> Inl e) \<and>
    Offset u s1 = int (length data) \<and>
    (Validate_digest d = None \<longrightarrow>
      (let s2 = snd (Commit None H u d s1)
       in fst (Write_session None u src s2) = (0, Some (BlobNotFound ''upload'' (ID_session u s2)))))"
proof -
  have "open_session u data s1"
    using exec_ops_session [of u "[]" s0 ops H] CreateUpload_session [OF assms(1)] assms(2-4) by simp
  then have se: "u < length (bs_heap s1)" "\<not> se_closed (bs_heap s1 ! u)" "se_buf (bs_heap s1 ! u) = data"
    by (simp_all add: open_session_def)
  have blobs: "bs_blobs (snd (Commit None H u d s1)) = bs_blobs (snd (Put None H d (bytes_reader data) s1))"
    using se by (simp add: Commit_blobs Put_blobs)
  show ?thesis
  proof (cases "Validate_digest d")
    case (Some e)
    then show ?thesis using blobs se
      by (simp add: Commit_def Put_def NewVerifier_def Offset_def)
  next
    case None
    then obtain v where v: "NewVerifier d = Inr v" by (simp add: NewVerifier_def)
    have "fst (Put None H d (bytes_reader data) s1) = Verify H (Verifier_Write data v)"
      using None v by (simp add: Put_def Copy_bytes split: option.split)
    then show ?thesis using blobs None v se
      by (cases "Verify H (Verifier_Write data v)")
        (simp_all add: Commit_def Offset_def Write_session_def ID_session_def discard_def Let_def)
  qed
qed

theorem upload_equals_put_witness:
  "bs_blobs (snd (Commit None sample_hash 0 (de_Digest sample_desc)
      (exec_ops sample_hash
        [OpWrite None 0 [(''ab'', Some (SourceError ''reset''))], OpCreate None ''w'', OpWrite None 0 [(''c'', None)]]
        (snd (CreateUpload_blob None ''u'' (New_blobs True)))))) =
    fmupd (de_Digest sample_desc) ''abc'' fmempty"
proof -
  let ?s = "snd (CreateUpload_blob None ''u'' (New_blobs True))"
  let ?ops = "[OpWrite None 0 [(''ab'', Some (SourceError ''reset''))], OpCreate None ''w'', OpWrite None 0 [(''c'', None)]]"
  have create: "CreateUpload_blob None ''u'' (New_blobs True) = (Inr 0, ?s)"
    by (simp add: CreateUpload_blob_def New_blobs_def)
  have "bs_blobs (snd (Commit None sample_hash 0 (de_Digest sample_desc) (exec_ops sample_hash ?ops ?s))) =
      bs_blobs (snd (Put None sample_hash (de_Digest sample_desc) (bytes_reader (uploaded 0 ?ops))
        (exec_ops sample_hash ?ops ?s)))"
    by (rule conjunct1 [OF upload_equals_put [OF create _ refl refl]]) simp
  moreover have "addressed sample_hash (de_Digest sample_desc) ''abc''" by code_simp
  moreover have "bs_blobs (exec_ops sample_hash ?ops ?s) = fmempty"
    by (simp add: New_blobs_def)
  ultimately show ?thesis unfolding Put_blobs by simp
qed

section \<open>Stale pointers\<close>

text \<open>C38: A second cancellation is not always harmless. If an identifier was reused after its first
  session ended, cancelling through the old pointer again takes the registration of the new session
  away: the upload in progress can no longer be resumed by its identifier, although its bytes are
  untouched and its own pointer still works, and the identifier can be taken by a third session.\<close>

theorem stale_cancel_unregisters_successor:
  assumes "u < length (bs_heap s)" "se_closed (bs_heap s ! u)" "se_id (bs_heap s ! u) = uid" "uid \<noteq> []"
    and "OpenUpload None uid s = Inr v" "open_session v buf s"
  shows "let s' = snd (Cancel None u s)
    in OpenUpload None uid s' = Inl (BlobNotFound ''upload'' uid) \<and> open_session v buf s' \<and>
       fst (CreateUpload_blob None uid s') = Inr (length (bs_heap s))"
proof -
  have "v \<noteq> u" using assms(2,6) by (auto simp: open_session_def)
  then show ?thesis using assms
    by (simp add: Cancel_def discard_def OpenUpload_def CreateUpload_blob_def open_session_def Let_def)
qed

theorem stale_cancel_unregisters_successor_witness:
  "OpenUpload None ''x'' (snd (Cancel None 0 (exec_ops sample_hash
      [OpCreate None ''x'', OpCancel None 0, OpCreate None ''x'', OpWrite None 1 [(''ab'', None)]] (New_blobs True)))) =
    Inl (BlobNotFound ''upload'' ''x'')"
proof -
  let ?s = "exec_ops sample_hash
      [OpCreate None ''x'', OpCancel None 0, OpCreate None ''x'', OpWrite None 1 [(''ab'', None)]] (New_blobs True)"
  have s: "bs_heap ?s = [\<lparr>se_id = ''x'', se_buf = [], se_closed = True\<rparr>, \<lparr>se_id = ''x'', se_buf = ''ab'', se_closed = False\<rparr>]"
    "OpenUpload None ''x'' ?s = Inr 1"
    by (simp_all add: New_blobs_def CreateUpload_blob_def Cancel_def discard_def Write_session_def OpenUpload_def)
  show ?thesis
    using stale_cancel_unregisters_successor [of 0 ?s "''x''" 1 "''ab''"] s
    by (simp add: open_session_def Let_def del: fold_simps exec_op.simps)
qed

section \<open>The contract of a content-addressed store\<close>

text \<open>What \<^verbatim>\<open>blob.Store\<close> and \<^verbatim>\<open>blob.Uploader\<close> promise, as a machine: content that only ever appears under
  the digest it hashes to and only disappears when it is removed, and private buffers that become content
  in one step or not at all.\<close>

record vault =
  va_content :: "string \<rightharpoonup> string"
  va_open :: "nat \<rightharpoonup> string"

inductive vault_step :: "(string \<Rightarrow> string \<Rightarrow> string) \<Rightarrow> vault \<Rightarrow> vault \<Rightarrow> bool" for H where
  stutter: "vault_step H v v"
| publish: "addressed H d data \<Longrightarrow> va_content v d = None \<Longrightarrow>
    vault_step H v (v\<lparr>va_content := (va_content v)(d \<mapsto> data)\<rparr>)"
| remove: "vault_step H v (v\<lparr>va_content := (va_content v)(d := None)\<rparr>)"
| start: "va_open v u = None \<Longrightarrow> vault_step H v (v\<lparr>va_open := (va_open v)(u \<mapsto> [])\<rparr>)"
| extend: "va_open v u = Some buf \<Longrightarrow> vault_step H v (v\<lparr>va_open := (va_open v)(u \<mapsto> buf @ chunk)\<rparr>)"
| seal: "va_open v u = Some buf \<Longrightarrow> addressed H d buf \<Longrightarrow>
    vault_step H v (v\<lparr>va_content := (case va_content v d of None \<Rightarrow> (va_content v)(d \<mapsto> buf) | Some _ \<Rightarrow> va_content v),
      va_open := (va_open v)(u := None)\<rparr>)"
| abandon: "vault_step H v (v\<lparr>va_open := (va_open v)(u := None)\<rparr>)"

definition vault_of :: "blob_Store \<Rightarrow> vault" where
  "vault_of s =
    \<lparr>va_content = fmlookup (bs_blobs s),
     va_open = (\<lambda>u. if u < length (bs_heap s) \<and> \<not> se_closed (bs_heap s ! u)
                    then Some (se_buf (bs_heap s ! u)) else None)\<rparr>"

lemma vault_of_sel [simp]:
  "va_content (vault_of s) = fmlookup (bs_blobs s)"
  "va_open (vault_of s) = (\<lambda>u. if u < length (bs_heap s) \<and> \<not> se_closed (bs_heap s ! u)
                    then Some (se_buf (bs_heap s ! u)) else None)"
  by (simp_all add: vault_of_def)

lemma vault_eqI: "va_content v = va_content w \<Longrightarrow> va_open v = va_open w \<Longrightarrow> v = (w :: vault)"
  by simp

lemma vault_of_cong: "bs_blobs s = bs_blobs t \<Longrightarrow> bs_heap s = bs_heap t \<Longrightarrow> vault_of s = vault_of t"
  by (intro vault_eqI ext) simp_all

lemma vault_discard: "u < length (bs_heap s) \<Longrightarrow> vault_step H (vault_of s) (vault_of (discard u s))"
proof -
  assume "u < length (bs_heap s)"
  then have "vault_of (discard u s) = (vault_of s)\<lparr>va_open := (va_open (vault_of s))(u := None)\<rparr>"
    by (intro vault_eqI ext) (auto simp: discard_def Let_def nth_list_update)
  then show ?thesis by (simp only: vault_step.abandon)
qed

lemma vault_Put: "vault_step H (vault_of s) (vault_of (snd (Put ctx H d r s)))"
proof (cases "bs_blobs (snd (Put ctx H d r s)) = bs_blobs s")
  case True
  then have "vault_of (snd (Put ctx H d r s)) = vault_of s" by (intro vault_of_cong) simp_all
  then show ?thesis by (simp only: vault_step.stutter)
next
  case False
  then have new: "addressed H d (fst (io_Copy r))" "fmlookup (bs_blobs s) d = None"
    "bs_blobs (snd (Put ctx H d r s)) = fmupd d (fst (io_Copy r)) (bs_blobs s)"
    by (auto simp: Put_blobs split: if_splits)
  then have "vault_of (snd (Put ctx H d r s)) =
      (vault_of s)\<lparr>va_content := (va_content (vault_of s))(d \<mapsto> fst (io_Copy r))\<rparr>"
    by (intro vault_eqI ext) simp_all
  then show ?thesis using vault_step.publish [of H d _ "vault_of s"] new by simp
qed

lemma vault_Commit:
  assumes "u < length (bs_heap s)"
  shows "vault_step H (vault_of s) (vault_of (snd (Commit ctx H u d s)))"
proof -
  consider "snd (Commit ctx H u d s) = s" | "snd (Commit ctx H u d s) = discard u s"
    | "\<not> se_closed (bs_heap s ! u)" "addressed H d (se_buf (bs_heap s ! u))"
      "snd (Commit ctx H u d s) =
        s\<lparr>bs_blobs := (if fmlookup (bs_blobs s) d = None then fmupd d (se_buf (bs_heap s ! u)) (bs_blobs s) else bs_blobs s),
          bs_uploads := fmdrop (se_id (bs_heap s ! u)) (bs_uploads s),
          bs_heap := (bs_heap s)[u := (bs_heap s ! u)\<lparr>se_closed := True, se_buf := []\<rparr>]\<rparr>"
    using Commit_verified [of d _ H "se_buf (bs_heap s ! u)"]
    unfolding Commit_def Let_def
    by (cases ctx; cases "NewVerifier d"; cases "se_closed (bs_heap s ! u)";
        cases "Verify H (Verifier_Write (se_buf (bs_heap s ! u)) (projr (NewVerifier d)))") auto
  then show ?thesis
  proof cases
    case 1
    then show ?thesis by (simp only: vault_step.stutter)
  next
    case 2
    then show ?thesis using vault_discard [OF assms] by simp
  next
    case 3
    have "vault_of (snd (Commit ctx H u d s)) = (vault_of s)\<lparr>
        va_content := (case va_content (vault_of s) d of
            None \<Rightarrow> (va_content (vault_of s))(d \<mapsto> se_buf (bs_heap s ! u)) | Some _ \<Rightarrow> va_content (vault_of s)),
        va_open := (va_open (vault_of s))(u := None)\<rparr>"
      unfolding 3(3) using assms
      by (intro vault_eqI ext) (auto simp: nth_list_update split: option.split)
    then show ?thesis using vault_step.seal [of "vault_of s" u _ H d] assms 3(1,2) by simp
  qed
qed

lemma vault_Write:
  assumes "u < length (bs_heap s)"
  shows "vault_step H (vault_of s) (vault_of (snd (Write_session ctx u src s)))"
proof (cases "ctx = None \<and> \<not> se_closed (bs_heap s ! u)")
  case True
  then have "vault_of (snd (Write_session ctx u src s)) =
      (vault_of s)\<lparr>va_open := (va_open (vault_of s))(u \<mapsto> se_buf (bs_heap s ! u) @ fst (io_Copy src))\<rparr>"
    using assms
    by (intro vault_eqI ext) (auto simp: Write_session_def Let_def nth_list_update split: prod.split)
  then show ?thesis using vault_step.extend [of "vault_of s" u] True assms by simp
next
  case False
  then have "snd (Write_session ctx u src s) = s" by (auto simp: Write_session_def Let_def split: option.split)
  then show ?thesis by (simp only: vault_step.stutter)
qed

lemma vault_Create: "vault_step H (vault_of s) (vault_of (snd (CreateUpload_blob ctx uid s)))"
proof (cases "snd (CreateUpload_blob ctx uid s) = s")
  case True
  then show ?thesis by (simp only: vault_step.stutter)
next
  case False
  then have "bs_heap (snd (CreateUpload_blob ctx uid s)) = bs_heap s @ [\<lparr>se_id = uid, se_buf = [], se_closed = False\<rparr>]"
    by (auto simp: CreateUpload_blob_def Let_def split: option.splits if_splits)
  then have "vault_of (snd (CreateUpload_blob ctx uid s)) =
      (vault_of s)\<lparr>va_open := (va_open (vault_of s))(length (bs_heap s) \<mapsto> [])\<rparr>"
    by (intro vault_eqI ext) (auto simp: nth_append)
  then show ?thesis using vault_step.start [of "vault_of s" "length (bs_heap s)"] by simp
qed

lemma vault_Delete: "vault_step H (vault_of s) (vault_of (snd (Delete_blob ctx d s)))"
proof (cases "ctx = None \<and> Validate_digest d = None")
  case True
  then have "vault_of (snd (Delete_blob ctx d s)) = (vault_of s)\<lparr>va_content := (va_content (vault_of s))(d := None)\<rparr>"
    by (intro vault_eqI ext) (simp_all add: Delete_blobs)
  then show ?thesis by (simp only: vault_step.remove)
next
  case False
  then have "vault_of (snd (Delete_blob ctx d s)) = vault_of s" by (intro vault_of_cong) (auto simp: Delete_blobs)
  then show ?thesis by (simp only: vault_step.stutter)
qed

text \<open>C15: The memory store implements the contract. Every call, whatever its arguments, its context and
  the state of the store, is one step of the abstract machine on the content and the open buffers, so no
  call makes unverified bytes visible, changes content in place, or publishes part of an upload; and what
  a client can see of the content, \<^verbatim>\<open>Stat\<close> on a digest that parses, is what the machine holds.\<close>

theorem memory_store_refines_vault:
  "vault_step H (vault_of s) (vault_of (exec_op H op s)) \<and>
   Stat None d s = (case Validate_digest d of
     Some e \<Rightarrow> Inl e
   | None \<Rightarrow> (case va_content (vault_of s) d of
       None \<Rightarrow> Inl (BlobNotFound ''blob'' d)
     | Some data \<Rightarrow> Inr \<lparr>de_Digest = d, de_Size = int (length data)\<rparr>))"
proof
  show "vault_step H (vault_of s) (vault_of (exec_op H op s))"
  proof (cases op)
    case (OpCancel ctx u)
    then show ?thesis using vault_discard [of u s H]
      by (cases ctx) (simp_all add: Cancel_def vault_step.stutter)
  qed (simp_all add: vault_Put vault_Delete vault_Create vault_Write vault_Commit vault_step.stutter)
qed (simp add: Stat_def split: option.split)

lemma Walk_visits:
  assumes "\<forall>i. ctx i = None"
  shows "Walk ctx order (\<lambda>desc seen. (None :: 'e option, seen @ [desc])) s [] =
    (None, map (\<lambda>d. \<lparr>de_Digest = d, de_Size = int (length (the (fmlookup (bs_blobs s) d)))\<rparr>) order)"
proof -
  have "walk_loop ctx i (\<lambda>desc seen. (None :: 'e option, seen @ [desc])) descs seen = (None, seen @ descs)" for i descs seen
    using assms by (induction descs arbitrary: i seen) simp_all
  then show ?thesis using assms by (simp add: Walk_def)
qed

section \<open>What a deletion of bytes promises\<close>

text \<open>The part of \<^verbatim>\<open>blob.Store\<close> the collector and the evictor are given: one method, which removes what it
  is told to or leaves the store as it was.\<close>

locale byte_store =
  fixes delete :: "ctx_err option \<Rightarrow> string \<Rightarrow> 'b \<Rightarrow> blob_error option \<times> 'b"
    and holds :: "'b \<Rightarrow> string \<Rightarrow> bool"
  assumes delete_other: "delete ctx d b = (e, b') \<Longrightarrow> d' \<noteq> d \<Longrightarrow> holds b' d' = holds b d'"
    and delete_gone: "delete ctx d b = (e, b') \<Longrightarrow> e = None \<or> e = Some (BlobNotFound k d) \<Longrightarrow> \<not> holds b' d"
    and delete_failed: "delete ctx d b = (Some x, b') \<Longrightarrow> b' = b"
    and delete_answers: "Validate_digest d = None \<Longrightarrow>
      fst (delete None d b) = None \<or> fst (delete None d b) = Some (BlobNotFound ''blob'' d)"
begin

lemma delete_never_adds: "delete ctx d b = (e, b') \<Longrightarrow> holds b' d' \<Longrightarrow> holds b d'"
  using delete_other [of ctx d b e b' d'] delete_gone [of ctx d b e b'] delete_failed [of ctx d b _ b']
  by (cases e; cases "d' = d") auto

end

definition holds_blob :: "blob_Store \<Rightarrow> string \<Rightarrow> bool" where
  "holds_blob s d \<longleftrightarrow> fmlookup (bs_blobs s) d \<noteq> None"

interpretation blob_bytes: byte_store Delete_blob holds_blob
proof
  fix ctx d b e b' d'
  assume del: "Delete_blob ctx d b = (e, b')"
  show "holds_blob b' d' = holds_blob b d'" if "d' \<noteq> d"
    using del that by (auto simp: Delete_blob_def holds_blob_def split: option.splits if_splits)
next
  fix ctx d b e b' k
  assume "Delete_blob ctx d b = (e, b')" "e = None \<or> e = Some (BlobNotFound k d)"
  then show "\<not> holds_blob b' d"
    by (auto simp: Delete_blob_def holds_blob_def Validate_digest_def ParseDigest_def
        split: option.splits if_splits sum.splits prod.splits)
next
  fix ctx d b e b'
  assume "Delete_blob ctx d b = (Some e, b')"
  then show "b' = b" by (auto simp: Delete_blob_def split: option.splits if_splits)
next
  fix d b
  assume "Validate_digest d = None"
  then show "fst (Delete_blob None d b) = None \<or> fst (Delete_blob None d b) = Some (BlobNotFound ''blob'' d)"
    by (simp add: Delete_blob_def)
qed

end
