(* ===== verification/GC_Sweep.thy ===== *)
theory GC_Sweep
  imports Meta_Correct Blob_Memory
begin

text \<open>
  \<^verbatim>\<open>internal/gc/sweep.go\<close>: mark-and-sweep over the hosted blobs.

  The collector runs beside everything else the registry does. \<open>ou_env\<close> says what the rest of the
  process did to the metadata store and to the blob store just before each call the collector makes,
  \<open>ou_ctx\<close> what its context reports each time it is asked; both may depend on how far the sweep is
  (\<open>wo_tick\<close>) and \<open>ou_env\<close> also on the call that follows. The stores are the two interfaces the package
  declares: a record of the metadata methods, and the one method of the blob store.

  Logging is not modelled, and neither are the texts of errors: a run that a failed listing ends records
  the prefix of the message without the error's own words. The loop of \<^verbatim>\<open>Run\<close> takes fuel, since other writers can keep giving it
  candidates; out of fuel it returns \<^term>\<open>None\<close> and the world reached so far.
\<close>

section \<open>Interfaces and surroundings\<close>

record 's gc_Store =
  gs_ListSweepCandidates :: "ctx_err option \<Rightarrow> gotime \<Rightarrow> Digest \<Rightarrow> int \<Rightarrow> 's \<Rightarrow> merror + Blob list"
  gs_DeleteBlobIfUnreferenced :: "ctx_err option \<Rightarrow> Digest \<Rightarrow> gotime \<Rightarrow> 's \<Rightarrow> merror + bool \<times> 's"
  gs_StartGCRun :: "ctx_err option \<Rightarrow> GCRun \<Rightarrow> 's \<Rightarrow> merror + 's"
  gs_SaveGCProgress :: "ctx_err option \<Rightarrow> string \<Rightarrow> Digest \<Rightarrow> int \<Rightarrow> int \<Rightarrow> int \<Rightarrow> 's \<Rightarrow> merror + 's"
  gs_FinishGCRun :: "ctx_err option \<Rightarrow> string \<Rightarrow> gotime \<Rightarrow> string \<Rightarrow> 's \<Rightarrow> merror + 's"
  gs_ResumableGCRun :: "ctx_err option \<Rightarrow> 's \<Rightarrow> merror + GCRun"

type_synonym 'b gc_BlobStore = "ctx_err option \<Rightarrow> string \<Rightarrow> 'b \<Rightarrow> blob_error option \<times> 'b"

datatype gc_call =
    CallResumable
  | CallStart
  | CallList
  | CallDeleteRow Digest
  | CallDeleteBytes Digest
  | CallSave
  | CallFinish

record GCCompletedPayload =
  gp_RunID :: string
  gp_BlobsScanned :: int
  gp_BlobsDeleted :: int
  gp_BytesReclaimed :: int
  gp_DurationSeconds :: int
  gp_Resumed :: bool

record ('s, 'b) world =
  wo_meta :: 's
  wo_bytes :: 'b
  wo_tick :: nat
  wo_published :: "GCCompletedPayload list"

record ('s, 'b) outside =
  ou_env :: "nat \<Rightarrow> gc_call \<Rightarrow> 's \<times> 'b \<Rightarrow> 's \<times> 'b"
  ou_ctx :: "nat \<Rightarrow> ctx_err option"

definition meanwhile :: "('s, 'b) outside \<Rightarrow> gc_call \<Rightarrow> ('s, 'b) world \<Rightarrow> ('s, 'b) world" where
  "meanwhile ou call w =
    (case ou_env ou (wo_tick w) call (wo_meta w, wo_bytes w) of (s, b) \<Rightarrow>
       w\<lparr>wo_meta := s, wo_bytes := b, wo_tick := Suc (wo_tick w)\<rparr>)"

definition ctx_Err :: "('s, 'b) outside \<Rightarrow> ('s, 'b) world \<Rightarrow> ctx_err option \<times> ('s, 'b) world" where
  "ctx_Err ou w = (ou_ctx ou (wo_tick w), w\<lparr>wo_tick := Suc (wo_tick w)\<rparr>)"

section \<open>The collector\<close>

abbreviation DefaultGrace :: duration where "DefaultGrace \<equiv> 24 * 3600 * 1000000000"
abbreviation DefaultBatchSize :: int where "DefaultBatchSize \<equiv> 256"

record ('s, 'b) Collector =
  co_meta :: "'s gc_Store"
  co_blobs :: "'b gc_BlobStore"
  co_events :: bool
  co_grace :: duration
  co_batch :: int
  co_newID :: "nat \<Rightarrow> string"
  co_now :: "nat \<Rightarrow> gotime"

text \<open>A nil interface or function is \<^term>\<open>None\<close>. \<open>time_Now\<close> is the system clock.\<close>

record ('s, 'b) gc_Options =
  go_Meta :: "'s gc_Store option"
  go_Blobs :: "'b gc_BlobStore option"
  go_Events :: bool
  go_Grace :: duration
  go_BatchSize :: int
  go_NewID :: "(nat \<Rightarrow> string) option"
  go_Now :: "(nat \<Rightarrow> gotime) option"

datatype gc_error =
    ErrInvalidOptions string
  | Stopped ctx_err
  | Failed string merror

definition New_collector ::
    "(nat \<Rightarrow> gotime) \<Rightarrow> ('s, 'b) gc_Options \<Rightarrow> gc_error + ('s, 'b) Collector" where
  "New_collector time_Now opts =
    (case go_Meta opts of
       None \<Rightarrow> Inl (ErrInvalidOptions ''a metadata store is required'')
     | Some meta \<Rightarrow>
         (case go_Blobs opts of
            None \<Rightarrow> Inl (ErrInvalidOptions ''a hosted blob store is required'')
          | Some blobs \<Rightarrow>
              (case go_NewID opts of
                 None \<Rightarrow> Inl (ErrInvalidOptions ''a run identifier source is required'')
               | Some newID \<Rightarrow>
                   if go_Grace opts < 0 then Inl (ErrInvalidOptions ''the grace window must not be negative'')
                   else
                     Inr \<lparr>co_meta = meta, co_blobs = blobs, co_events = go_Events opts,
                          co_grace = (if go_Grace opts = 0 then DefaultGrace else go_Grace opts),
                          co_batch = (if go_BatchSize opts \<le> 0 then DefaultBatchSize else go_BatchSize opts),
                          co_newID = newID,
                          co_now = (case go_Now opts of None \<Rightarrow> time_Now | Some now \<Rightarrow> now)\<rparr>)))"

record Result =
  re_RunID :: string
  re_Resumed :: bool
  re_Scanned :: int
  re_Deleted :: int
  re_Bytes :: int
  re_Skipped :: int
  re_Leaked :: int
  re_Complete :: bool

abbreviation no_result :: Result where
  "no_result \<equiv> \<lparr>re_RunID = [], re_Resumed = False, re_Scanned = 0, re_Deleted = 0, re_Bytes = 0,
     re_Skipped = 0, re_Leaked = 0, re_Complete = False\<rparr>"

definition begin_run ::
    "('s, 'b) outside \<Rightarrow> ('s, 'b) Collector \<Rightarrow> ('s, 'b) world \<Rightarrow> (gc_error + GCRun \<times> bool) \<times> ('s, 'b) world" where
  "begin_run ou c w0 =
    (let w = meanwhile ou CallResumable w0
     in case gs_ResumableGCRun (co_meta c) (ou_ctx ou (wo_tick w)) (wo_meta w) of
          Inr existing \<Rightarrow> (Inr (existing, True), w)
        | Inl err \<Rightarrow>
            if is_NotFound err then
              (let now = co_now c (wo_tick w);
                   run = \<lparr>gr_ID = co_newID c (wo_tick w), gr_StartedAt = now, gr_FinishedAt = 0,
                     gr_SweepBefore = now - co_grace c, gr_Cursor = [], gr_Scanned = 0, gr_Deleted = 0,
                     gr_FreedBytes = 0, gr_Failure = []\<rparr>;
                   w1 = meanwhile ou CallStart w
               in case gs_StartGCRun (co_meta c) (ou_ctx ou (wo_tick w1)) run (wo_meta w1) of
                    Inl e \<Rightarrow>
                      (case ctx_Err ou w1 of
                         (Some x, w2) \<Rightarrow> (Inl (Stopped x), w2)
                       | (None, w2) \<Rightarrow> (Inl (Failed ''start a run'' e), w2))
                  | Inr s \<Rightarrow> (Inr (run, False), w1\<lparr>wo_meta := s\<rparr>))
            else
              (case ctx_Err ou w of
                 (Some x, w1) \<Rightarrow> (Inl (Stopped x), w1)
               | (None, w1) \<Rightarrow> (Inl (Failed ''look for a run to resume'' err), w1)))"

definition reclaim ::
    "('s, 'b) outside \<Rightarrow> ('s, 'b) Collector \<Rightarrow> Digest \<Rightarrow> ('s, 'b) world \<Rightarrow> bool \<times> ('s, 'b) world" where
  "reclaim ou c digest w0 =
    (case NewHostedRef digest of
       Inl _ \<Rightarrow> (False, w0)
     | Inr ref \<Rightarrow>
         (let w = meanwhile ou (CallDeleteBytes digest) w0
          in case co_blobs c (ou_ctx ou (wo_tick w)) (hosted_digest ref) (wo_bytes w) of
               (None, b) \<Rightarrow> (True, w\<lparr>wo_bytes := b\<rparr>)
             | (Some e, b) \<Rightarrow> (is_BlobNotFound e, w\<lparr>wo_bytes := b\<rparr>)))"

definition collect_blob ::
    "('s, 'b) outside \<Rightarrow> ('s, 'b) Collector \<Rightarrow> GCRun \<Rightarrow> Blob \<Rightarrow> Result \<Rightarrow> ('s, 'b) world \<Rightarrow> Result \<times> ('s, 'b) world" where
  "collect_blob ou c run candidate result0 w0 =
    (let result = result0\<lparr>re_Scanned := re_Scanned result0 + 1\<rparr>;
         w = meanwhile ou (CallDeleteRow (bl_Digest candidate)) w0
     in case gs_DeleteBlobIfUnreferenced (co_meta c) (ou_ctx ou (wo_tick w)) (bl_Digest candidate)
               (gr_SweepBefore run) (wo_meta w) of
          Inl _ \<Rightarrow> (result\<lparr>re_Skipped := re_Skipped result + 1\<rparr>, w)
        | Inr (deleted, s) \<Rightarrow>
            if \<not> deleted then (result\<lparr>re_Skipped := re_Skipped result + 1\<rparr>, w\<lparr>wo_meta := s\<rparr>)
            else
              (let result1 = result\<lparr>re_Deleted := re_Deleted result + 1,
                     re_Bytes := wrap64 (re_Bytes result + bl_Size candidate)\<rparr>
               in case reclaim ou c (bl_Digest candidate) (w\<lparr>wo_meta := s\<rparr>) of
                    (gone, w1) \<Rightarrow>
                      (if gone then result1 else result1\<lparr>re_Leaked := re_Leaked result1 + 1\<rparr>, w1)))"

definition saveProgress ::
    "('s, 'b) outside \<Rightarrow> ('s, 'b) Collector \<Rightarrow> string \<Rightarrow> Digest \<Rightarrow> Result \<Rightarrow> ('s, 'b) world \<Rightarrow> ('s, 'b) world" where
  "saveProgress ou c runID cursor result w0 =
    (let w = meanwhile ou CallSave w0
     in case gs_SaveGCProgress (co_meta c) None runID cursor (re_Scanned result) (re_Deleted result)
               (re_Bytes result) (wo_meta w) of
          Inl _ \<Rightarrow> w
        | Inr s \<Rightarrow> w\<lparr>wo_meta := s\<rparr>)"

definition finish_run ::
    "('s, 'b) outside \<Rightarrow> ('s, 'b) Collector \<Rightarrow> string \<Rightarrow> string \<Rightarrow> ('s, 'b) world \<Rightarrow> ('s, 'b) world" where
  "finish_run ou c runID failure w0 =
    (let w = meanwhile ou CallFinish w0
     in case gs_FinishGCRun (co_meta c) None runID (co_now c (wo_tick w)) failure (wo_meta w) of
          Inl _ \<Rightarrow> w
        | Inr s \<Rightarrow> w\<lparr>wo_meta := s\<rparr>)"

text \<open>\<^verbatim>\<open>int64(elapsed.Seconds())\<close> truncates towards zero.\<close>

definition whole_seconds :: "duration \<Rightarrow> int" where
  "whole_seconds d = (if 0 \<le> d then d div 1000000000 else - ((- d) div 1000000000))"

definition publishCompleted ::
    "('s, 'b) Collector \<Rightarrow> Result \<Rightarrow> duration \<Rightarrow> ('s, 'b) world \<Rightarrow> ('s, 'b) world" where
  "publishCompleted c result elapsed w =
    (if \<not> co_events c then w
     else w\<lparr>wo_published := wo_published w @
       [\<lparr>gp_RunID = re_RunID result, gp_BlobsScanned = re_Scanned result,
         gp_BlobsDeleted = re_Deleted result, gp_BytesReclaimed = re_Bytes result,
         gp_DurationSeconds = whole_seconds elapsed, gp_Resumed = re_Resumed result\<rparr>]\<rparr>)"

definition interrupted ::
    "('s, 'b) outside \<Rightarrow> ('s, 'b) Collector \<Rightarrow> string \<Rightarrow> Digest \<Rightarrow> Result \<Rightarrow> ctx_err \<Rightarrow> ('s, 'b) world \<Rightarrow>
     (Result \<times> gc_error option) \<times> ('s, 'b) world" where
  "interrupted ou c runID cursor result cause w =
    ((result, Some (Stopped cause)), saveProgress ou c runID cursor result w)"

text \<open>The inner loop: \<^term>\<open>Some e\<close> when the context stopped it.\<close>

fun sweep_batch ::
    "('s, 'b) outside \<Rightarrow> ('s, 'b) Collector \<Rightarrow> GCRun \<Rightarrow> Blob list \<Rightarrow> Digest \<Rightarrow> Result \<Rightarrow> ('s, 'b) world \<Rightarrow>
     (ctx_err option \<times> Digest \<times> Result) \<times> ('s, 'b) world" where
  "sweep_batch ou c run [] cursor result w = ((None, cursor, result), w)"
| "sweep_batch ou c run (candidate # candidates) cursor result w =
    (case ctx_Err ou w of
       (Some e, w1) \<Rightarrow> ((Some e, cursor, result), w1)
     | (None, w1) \<Rightarrow>
         (case collect_blob ou c run candidate result w1 of
            (result1, w2) \<Rightarrow> sweep_batch ou c run candidates (bl_Digest candidate) result1 w2))"

primrec sweep_loop ::
    "nat \<Rightarrow> ('s, 'b) outside \<Rightarrow> ('s, 'b) Collector \<Rightarrow> GCRun \<Rightarrow> gotime \<Rightarrow> Digest \<Rightarrow> Result \<Rightarrow> ('s, 'b) world \<Rightarrow>
     (Result \<times> gc_error option) option \<times> ('s, 'b) world" where
  "sweep_loop 0 ou c run started cursor result w = (None, w)"
| "sweep_loop (Suc fuel) ou c run started cursor result w =
    (case ctx_Err ou w of
       (Some e, w1) \<Rightarrow> apfst Some (interrupted ou c (gr_ID run) cursor result e w1)
     | (None, w1) \<Rightarrow>
         (let w2 = meanwhile ou CallList w1
          in case gs_ListSweepCandidates (co_meta c) (ou_ctx ou (wo_tick w2)) (gr_SweepBefore run) cursor
                    (co_batch c) (wo_meta w2) of
               Inl err \<Rightarrow>
                 (case ctx_Err ou w2 of
                    (Some e, w3) \<Rightarrow> apfst Some (interrupted ou c (gr_ID run) cursor result e w3)
                  | (None, w3) \<Rightarrow>
                      (Some (result, Some (Failed ''list sweep candidates'' err)),
                       finish_run ou c (gr_ID run) ''list sweep candidates''
                         (saveProgress ou c (gr_ID run) cursor result w3)))
             | Inr candidates \<Rightarrow>
                 if candidates = [] then
                   (let done = result\<lparr>re_Complete := True\<rparr>;
                        w3 = finish_run ou c (gr_ID run) [] (saveProgress ou c (gr_ID run) cursor done w2)
                    in (Some (done, None),
                        publishCompleted c done (co_now c (wo_tick w3) - started) w3))
                 else
                   (case sweep_batch ou c run candidates cursor result w2 of
                      ((Some e, cursor1, result1), w3) \<Rightarrow>
                        apfst Some (interrupted ou c (gr_ID run) cursor1 result1 e w3)
                    | ((None, cursor1, result1), w3) \<Rightarrow>
                        sweep_loop fuel ou c run started cursor1 result1
                          (saveProgress ou c (gr_ID run) cursor1 result1 w3))))"

definition Run ::
    "nat \<Rightarrow> ('s, 'b) outside \<Rightarrow> ('s, 'b) Collector \<Rightarrow> ('s, 'b) world \<Rightarrow>
     (Result \<times> gc_error option) option \<times> ('s, 'b) world" where
  "Run fuel ou c w0 =
    (case begin_run ou c w0 of
       (Inl e, w) \<Rightarrow> (Some (no_result, Some e), w)
     | (Inr (run, resumed), w) \<Rightarrow>
         sweep_loop fuel ou c run (co_now c (wo_tick w)) (gr_Cursor run)
           (no_result\<lparr>re_RunID := gr_ID run, re_Resumed := resumed, re_Scanned := gr_Scanned run,
             re_Deleted := gr_Deleted run, re_Bytes := gr_FreedBytes run\<rparr>) w)"

section \<open>What a sweep beside other writers maintains\<close>

text \<open>\<open>I\<close> is what everybody maintains; \<open>J d\<close> is what holds between the deletion of the row of \<open>d\<close> and
  that of its bytes. The collector maintains \<open>I\<close> if the rest of the process does, if its bookkeeping
  does, and if deleting a row and then the bytes, with the rest of the process in between, does.\<close>

definition beside ::
    "('s, 'b) Collector \<Rightarrow> ('s, 'b) outside \<Rightarrow> gotime \<Rightarrow> ('s \<Rightarrow> 'b \<Rightarrow> bool) \<Rightarrow> (Digest \<Rightarrow> 's \<Rightarrow> 'b \<Rightarrow> bool) \<Rightarrow> bool" where
  "beside c ou before I J \<longleftrightarrow>
    (\<forall>s b i call. I s b \<longrightarrow> I (fst (ou_env ou i call (s, b))) (snd (ou_env ou i call (s, b)))) \<and>
    (\<forall>s b ctx d deleted s1. I s b \<longrightarrow>
       gs_DeleteBlobIfUnreferenced (co_meta c) ctx d before s = Inr (deleted, s1) \<longrightarrow>
       I s1 b \<and> (deleted \<longrightarrow> J d s1 b)) \<and>
    (\<forall>d s b i ctx. J d s b \<longrightarrow>
       I (fst (ou_env ou i (CallDeleteBytes d) (s, b)))
         (snd (co_blobs c ctx d (snd (ou_env ou i (CallDeleteBytes d) (s, b)))))) \<and>
    (\<forall>s b s1. I s b \<longrightarrow>
       (\<exists>ctx run. gs_StartGCRun (co_meta c) ctx run s = Inr s1) \<or>
       (\<exists>ctx rid cur n d f. gs_SaveGCProgress (co_meta c) ctx rid cur n d f s = Inr s1) \<or>
       (\<exists>ctx rid at failure. gs_FinishGCRun (co_meta c) ctx rid at failure s = Inr s1) \<longrightarrow> I s1 b)"

abbreviation ok :: "('s \<Rightarrow> 'b \<Rightarrow> bool) \<Rightarrow> ('s, 'b) world \<Rightarrow> bool" where
  "ok I w \<equiv> I (wo_meta w) (wo_bytes w)"

lemmas beside_parts = beside_def [THEN iffD1, THEN conjunct1, rule_format]
  beside_def [THEN iffD1, THEN conjunct2, THEN conjunct1, rule_format]
  beside_def [THEN iffD1, THEN conjunct2, THEN conjunct2, THEN conjunct1, rule_format]
  beside_def [THEN iffD1, THEN conjunct2, THEN conjunct2, THEN conjunct2, rule_format]

lemma ok_meanwhile: "beside c ou before I J \<Longrightarrow> ok I w \<Longrightarrow> ok I (meanwhile ou call w)"
  using beside_parts(1) [of c ou before I J "wo_meta w" "wo_bytes w" "wo_tick w" call]
  by (simp add: meanwhile_def case_prod_beta)

lemma ok_ctx: "ctx_Err ou w = (e, w') \<Longrightarrow> ok I w \<Longrightarrow> ok I w'"
  by (auto simp: ctx_Err_def)

lemma ok_reclaim:
  assumes "beside c ou before I J" "J d (wo_meta w) (wo_bytes w)" "ok I w"
    and "reclaim ou c d w = (gone, w')"
  shows "ok I w'"
proof (cases "NewHostedRef d")
  case (Inl x)
  then show ?thesis using assms(3,4) by (simp add: reclaim_def)
next
  case (Inr ref)
  then have ref: "hosted_digest ref = d" by (auto simp: NewHostedRef_def split: option.splits)
  then show ?thesis using assms(4) Inr beside_parts(3) [OF assms(1,2)]
    by (auto simp: reclaim_def meanwhile_def Let_def case_prod_beta split: option.splits)
qed


lemma ok_calls:
  assumes "beside c ou before I J" "ok I w"
  shows "gs_StartGCRun (co_meta c) ctx run (wo_meta w) = Inr s \<Longrightarrow> I s (wo_bytes w)"
    "gs_SaveGCProgress (co_meta c) ctx rid cur n d f (wo_meta w) = Inr s \<Longrightarrow> I s (wo_bytes w)"
    "gs_FinishGCRun (co_meta c) ctx rid at failure (wo_meta w) = Inr s \<Longrightarrow> I s (wo_bytes w)"
  using beside_parts(4) [OF assms, of s] by blast+

lemma ok_save:
  assumes "beside c ou before I J" "ok I w"
  shows "ok I (saveProgress ou c rid cur result w)"
  using ok_calls(2) [OF assms(1) ok_meanwhile [OF assms, of CallSave]] ok_meanwhile [OF assms, of CallSave]
  by (simp add: saveProgress_def Let_def split: sum.split)

lemma ok_finish:
  assumes "beside c ou before I J" "ok I w"
  shows "ok I (finish_run ou c rid failure w)"
  using ok_calls(3) [OF assms(1) ok_meanwhile [OF assms, of CallFinish]] ok_meanwhile [OF assms, of CallFinish]
  by (simp add: finish_run_def Let_def split: sum.split)

lemma ok_collect:
  assumes B: "beside c ou before I J"
    and "ok I w" "gr_SweepBefore run = before" "collect_blob ou c run x result w = (result', w')"
  shows "ok I w'"
proof -
  let ?d = "bl_Digest x"
  define w1 where "w1 = meanwhile ou (CallDeleteRow ?d) w"
  have w1: "ok I w1" using assms(2) B by (simp add: w1_def ok_meanwhile)
  show ?thesis
  proof (cases "gs_DeleteBlobIfUnreferenced (co_meta c) (ou_ctx ou (wo_tick w1)) ?d before (wo_meta w1)")
    case (Inl e)
    then show ?thesis using assms(3,4) w1
      by (auto simp: collect_blob_def Let_def w1_def [symmetric])
  next
    case (Inr p)
    obtain deleted s where p: "p = (deleted, s)" by (cases p)
    note del = beside_parts(2) [OF B w1 Inr [unfolded p]]
    show ?thesis
    proof (cases deleted)
      case False
      then show ?thesis using assms(3,4) w1 del Inr p
        by (auto simp: collect_blob_def Let_def w1_def [symmetric])
    next
      case True
      then have J: "J ?d s (wo_bytes w1) \<and> I s (wo_bytes w1)"
        using del by simp
      obtain gone w2 where rec: "reclaim ou c ?d (w1\<lparr>wo_meta := s\<rparr>) = (gone, w2)"
        by (metis prod.exhaust)
      have "ok I w2" using ok_reclaim [OF B _ _ rec] J by simp
      then show ?thesis using assms(3,4) Inr p True rec
        by (auto simp: collect_blob_def Let_def w1_def [symmetric])
    qed
  qed
qed

lemma ok_batch:
  assumes B: "beside c ou before I J"
    and "ok I w" "gr_SweepBefore run = before" "sweep_batch ou c run xs cur result w = (r, w')"
  shows "ok I w'"
  using assms(2-4)
proof (induction xs arbitrary: cur result w)
  case (Cons x xs)
  obtain e w1 where ctx: "ctx_Err ou w = (e, w1)" by (metis prod.exhaust)
  then have w1: "ok I w1" using ok_ctx [OF ctx] Cons.prems(1) by blast
  show ?case
  proof (cases e)
    case None
    obtain result1 w2 where col: "collect_blob ou c run x result w1 = (result1, w2)" by (metis prod.exhaust)
    show ?thesis
      using Cons.IH [OF ok_collect [OF B w1 Cons.prems(2) col] Cons.prems(2)] Cons.prems(3) ctx None col by simp
  qed (use Cons.prems ctx w1 in auto)
qed simp

lemma ok_interrupted:
  "beside c ou before I J \<Longrightarrow> ok I w \<Longrightarrow>
    apfst Some (interrupted ou c rid cur result e w) = (r, w') \<Longrightarrow> ok I w'"
  using ok_save [of c ou before I J w rid cur result] by (auto simp: interrupted_def)

lemma ok_loop:
  assumes B: "beside c ou before I J"
    and "ok I w" "gr_SweepBefore run = before" "sweep_loop fuel ou c run started cur result w = (r, w')"
  shows "ok I w'"
  using assms(2-4)
proof (induction fuel arbitrary: cur result w)
  case (Suc fuel)
  note stop = ok_interrupted [OF B] and save = ok_save [OF B] and fin = ok_finish [OF B]
  obtain e w1 where ctx: "ctx_Err ou w = (e, w1)" by (metis prod.exhaust)
  then have w1: "ok I w1" using ok_ctx [OF ctx] Suc.prems(1) by blast
  show ?case
  proof (cases e)
    case (Some x)
    then show ?thesis using Suc.prems(3) ctx stop [OF w1] by simp
  next
    case None
    define w2 where "w2 = meanwhile ou CallList w1"
    have w2: "ok I w2" using w1 B by (simp add: w2_def ok_meanwhile)
    show ?thesis
    proof (cases "gs_ListSweepCandidates (co_meta c) (ou_ctx ou (wo_tick w2)) before cur (co_batch c) (wo_meta w2)")
      case (Inl err)
      obtain e3 w3 where ctx3: "ctx_Err ou w2 = (e3, w3)" by (metis prod.exhaust)
      then have "ok I w3" using ok_ctx [OF ctx3] w2 by blast
      then show ?thesis
        using Suc.prems(2,3) ctx None Inl ctx3 stop [of w3] fin [OF save [of w3]]
        by (cases e3) (auto simp: Let_def w2_def [symmetric])
    next
      case (Inr xs)
      obtain e3 cur1 result1 w3 where bat: "sweep_batch ou c run xs cur result w2 = ((e3, cur1, result1), w3)"
        by (metis prod.exhaust)
      have w3: "ok I w3" by (rule ok_batch [OF B w2 Suc.prems(2) bat])
      show ?thesis
      proof (cases "xs = []")
        case True
        then show ?thesis
          using Suc.prems(2,3) ctx None Inr fin [OF save [OF w2]]
          by (auto simp: Let_def w2_def [symmetric] publishCompleted_def split: if_splits)
      next
        case False
        then show ?thesis
          using Suc.prems(2,3) ctx None Inr bat stop [OF w3] Suc.IH [OF save [OF w3] Suc.prems(2)]
          by (cases e3) (auto simp: Let_def w2_def [symmetric])
      qed
    qed
  qed
qed simp

lemma ok_begin:
  assumes B: "beside c ou before I J"
    and "ok I w" "begin_run ou c w = (r, w')"
  shows "ok I w'"
proof -
  define w1 where "w1 = meanwhile ou CallResumable w"
  define w2 where "w2 = meanwhile ou CallStart w1"
  have ok: "ok I w1" "ok I w2" using assms(2) B by (simp_all add: w1_def w2_def ok_meanwhile)
  moreover obtain e3 w3 e4 w4 where "ctx_Err ou w1 = (e3, w3)" "ctx_Err ou w2 = (e4, w4)"
    by (metis prod.exhaust)
  moreover from this have "ok I w3" "ok I w4" using ok by (blast intro: ok_ctx)+
  ultimately show ?thesis
    using assms(3) ok_calls(1) [OF B ok(2)]
    by (auto simp: begin_run_def Let_def w1_def [symmetric] w2_def [symmetric]
        split: sum.splits if_splits option.splits)
qed

lemma ok_Run:
  assumes B: "beside c ou before I J"
    and "ok I w" "Run fuel ou c w = (r, w')"
    and "\<And>run resumed w1. begin_run ou c w = (Inr (run, resumed), w1) \<Longrightarrow> gr_SweepBefore run = before"
  shows "ok I w'"
proof -
  obtain x w1 where beg: "begin_run ou c w = (x, w1)" by (metis prod.exhaust)
  note w1 = ok_begin [OF B assms(2) beg]
  show ?thesis
  proof (cases x)
    case (Inl e)
    then show ?thesis using assms(3) beg w1 by (simp add: Run_def)
  next
    case (Inr p)
    then show ?thesis
      using assms(3,4) beg ok_loop [OF B w1] by (cases p) (auto simp: Run_def)
  qed
qed

section \<open>The contract with the metadata store\<close>

text \<open>What the collector relies on, over three views of a store: its blob rows, which rows a sweep with a
  given deadline may collect, and whether it is in order and answers at all.\<close>

locale sweep_store =
  fixes meta :: "'s gc_Store"
    and rows :: "'s \<Rightarrow> (Digest, Blob) fmap"
    and collectable :: "'s \<Rightarrow> gotime \<Rightarrow> Digest \<Rightarrow> bool"
    and up :: "'s \<Rightarrow> bool"
  assumes collectable_row: "collectable s before d \<Longrightarrow> fmlookup (rows s) d \<noteq> None"
    and list_sound: "up s \<Longrightarrow> gs_ListSweepCandidates meta ctx before after n s = Inr bs \<Longrightarrow>
      sorted_wrt (<) (map bl_Digest bs) \<and>
      (\<forall>x \<in> set bs. after < bl_Digest x \<and> collectable s before (bl_Digest x) \<and>
         fmlookup (rows s) (bl_Digest x) = Some x)"
    and list_complete: "up s \<Longrightarrow> gs_ListSweepCandidates meta ctx before after n s = Inr bs \<Longrightarrow> 0 < n \<Longrightarrow>
      collectable s before d \<Longrightarrow> after < d \<Longrightarrow> d \<notin> bl_Digest ` set bs \<Longrightarrow>
      bs \<noteq> [] \<and> (\<forall>x \<in> set bs. bl_Digest x < d)"
    and delete_row: "gs_DeleteBlobIfUnreferenced meta ctx d before s = Inr (b, s') \<Longrightarrow>
      (if b then collectable s before d \<and> rows s' = fmdrop d (rows s) \<and>
         (\<forall>before' d'. collectable s' before' d' \<longleftrightarrow> d' \<noteq> d \<and> collectable s before' d')
       else s' = s)"
    and start_keeps: "gs_StartGCRun meta ctx run s = Inr s' \<Longrightarrow> rows s' = rows s \<and> collectable s' = collectable s"
    and save_keeps: "gs_SaveGCProgress meta ctx rid cur x y z s = Inr s' \<Longrightarrow>
      rows s' = rows s \<and> collectable s' = collectable s"
    and finish_keeps: "gs_FinishGCRun meta ctx rid at failure s = Inr s' \<Longrightarrow>
      rows s' = rows s \<and> collectable s' = collectable s"
    and list_answers: "up s \<Longrightarrow> \<exists>bs. gs_ListSweepCandidates meta None before after n s = Inr bs"
    and row_answers: "up s \<Longrightarrow> \<exists>s'. gs_DeleteBlobIfUnreferenced meta None d before s = Inr (collectable s before d, s') \<and> up s'"
    and start_up: "up s \<Longrightarrow> gs_StartGCRun meta ctx run s = Inr s' \<Longrightarrow> up s'"
    and save_up: "up s \<Longrightarrow> gs_SaveGCProgress meta ctx rid cur x y z s = Inr s' \<Longrightarrow> up s'"
begin

lemma bookkeeping_keeps:
  assumes "(\<exists>ctx run. gs_StartGCRun meta ctx run s = Inr s1) \<or>
    (\<exists>ctx rid cur n d f. gs_SaveGCProgress meta ctx rid cur n d f s = Inr s1) \<or>
    (\<exists>ctx rid at failure. gs_FinishGCRun meta ctx rid at failure s = Inr s1)"
  shows "rows s1 = rows s \<and> collectable s1 = collectable s"
  using assms start_keeps save_keeps finish_keeps by blast

end

section \<open>The memory store keeps the contract\<close>

definition memory_gc :: "Store gc_Store" where
  "memory_gc = \<lparr>gs_ListSweepCandidates = ListSweepCandidates,
     gs_DeleteBlobIfUnreferenced = DeleteBlobIfUnreferenced, gs_StartGCRun = StartGCRun,
     gs_SaveGCProgress = SaveGCProgress, gs_FinishGCRun = FinishGCRun, gs_ResumableGCRun = ResumableGCRun\<rparr>"

lemma memory_gc_sel [simp]:
  "gs_ListSweepCandidates memory_gc = ListSweepCandidates"
  "gs_DeleteBlobIfUnreferenced memory_gc = DeleteBlobIfUnreferenced"
  "gs_StartGCRun memory_gc = StartGCRun" "gs_SaveGCProgress memory_gc = SaveGCProgress"
  "gs_FinishGCRun memory_gc = FinishGCRun" "gs_ResumableGCRun memory_gc = ResumableGCRun"
  by (simp_all add: memory_gc_def)

definition may_collect :: "Store \<Rightarrow> gotime \<Rightarrow> Digest \<Rightarrow> bool" where
  "may_collect s before d \<longleftrightarrow> (\<exists>blob. fmlookup (st_blobs s) d = Some blob \<and> sweepable s blob before)"

definition in_order :: "Store \<Rightarrow> bool" where
  "in_order s \<longleftrightarrow> checkOpen s = None \<and> fmpred (\<lambda>d blob. bl_Digest blob = d) (st_blobs s)"

lemma sweepable_cong:
  "st_refs s = st_refs t \<Longrightarrow> st_uploads s = st_uploads t \<Longrightarrow> sweepable s = sweepable t"
  by (simp add: sweepable_def referencedAsBlob_def pinnedByUpload_def fun_eq_iff)

lemma call_Inr: "with_open ctx s body = Inr x \<longleftrightarrow> ctx = None \<and> checkOpen s = None \<and> body = Inr x"
  by (auto simp: with_open_def split: option.splits)

definition candidates_after :: "gotime \<Rightarrow> Digest \<Rightarrow> Store \<Rightarrow> Blob list" where
  "candidates_after before after s = sort_key bl_Digest
     (filter (\<lambda>blob. \<not> bl_Digest blob \<le> after \<and> sweepable s blob before) (map snd (entries (st_blobs s))))"

lemma ListSweepCandidates_eq:
  "ListSweepCandidates ctx before after n s = Inr bs \<longleftrightarrow> ctx = None \<and> checkOpen s = None \<and>
     bs = (if n \<le> 0 then [] else take (nat n) (candidates_after before after s))"
  by (auto simp: ListSweepCandidates_def call_Inr candidates_after_def [symmetric] Let_def)

lemma set_candidates_after:
  assumes "in_order s"
  shows "x \<in> set (candidates_after before after s) \<longleftrightarrow>
    fmlookup (st_blobs s) (bl_Digest x) = Some x \<and> after < bl_Digest x \<and> sweepable s x before"
  using assms by (force simp: candidates_after_def in_order_def dest: fmpredD)

lemma candidates_after_sorted:
  assumes "in_order s"
  shows "sorted_wrt (<) (map bl_Digest (candidates_after before after s))"
proof -
  have "map (bl_Digest \<circ> snd) (entries (st_blobs s)) = map fst (entries (st_blobs s))"
    using assms by (auto simp: in_order_def dest: fmpredD)
  then have "distinct (map bl_Digest (map snd (entries (st_blobs s))))"
    by (metis distinct_entries map_map)
  then have "distinct (map bl_Digest (filter (\<lambda>blob. \<not> bl_Digest blob \<le> after \<and> sweepable s blob before)
      (map snd (entries (st_blobs s)))))" by (rule distinct_map_filter)
  then have "distinct (map bl_Digest (candidates_after before after s))"
    by (simp add: candidates_after_def distinct_map)
  moreover have "sorted (map bl_Digest (candidates_after before after s))"
    by (simp add: candidates_after_def)
  ultimately show ?thesis by (simp add: strict_sorted_iff)
qed

interpretation hosted_rows: sweep_store memory_gc st_blobs may_collect in_order
proof (unfold_locales, unfold memory_gc_sel, goal_cases)
  case (1 s before d)
  then show ?case by (auto simp: may_collect_def)
next
  case (2 s ctx before after n bs)
  then have "bs = take (if n \<le> 0 then 0 else nat n) (candidates_after before after s)"
    by (auto simp: ListSweepCandidates_eq)
  then obtain m where bs: "bs = take m (candidates_after before after s)" by blast
  have "sorted_wrt (<) (map bl_Digest bs)"
    unfolding bs take_map [symmetric] by (rule sorted_wrt_take [OF candidates_after_sorted [OF 2(1)]])
  moreover have "set bs \<subseteq> set (candidates_after before after s)" by (subst bs) (rule set_take_subset)
  ultimately show ?case using set_candidates_after [OF 2(1)] by (auto simp: may_collect_def)
next
  case (3 s ctx before after n bs d)
  obtain x where x: "fmlookup (st_blobs s) d = Some x" "sweepable s x before" using 3(4) by (auto simp: may_collect_def)
  then have "bl_Digest x = d" using 3(1) by (auto simp: in_order_def dest: fmpredD)
  then have "x \<in> set (candidates_after before after s)" using x 3(5) by (simp add: set_candidates_after [OF 3(1)])
  moreover have bs: "bs = take (nat n) (candidates_after before after s)" using 3(2,3) by (simp add: ListSweepCandidates_eq)
  ultimately obtain j where j: "nat n \<le> j" "j < length (candidates_after before after s)"
      "candidates_after before after s ! j = x"
    using 3(6) \<open>bl_Digest x = d\<close> unfolding bs in_set_conv_nth
    by (metis image_eqI in_set_conv_nth length_take min_less_iff_conj nth_take not_le)
  have "bl_Digest y < d" if y: "y \<in> set bs" for y
  proof -
    obtain i where i: "i < nat n" "candidates_after before after s ! i = y" "i < length (candidates_after before after s)"
      using y unfolding bs by (auto simp: in_set_conv_nth)
    then show ?thesis
      using sorted_wrt_nth_less [OF candidates_after_sorted [OF 3(1), of before after], of i j] j \<open>bl_Digest x = d\<close> by simp
  qed
  moreover have "bs \<noteq> []" using j 3(3) unfolding bs by auto
  ultimately show ?case by blast
next
  case (4 ctx d before s b s')
  then show ?case
  proof (cases b)
    case True
    then have "may_collect s before d" "s' = s\<lparr>st_blobs := fmdrop d (st_blobs s)\<rparr>"
      using 4 by (auto simp: DeleteBlobIfUnreferenced_def call_Inr may_collect_def split: option.splits if_splits)
    then show ?thesis using True sweepable_cong [of "s\<lparr>st_blobs := fmdrop d (st_blobs s)\<rparr>" s]
      by (auto simp: may_collect_def)
  qed (auto simp: DeleteBlobIfUnreferenced_def call_Inr split: option.splits if_splits)
next
  case (5 ctx run s s')
  then have "st_blobs s' = st_blobs s" "sweepable s' = sweepable s"
    by (auto simp: StartGCRun_def call_Inr intro!: sweepable_cong split: if_splits)
  then show ?case by (simp add: may_collect_def fun_eq_iff)
next
  case (6 ctx rid cur x y z s s')
  then have "st_blobs s' = st_blobs s" "sweepable s' = sweepable s"
    by (auto simp: SaveGCProgress_def call_Inr intro!: sweepable_cong split: option.splits)
  then show ?case by (simp add: may_collect_def fun_eq_iff)
next
  case (7 ctx rid at failure s s')
  then have "st_blobs s' = st_blobs s" "sweepable s' = sweepable s"
    by (auto simp: FinishGCRun_def call_Inr intro!: sweepable_cong split: option.splits)
  then show ?case by (simp add: may_collect_def fun_eq_iff)
next
  case (8 s before after n)
  then show ?case by (auto simp: ListSweepCandidates_eq in_order_def)
next
  case (9 s d before)
  let ?t = "if may_collect s before d then s\<lparr>st_blobs := fmdrop d (st_blobs s)\<rparr> else s"
  have "DeleteBlobIfUnreferenced None d before s = Inr (may_collect s before d, ?t)"
    using 9 by (auto simp: DeleteBlobIfUnreferenced_def with_open_def in_order_def may_collect_def split: option.split)
  moreover have "in_order ?t" using 9 by (simp add: in_order_def checkOpen_def fmpred_fmdrop split: if_splits)
  ultimately show ?case by blast
next
  case (10 s ctx run s')
  then show ?case by (auto simp: StartGCRun_def call_Inr in_order_def checkOpen_def split: if_splits)
next
  case (11 s ctx rid cur x y z s')
  then show ?case by (auto simp: SaveGCProgress_def call_Inr in_order_def checkOpen_def split: option.splits)
qed

section \<open>Safety\<close>

definition shielded :: "gotime \<Rightarrow> Digest \<Rightarrow> Store \<Rightarrow> bool" where
  "shielded T d s \<longleftrightarrow> (\<exists>blob. fmlookup (st_blobs s) d = Some blob \<and>
     (T \<le> bl_CreatedAt blob \<or> referencedAsBlob s (bl_Digest blob) \<or> pinnedByUpload s (bl_Digest blob)))"

lemma shielded_iff:
  "shielded T d s \<longleftrightarrow> fmlookup (st_blobs s) d \<noteq> None \<and> (\<forall>before \<le> T. \<not> may_collect s before d)"
  by (cases "fmlookup (st_blobs s) d") (auto simp: shielded_def may_collect_def sweepable_def not_less)

text \<open>C12: What is in use survives a sweep, whatever runs beside it. Take a blob that is referenced by a
  manifest, pinned by an upload, or recorded at or after the deadline, and suppose the rest of the
  process keeps it so and keeps its bytes. Then after a sweep, completed, interrupted or failed, with
  other calls interleaved before every one of its own and its context cancelled at any point, the row and
  the bytes are still there and still protected.\<close>

theorem sweep_spares_what_is_in_use:
  assumes "co_meta c = memory_gc" "co_blobs c = Delete_blob"
    and "\<And>s b i call. shielded T d s \<and> holds_blob b d \<Longrightarrow>
      shielded T d (fst (ou_env ou i call (s, b))) \<and> holds_blob (snd (ou_env ou i call (s, b))) d"
    and "shielded T d (wo_meta w)" "holds_blob (wo_bytes w) d"
    and "\<And>run resumed w1. begin_run ou c w = (Inr (run, resumed), w1) \<Longrightarrow> gr_SweepBefore run \<le> T"
    and "Run fuel ou c w = (r, w')"
  shows "shielded T d (wo_meta w') \<and> holds_blob (wo_bytes w') d"
proof -
  let ?I = "\<lambda>s b. shielded T d s \<and> holds_blob b d"
  have B: "beside c ou before ?I (\<lambda>d' s b. ?I s b \<and> d' \<noteq> d)" if "before \<le> T" for before
    unfolding beside_def
  proof (intro conjI allI impI)
    fix s b i call assume "?I s b"
    then show "shielded T d (fst (ou_env ou i call (s, b)))" "holds_blob (snd (ou_env ou i call (s, b))) d"
      using assms(3) by blast+
  next
    fix s b ctx d' deleted s1
    assume s: "?I s b" "gs_DeleteBlobIfUnreferenced (co_meta c) ctx d' before s = Inr (deleted, s1)"
    note del = hosted_rows.delete_row [OF s(2) [unfolded assms(1)]]
    have d': "d' \<noteq> d" if deleted using s(1) del that \<open>before \<le> T\<close> by (auto simp: shielded_iff)
    show "shielded T d s1" "holds_blob b d" using s(1) del d' by (auto simp: shielded_iff split: if_splits)
    then show "shielded T d s1" "holds_blob b d" "d' \<noteq> d" if deleted using d' that by simp_all
  next
    fix d' s b i ctx
    assume J: "?I s b \<and> d' \<noteq> d"
    show "shielded T d (fst (ou_env ou i (CallDeleteBytes d') (s, b)))" using assms(3) J by blast
    show "holds_blob (snd (co_blobs c ctx d' (snd (ou_env ou i (CallDeleteBytes d') (s, b))))) d"
      using assms(3) J blob_bytes.delete_other [of ctx d' "snd (ou_env ou i (CallDeleteBytes d') (s, b))" _ _ d]
      unfolding assms(2) by (metis prod.collapse)
  next
    fix s b s1
    assume s: "?I s b" "(\<exists>ctx run. gs_StartGCRun (co_meta c) ctx run s = Inr s1) \<or>
       (\<exists>ctx rid cur n d f. gs_SaveGCProgress (co_meta c) ctx rid cur n d f s = Inr s1) \<or>
       (\<exists>ctx rid at failure. gs_FinishGCRun (co_meta c) ctx rid at failure s = Inr s1)"
    have "st_blobs s1 = st_blobs s \<and> may_collect s1 = may_collect s"
      using s(2) unfolding assms(1) by (rule hosted_rows.bookkeeping_keeps)
    then show "shielded T d s1" "holds_blob b d" using s(1) by (simp_all add: shielded_iff)
  qed
  have w: "?I (wo_meta w) (wo_bytes w)" using assms(4,5) by simp
  show ?thesis
  proof (cases "\<exists>run resumed w1. begin_run ou c w = (Inr (run, resumed), w1)")
    case True
    then obtain run resumed w1 where beg: "begin_run ou c w = (Inr (run, resumed), w1)" by blast
    from ok_Run [OF B [OF assms(6) [OF beg]] w assms(7)] show ?thesis
      using beg by simp
  next
    case False
    from ok_Run [OF B [OF order_refl] w assms(7)] show ?thesis using False by blast
  qed
qed

definition rows_backed :: "Store \<Rightarrow> blob_Store \<Rightarrow> bool" where
  "rows_backed s b \<longleftrightarrow> (\<forall>d. fmlookup (st_blobs s) d \<noteq> None \<longrightarrow> holds_blob b d)"

text \<open>C14: A sweep does not make rows without bytes. If every blob row has its bytes, the rest of the
  process keeps it that way, and nobody records a digest again between the deletion of its row and the
  deletion of its bytes, then every row still has its bytes after a sweep, wherever it stopped.\<close>

theorem sweep_keeps_rows_backed:
  assumes "co_meta c = memory_gc" "co_blobs c = Delete_blob"
    and "\<And>s b i call. rows_backed s b \<Longrightarrow>
      rows_backed (fst (ou_env ou i call (s, b))) (snd (ou_env ou i call (s, b)))"
    and "\<And>s b i d. fmlookup (st_blobs s) d = None \<Longrightarrow>
      fmlookup (st_blobs (fst (ou_env ou i (CallDeleteBytes d) (s, b)))) d = None"
    and "rows_backed (wo_meta w) (wo_bytes w)" "Run fuel ou c w = (r, w')"
  shows "rows_backed (wo_meta w') (wo_bytes w')"
proof -
  have B: "beside c ou before rows_backed
      (\<lambda>d s b. rows_backed s b \<and> fmlookup (st_blobs s) d = None)" for before
    unfolding beside_def
  proof (intro conjI allI impI)
    fix s b ctx d deleted s1
    assume s: "rows_backed s b" "gs_DeleteBlobIfUnreferenced (co_meta c) ctx d before s = Inr (deleted, s1)"
    note del = hosted_rows.delete_row [OF s(2) [unfolded assms(1)]]
    show "rows_backed s1 b" using s(1) del by (auto simp: rows_backed_def split: if_splits)
    then show "rows_backed s1 b" "fmlookup (st_blobs s1) d = None" if deleted using del that by simp_all
  next
    fix s b s1
    assume s: "rows_backed s b" "(\<exists>ctx run. gs_StartGCRun (co_meta c) ctx run s = Inr s1) \<or>
       (\<exists>ctx rid cur n d f. gs_SaveGCProgress (co_meta c) ctx rid cur n d f s = Inr s1) \<or>
       (\<exists>ctx rid at failure. gs_FinishGCRun (co_meta c) ctx rid at failure s = Inr s1)"
    have "st_blobs s1 = st_blobs s \<and> may_collect s1 = may_collect s"
      using s(2) unfolding assms(1) by (rule hosted_rows.bookkeeping_keeps)
    then show "rows_backed s1 b" using s(1) by (simp add: rows_backed_def)
  next
    fix d s b i ctx
    let ?s = "fst (ou_env ou i (CallDeleteBytes d) (s, b))"
    let ?b = "snd (ou_env ou i (CallDeleteBytes d) (s, b))"
    assume "rows_backed s b \<and> fmlookup (st_blobs s) d = None"
    then have "rows_backed ?s ?b" "fmlookup (st_blobs ?s) d = None" using assms(3,4) by blast+
    then show "rows_backed ?s (snd (co_blobs c ctx d ?b))"
      unfolding rows_backed_def assms(2)
      using blob_bytes.delete_other [of ctx d ?b] by (metis prod.collapse)
  qed (use assms(3) in blast)
  obtain x w1 where "begin_run ou c w = (x, w1)" by (metis prod.exhaust)
  then show ?thesis
    using ok_Run [OF B assms(5,6)] by (cases x) auto
qed

section \<open>A sweep beside a push\<close>

text \<open>A store with one old blob nothing references, its bytes, and a collector over both.\<close>

definition old_blob :: Blob where
  "old_blob = \<lparr>bl_Digest = de_Digest sample_desc, bl_Size = 3, bl_CreatedAt = 5\<rparr>"

definition swept_world :: "(Store, blob_Store) world" where
  "swept_world = \<lparr>wo_meta = sample_store\<lparr>st_blobs := fmupd (bl_Digest old_blob) old_blob fmempty\<rparr>,
     wo_bytes = (New_blobs False)\<lparr>bs_blobs := fmupd (bl_Digest old_blob) ''abc'' fmempty\<rparr>,
     wo_tick = 0, wo_published = []\<rparr>"

definition sample_collector :: "(Store, blob_Store) Collector" where
  "sample_collector = \<lparr>co_meta = memory_gc, co_blobs = Delete_blob, co_events = True, co_grace = 10,
     co_batch = 2, co_newID = (\<lambda>_. ''run''), co_now = (\<lambda>_. 1000)\<rparr>"

text \<open>What a client that pushes an image with that layer does to the two stores: the bytes, the blob row,
  the manifest.\<close>

definition push_image :: "Store \<times> blob_Store \<Rightarrow> (merror + Store) \<times> blob_error option \<times> blob_Store" where
  "push_image p =
    (case Put None sample_hash (bl_Digest old_blob) [(''abc'', None)] (snd p) of (e, b) \<Rightarrow>
       (case PutBlob None (old_blob\<lparr>bl_CreatedAt := 1000\<rparr>) (fst p) of
          Inl x \<Rightarrow> (Inl x, e, b)
        | Inr s \<Rightarrow>
            (PutManifest None (sample_manifest ''m'') [\<lparr>mr_Child = bl_Digest old_blob, mr_Kind = RefLayer\<rparr>] s, e, b)))"

definition pushing :: "(Store, blob_Store) outside" where
  "pushing = \<lparr>ou_env = (\<lambda>_ call p. if call = CallDeleteBytes (bl_Digest old_blob)
       then (case push_image p of (Inr s, _, b) \<Rightarrow> (s, b) | _ \<Rightarrow> p) else p),
     ou_ctx = (\<lambda>_. None)\<rparr>"

text \<open>A push can lose to a sweep. The row of an old unreferenced blob is deleted; before its bytes
  are, a client pushes an image with that layer: the store has the bytes and keeps them, the blob is
  recorded anew and the manifest accepted; then the sweep deletes the bytes. Every call succeeded, the
  sweep reports a complete run without a leak, and the registry is left with a manifest and a blob row
  whose content is gone.\<close>

lemma push_between_row_and_bytes_is_lost:
  "(case Run 3 pushing sample_collector swept_world of
      (Some (result, None), w) \<Rightarrow>
        re_Complete result \<and> re_Deleted result = 1 \<and> re_Leaked result = 0 \<and>
        GetManifest None ''team/api'' ''m'' (wo_meta w) = Inr (sample_manifest ''m'') \<and>
        referencedAsBlob (wo_meta w) (bl_Digest old_blob) \<and>
        fmlookup (st_blobs (wo_meta w)) (bl_Digest old_blob) = Some (old_blob\<lparr>bl_CreatedAt := 1000\<rparr>) \<and>
        Stat None (bl_Digest old_blob) (wo_bytes w) = Inl (BlobNotFound ''blob'' (bl_Digest old_blob))
    | _ \<Rightarrow> False)"
  by code_simp

definition undisturbed :: "(nat \<Rightarrow> ctx_err option) \<Rightarrow> ('s, 'b) outside" where
  "undisturbed ctx = \<lparr>ou_env = (\<lambda>_ _ p. p), ou_ctx = ctx\<rparr>"

definition pushed_world :: "(Store, blob_Store) world" where
  "pushed_world = swept_world\<lparr>wo_meta := projr (fst (push_image (wo_meta swept_world, wo_bytes swept_world)))\<rparr>"

theorem sweep_spares_what_is_in_use_witness:
  "shielded 990 (bl_Digest old_blob)
     (wo_meta (snd (Run 3 (undisturbed (\<lambda>i. if i = 4 then Some Canceled else None)) sample_collector pushed_world)))"
proof -
  let ?ou = "undisturbed (\<lambda>i. if i = 4 then Some Canceled else None) :: (Store, blob_Store) outside"
  let ?d = "bl_Digest old_blob"
  obtain r w' where run: "Run 3 ?ou sample_collector pushed_world = (r, w')" by (metis prod.exhaust)
  have row: "fmlookup (st_blobs (wo_meta pushed_world)) ?d = Some old_blob" by code_simp
  have "referencedAsBlob (wo_meta pushed_world) ?d" by code_simp
  then have "shielded 990 ?d (wo_meta pushed_world)" using row by (simp add: shielded_def)
  moreover have "fmlookup (bs_blobs (wo_bytes pushed_world)) ?d = Some ''abc''" by code_simp
  moreover have "gr_SweepBefore run \<le> 990"
    if "begin_run ?ou sample_collector pushed_world = (Inr (run, resumed), w1)" for run resumed w1
  proof -
    have "case begin_run ?ou sample_collector pushed_world of
      (Inr (run, resumed), w1) \<Rightarrow> gr_SweepBefore run \<le> 990 | _ \<Rightarrow> True" by code_simp
    then show ?thesis using that by simp
  qed
  ultimately have "shielded 990 ?d (wo_meta w')"
    using sweep_spares_what_is_in_use [of sample_collector 990 ?d ?ou pushed_world 3 r w'] run
    by (auto simp: sample_collector_def undisturbed_def holds_blob_def)
  then show ?thesis using run by simp
qed

theorem sweep_keeps_rows_backed_witness:
  "rows_backed (wo_meta (snd (Run 3 (undisturbed (\<lambda>_. None)) sample_collector swept_world)))
     (wo_bytes (snd (Run 3 (undisturbed (\<lambda>_. None)) sample_collector swept_world)))"
proof -
  have "fmlookup (bs_blobs (wo_bytes swept_world)) (bl_Digest old_blob) = Some ''abc''" by code_simp
  then have "rows_backed (wo_meta swept_world) (wo_bytes swept_world)"
    by (simp add: rows_backed_def holds_blob_def swept_world_def)
  then show ?thesis
    using sweep_keeps_rows_backed [of sample_collector "undisturbed (\<lambda>_. None)" swept_world 3
        "fst (Run 3 (undisturbed (\<lambda>_. None)) sample_collector swept_world)"
        "snd (Run 3 (undisturbed (\<lambda>_. None)) sample_collector swept_world)"]
    by (simp add: sample_collector_def undisturbed_def)
qed

end
