(* ===== verification/GC_Live.thy ===== *)
theory GC_Live
  imports GC_Sweep
begin

text \<open>
  What a sweep achieves when nothing disturbs it: it ends, everything collectable is gone, rows and
  bytes, and nothing else is; the run is closed and reported.
\<close>

locale sweeper = sweep_store meta rows collectable up + byte_store delete holds
  for meta :: "'s gc_Store" and rows collectable up
    and delete :: "'b gc_BlobStore" and holds

text \<open>The bytes the rows of \<open>D\<close> account for.\<close>

definition freed :: "(Digest, Blob) fmap \<Rightarrow> Digest set \<Rightarrow> int" where
  "freed m D = (\<Sum>d \<in> D. bl_Size (the (fmlookup m d)))"

lemma freed_simps [simp]:
  "freed m {} = 0" "freed m {d} = bl_Size (the (fmlookup m d))"
  by (simp_all add: freed_def)

lemma freed_Un:
  assumes "finite D" "finite E" "D \<inter> E = {}"
  shows "freed m (D \<union> E) = freed m D + freed (fmfilter (\<lambda>d. d \<notin> D) m) E"
proof -
  have "freed (fmfilter (\<lambda>d. d \<notin> D) m) E = freed m E"
    unfolding freed_def using assms(3) by (intro sum.cong) auto
  then show ?thesis using assms by (simp add: freed_def sum.union_disjoint)
qed

text \<open>What a stretch of a sweep that nothing disturbs has done once it has dealt with the collectable
  digests \<open>D\<close>.\<close>

definition swept ::
    "('s \<Rightarrow> (Digest, Blob) fmap) \<Rightarrow> ('s \<Rightarrow> gotime \<Rightarrow> Digest \<Rightarrow> bool) \<Rightarrow> ('s \<Rightarrow> bool) \<Rightarrow> ('b \<Rightarrow> string \<Rightarrow> bool) \<Rightarrow>
     Digest set \<Rightarrow> Result \<times> ('s, 'b) world \<Rightarrow> Result \<times> ('s, 'b) world \<Rightarrow> bool" where
  "swept rows collectable up holds D = (\<lambda>(r, w) (r', w').
    up (wo_meta w') \<and>
    rows (wo_meta w') = fmfilter (\<lambda>d. d \<notin> D) (rows (wo_meta w)) \<and>
    (\<forall>before d. collectable (wo_meta w') before d \<longleftrightarrow> d \<notin> D \<and> collectable (wo_meta w) before d) \<and>
    (\<forall>d. holds (wo_bytes w') d \<longrightarrow> holds (wo_bytes w) d) \<and>
    (\<forall>d. d \<in> D \<and> Validate_digest d = None \<longrightarrow> \<not> holds (wo_bytes w') d) \<and>
    (\<forall>d. d \<notin> D \<longrightarrow> holds (wo_bytes w') d = holds (wo_bytes w) d) \<and>
    wo_published w' = wo_published w \<and>
    re_RunID r' = re_RunID r \<and> re_Resumed r' = re_Resumed r \<and>
    re_Deleted r' = re_Deleted r + int (card D) \<and> re_Scanned r' = re_Scanned r + int (card D) \<and>
    re_Skipped r' = re_Skipped r \<and>
    (wrap64 (re_Bytes r) = re_Bytes r \<longrightarrow>
       re_Bytes r' = wrap64 (re_Bytes r + freed (rows (wo_meta w)) D)) \<and>
    ((\<forall>d \<in> D. Validate_digest d = None) \<longrightarrow> re_Leaked r' = re_Leaked r))"

lemma swept_empty: "up (wo_meta w) \<Longrightarrow> swept rows collectable up holds {} (r, w) (r, w)"
  by (simp add: swept_def)

lemma fmfilter_Un: "fmfilter (\<lambda>d. d \<notin> D \<union> E) m = fmfilter (\<lambda>d. d \<notin> E) (fmfilter (\<lambda>d. d \<notin> D) m)"
  by (rule fmap_ext) simp

lemma swept_trans:
  assumes "swept rows collectable up holds D (r, w) (r1, w1)" "swept rows collectable up holds E (r1, w1) (r2, w2)"
    and "D \<inter> E = {}" "finite D" "finite E"
  shows "swept rows collectable up holds (D \<union> E) (r, w) (r2, w2)"
proof -
  note one = assms(1) [unfolded swept_def split_conv] and two = assms(2) [unfolded swept_def split_conv]
  have "rows (wo_meta w2) = fmfilter (\<lambda>d. d \<notin> D \<union> E) (rows (wo_meta w))"
    using one two by (simp only: fmfilter_Un)
  moreover have "\<forall>before d. collectable (wo_meta w2) before d \<longleftrightarrow> d \<notin> D \<union> E \<and> collectable (wo_meta w) before d"
    using one two by auto
  moreover have "\<forall>d. holds (wo_bytes w2) d \<longrightarrow> holds (wo_bytes w) d" using one two by blast
  moreover have "\<forall>d. d \<in> D \<union> E \<and> Validate_digest d = None \<longrightarrow> \<not> holds (wo_bytes w2) d" using one two by blast
  moreover have "\<forall>d. d \<notin> D \<union> E \<longrightarrow> holds (wo_bytes w2) d = holds (wo_bytes w) d" using one two by auto
  moreover have "int (card (D \<union> E)) = int (card D) + int (card E)" using assms(3-5) by (simp add: card_Un_disjoint)
  moreover have "(\<forall>d \<in> D \<union> E. Validate_digest d = None) \<longrightarrow> re_Leaked r2 = re_Leaked r" using one two by auto
  moreover have "wrap64 (re_Bytes r) = re_Bytes r \<longrightarrow>
      re_Bytes r2 = wrap64 (re_Bytes r + freed (rows (wo_meta w)) (D \<union> E))"
    using one two by (simp add: freed_Un [OF assms(4,5,3)] wrap64_twice add.assoc [symmetric] cong del: fmfilter_cong)
  moreover have "up (wo_meta w2)" "wo_published w2 = wo_published w" "re_RunID r2 = re_RunID r"
    "re_Resumed r2 = re_Resumed r" "re_Skipped r2 = re_Skipped r"
    "re_Deleted r2 = re_Deleted r + int (card D) + int (card E)"
    "re_Scanned r2 = re_Scanned r + int (card D) + int (card E)" using one two by auto
  ultimately show ?thesis unfolding swept_def split_conv by (intro conjI) (assumption | linarith)+
qed

lemma swept_tick:
  "swept rows collectable up holds D (r, w\<lparr>wo_tick := t\<rparr>) q = swept rows collectable up holds D (r, w) q"
  by (cases q) (simp add: swept_def cong del: fmfilter_cong)

lemma undisturbed_sel [simp]:
  "meanwhile (undisturbed ctx) call w = w\<lparr>wo_tick := Suc (wo_tick w)\<rparr>"
  "ctx_Err (undisturbed ctx) w = (ctx (wo_tick w), w\<lparr>wo_tick := Suc (wo_tick w)\<rparr>)"
  "ou_ctx (undisturbed ctx) = ctx"
  by (simp_all add: undisturbed_def meanwhile_def ctx_Err_def)

context sweeper
begin

lemma swept_collect:
  assumes "co_meta c = meta" "co_blobs c = delete" "up (wo_meta w)"
    and "collectable (wo_meta w) (gr_SweepBefore run) (bl_Digest x)"
    and [simp]: "fmlookup (rows (wo_meta w)) (bl_Digest x) = Some x"
  shows "swept rows collectable up holds {bl_Digest x} (result, w)
    (collect_blob (undisturbed (\<lambda>_. None)) c run x result w)"
proof -
  let ?d = "bl_Digest x"
  obtain s where s: "gs_DeleteBlobIfUnreferenced meta None ?d (gr_SweepBefore run) (wo_meta w) = Inr (True, s)" "up s"
    using row_answers [OF assms(3), of ?d "gr_SweepBefore run"] assms(4) by auto
  note row = delete_row [OF s(1), simplified]
  have rows: "rows s = fmfilter (\<lambda>d. d \<notin> {?d}) (rows (wo_meta w))"
    using row by (intro fmap_ext) simp
  show ?thesis
  proof (cases "Validate_digest ?d")
    case (Some e)
    then show ?thesis using s rows row assms(1)
      by (simp add: swept_def collect_blob_def reclaim_def NewHostedRef_def cong del: fmfilter_cong)
  next
    case None
    obtain e b where del: "delete None ?d (wo_bytes w) = (e, b)" by (metis prod.exhaust)
    then have e: "e = None \<or> e = Some (BlobNotFound ''blob'' ?d)"
      using delete_answers [OF None, of "wo_bytes w"] by simp
    have "\<not> holds b ?d" "\<And>d. d \<noteq> ?d \<Longrightarrow> holds b d = holds (wo_bytes w) d" "\<And>d. holds b d \<Longrightarrow> holds (wo_bytes w) d"
      using delete_gone [OF del e] delete_other [OF del] delete_never_adds [OF del] by blast+
    then show ?thesis using s rows row assms(1,2) None del e
      by (auto simp: swept_def collect_blob_def reclaim_def NewHostedRef_def cong del: fmfilter_cong)
  qed
qed

lemma swept_batch:
  assumes "co_meta c = meta" "co_blobs c = delete" "up (wo_meta w)"
    and "sorted_wrt (<) (map bl_Digest xs)"
    and "\<forall>x \<in> set xs. collectable (wo_meta w) (gr_SweepBefore run) (bl_Digest x) \<and>
      fmlookup (rows (wo_meta w)) (bl_Digest x) = Some x"
  shows "\<exists>result' w'. sweep_batch (undisturbed (\<lambda>_. None)) c run xs cur result w =
      ((None, (if xs = [] then cur else bl_Digest (last xs)), result'), w') \<and>
    swept rows collectable up holds (bl_Digest ` set xs) (result, w) (result', w')"
  using assms(3-5)
proof (induction xs arbitrary: cur result w)
  case Nil
  then show ?case by (simp add: swept_empty)
next
  case (Cons x xs)
  let ?w = "w\<lparr>wo_tick := Suc (wo_tick w)\<rparr>"
  obtain result1 w1 where col: "collect_blob (undisturbed (\<lambda>_. None)) c run x result ?w = (result1, w1)"
    by (metis prod.exhaust)
  then have one: "swept rows collectable up holds {bl_Digest x} (result, w) (result1, w1)"
    using swept_collect [OF assms(1,2), of ?w run x result] Cons.prems by (simp add: swept_tick)
  then have "up (wo_meta w1)" "\<forall>y \<in> set xs. collectable (wo_meta w1) (gr_SweepBefore run) (bl_Digest y) \<and>
      fmlookup (rows (wo_meta w1)) (bl_Digest y) = Some y"
    using Cons.prems by (auto simp: swept_def)
  from Cons.IH [OF this(1) _ this(2), of "bl_Digest x" result1] Cons.prems(2)
  obtain result' w' where rest:
    "sweep_batch (undisturbed (\<lambda>_. None)) c run xs (bl_Digest x) result1 w1 =
      ((None, (if xs = [] then bl_Digest x else bl_Digest (last xs)), result'), w')"
    "swept rows collectable up holds (bl_Digest ` set xs) (result1, w1) (result', w')" by auto
  have "{bl_Digest x} \<inter> bl_Digest ` set xs = {}" using Cons.prems(2) by auto
  from swept_trans [OF one rest(2) this] rest(1) col show ?case by simp
qed

end

lemma sorted_wrt_last:
  "sorted_wrt (<) (map (f :: 'a \<Rightarrow> 'k :: linorder) xs) \<Longrightarrow> x \<in> set xs \<Longrightarrow> f x \<le> f (last xs)"
  by (induction xs) (auto intro: less_imp_le)

context sweeper
begin

lemma finite_collectable: "finite {d. collectable s before d \<and> P d}"
proof (rule finite_subset)
  show "{d. collectable s before d \<and> P d} \<subseteq> fmdom' (rows s)"
    using collectable_row by (auto simp: fmdom'_def dom_def)
qed simp

lemma swept_save:
  assumes "swept rows collectable up holds D p (r, w)" "co_meta c = meta"
  shows "swept rows collectable up holds D p (r, saveProgress (undisturbed ctx) c rid cur result w)"
proof (cases "gs_SaveGCProgress meta None rid cur (re_Scanned result) (re_Deleted result) (re_Bytes result) (wo_meta w)")
  case (Inl e)
  then show ?thesis using assms
    by (cases p) (simp add: saveProgress_def swept_def cong del: fmfilter_cong)
next
  case (Inr s)
  have "up (wo_meta w)" using assms(1) by (cases p) (simp add: swept_def)
  then show ?thesis using assms Inr save_keeps [OF Inr] save_up [OF _ Inr]
    by (cases p) (simp add: saveProgress_def swept_def cong del: fmfilter_cong)
qed

lemma loop_completes:
  assumes "co_meta c = meta" "co_blobs c = delete" "0 < co_batch c" "up (wo_meta w)"
    and "card {d. collectable (wo_meta w) (gr_SweepBefore run) d \<and> cur < d} < fuel"
  shows "\<exists>result' w' cur' t. sweep_loop fuel (undisturbed (\<lambda>_. None)) c run started cur result w =
      (Some (result'\<lparr>re_Complete := True\<rparr>, None),
       publishCompleted c (result'\<lparr>re_Complete := True\<rparr>) t
         (finish_run (undisturbed (\<lambda>_. None)) c (gr_ID run) []
           (saveProgress (undisturbed (\<lambda>_. None)) c (gr_ID run) cur' (result'\<lparr>re_Complete := True\<rparr>) w'))) \<and>
    swept rows collectable up holds {d. collectable (wo_meta w) (gr_SweepBefore run) d \<and> cur < d} (result, w) (result', w')"
  using assms(4,5)
proof (induction fuel arbitrary: cur result w)
  case (Suc fuel)
  let ?ou = "undisturbed (\<lambda>_. None)" and ?before = "gr_SweepBefore run"
  let ?w = "w\<lparr>wo_tick := Suc (Suc (wo_tick w))\<rparr>"
  let ?D = "{d. collectable (wo_meta w) ?before d \<and> cur < d}"
  obtain xs where xs: "gs_ListSweepCandidates meta None ?before cur (co_batch c) (wo_meta w) = Inr xs"
    using list_answers [OF Suc.prems(1)] by blast
  note sound = list_sound [OF Suc.prems(1) xs] and complete = list_complete [OF Suc.prems(1) xs assms(3)]
  show ?case
  proof (cases "xs = []")
    case True
    then have none: "?D = {}" using complete by fastforce
    have "swept rows collectable up holds ?D (result, w) (result, ?w)"
      unfolding none using Suc.prems(1) by (simp add: swept_def cong del: fmfilter_cong)
    then show ?thesis using True xs assms(1)
      by (intro exI [of _ result] exI [of _ ?w]) (simp add: Let_def, blast)
  next
    case False
    obtain result1 w1 where batch: "sweep_batch ?ou c run xs cur result ?w = ((None, bl_Digest (last xs), result1), w1)"
      "swept rows collectable up holds (bl_Digest ` set xs) (result, ?w) (result1, w1)"
      using swept_batch [OF assms(1,2), of ?w xs run cur result] Suc.prems(1) sound False by auto
    let ?w1 = "saveProgress ?ou c (gr_ID run) (bl_Digest (last xs)) result1 w1"
    have one: "swept rows collectable up holds (bl_Digest ` set xs) (result, w) (result1, ?w1)"
      using swept_save [OF batch(2) assms(1)] by (simp add: swept_tick)
    let ?E = "{d. collectable (wo_meta ?w1) ?before d \<and> bl_Digest (last xs) < d}"
    have last: "last xs \<in> set xs" using False by simp
    have le: "bl_Digest x \<le> bl_Digest (last xs)" if "x \<in> set xs" for x
      using sorted_wrt_last [of bl_Digest xs] sound that by blast
    have E: "?E = ?D - bl_Digest ` set xs"
      using one sound complete last le by (auto simp: swept_def dest: order.strict_trans)
    have D: "?D = bl_Digest ` set xs \<union> ?E" using E sound by auto
    have "card ?E < card ?D"
      unfolding E using last sound by (intro psubset_card_mono finite_collectable) auto
    then have "card ?E < fuel" using Suc.prems(2) by simp
    moreover have "up (wo_meta ?w1)" using one by (simp add: swept_def)
    ultimately obtain result2 w2 cur2 t where rest:
      "sweep_loop fuel ?ou c run started (bl_Digest (last xs)) result1 ?w1 =
        (Some (result2\<lparr>re_Complete := True\<rparr>, None),
         publishCompleted c (result2\<lparr>re_Complete := True\<rparr>) t
           (finish_run ?ou c (gr_ID run) [] (saveProgress ?ou c (gr_ID run) cur2 (result2\<lparr>re_Complete := True\<rparr>) w2)))"
      "swept rows collectable up holds ?E (result1, ?w1) (result2, w2)"
      using Suc.IH [of ?w1 "bl_Digest (last xs)" result1] by blast
    have "swept rows collectable up holds ?D (result, w) (result2, w2)"
      unfolding D by (rule swept_trans [OF one rest(2)]) (auto simp: E finite_collectable)
    then show ?thesis using rest(1) batch(1) False xs assms(1)
      by (intro exI [of _ result2] exI [of _ w2] exI [of _ cur2] exI [of _ t]) (simp add: Let_def)
  qed
qed simp

end

interpretation hosted_sweeper: sweeper memory_gc st_blobs may_collect in_order Delete_blob holds_blob ..

lemma reachable_in_order: "reachable s \<Longrightarrow> \<not> st_closed s \<Longrightarrow> in_order s"
  using reachable_inv(4) [of s] by (auto simp: in_order_def checkOpen_def inv_blobs_def fmpred_iff)

text \<open>What a sweep does to the rows of runs: only its own changes, and not in what it was started with.\<close>

definition same_runs :: "string \<Rightarrow> Store \<Rightarrow> Store \<Rightarrow> bool" where
  "same_runs rid s s' \<longleftrightarrow>
    (\<forall>i. i \<noteq> rid \<longrightarrow> fmlookup (st_gcRuns s') i = fmlookup (st_gcRuns s) i) \<and>
    map_option (\<lambda>r. (gr_ID r, gr_StartedAt r, gr_SweepBefore r)) (fmlookup (st_gcRuns s') rid) =
      map_option (\<lambda>r. (gr_ID r, gr_StartedAt r, gr_SweepBefore r)) (fmlookup (st_gcRuns s) rid)"

lemma same_runs_write:
  assumes "co_meta c = memory_gc" "same_runs rid s (wo_meta w)"
  shows "same_runs rid s (wo_meta (saveProgress (undisturbed ctx) c rid cur result w))"
    "same_runs rid s (wo_meta (finish_run (undisturbed ctx) c rid failure w))"
  using assms
  by (auto simp: same_runs_def saveProgress_def finish_run_def SaveGCProgress_def FinishGCRun_def with_open_def Let_def
      split: option.splits sum.splits)

lemma collect_runs:
  "co_meta c = memory_gc \<Longrightarrow> collect_blob (undisturbed ctx) c run x result w = (result', w') \<Longrightarrow>
    st_gcRuns (wo_meta w') = st_gcRuns (wo_meta w)"
  by (auto simp: collect_blob_def reclaim_def DeleteBlobIfUnreferenced_def Let_def call_Inr
      split: sum.splits option.splits if_splits prod.splits)

lemma batch_runs:
  "co_meta c = memory_gc \<Longrightarrow> sweep_batch (undisturbed ctx) c run xs cur result w = (r, w') \<Longrightarrow>
    st_gcRuns (wo_meta w') = st_gcRuns (wo_meta w)"
  by (induction xs arbitrary: cur result w) (auto dest: collect_runs split: option.splits prod.splits)

lemma loop_runs:
  assumes "co_meta c = memory_gc"
  shows "sweep_loop fuel (undisturbed ctx) c run started cur result w = (r, w') \<Longrightarrow>
    same_runs (gr_ID run) s (wo_meta w) \<Longrightarrow> same_runs (gr_ID run) s (wo_meta w')"
proof (induction fuel arbitrary: cur result w)
  case (Suc fuel)
  have batch: "same_runs (gr_ID run) s (wo_meta w3)"
    if "sweep_batch (undisturbed ctx) c run xs cur result (w\<lparr>wo_tick := t\<rparr>) = (q, w3)" for xs t q w3
    using batch_runs [OF assms that] Suc.prems(2) by (simp add: same_runs_def)
  show ?case using Suc.prems
    by (auto simp: interrupted_def publishCompleted_def Let_def split: option.splits sum.splits if_splits prod.splits
        dest!: Suc.IH intro!: same_runs_write [OF assms] dest: batch)
qed simp

lemma closing_writes:
  assumes "co_meta c = memory_gc" "\<not> st_closed (wo_meta w)" "fmlookup (st_gcRuns (wo_meta w)) rid = Some run"
  shows "\<exists>t. st_gcRuns (wo_meta (finish_run (undisturbed ctx) c rid failure
      (saveProgress (undisturbed ctx) c rid cur result w))) =
    fmupd rid (run\<lparr>gr_Cursor := cur, gr_Scanned := re_Scanned result, gr_Deleted := re_Deleted result,
      gr_FreedBytes := re_Bytes result, gr_FinishedAt := co_now c t, gr_Failure := failure\<rparr>) (st_gcRuns (wo_meta w))"
proof -
  let ?run = "run\<lparr>gr_Cursor := cur, gr_Scanned := re_Scanned result, gr_Deleted := re_Deleted result,
    gr_FreedBytes := re_Bytes result\<rparr>"
  let ?w = "saveProgress (undisturbed ctx) c rid cur result w"
  have "st_gcRuns (wo_meta ?w) = fmupd rid ?run (st_gcRuns (wo_meta w)) \<and> \<not> st_closed (wo_meta ?w)"
    using assms by (simp add: saveProgress_def SaveGCProgress_def with_open_def checkOpen_def Let_def)
  then show ?thesis using assms(1)
    by (intro exI [of _ "Suc (wo_tick ?w)"])
      (simp add: finish_run_def FinishGCRun_def with_open_def checkOpen_def Let_def fmupd_idem)
qed

lemma closing_keeps:
  assumes "co_meta c = memory_gc"
  shows "st_blobs (wo_meta (finish_run (undisturbed ctx) c rid failure w)) = st_blobs (wo_meta w)"
    "st_blobs (wo_meta (saveProgress (undisturbed ctx) c rid cur result w)) = st_blobs (wo_meta w)"
    "st_closed (wo_meta (finish_run (undisturbed ctx) c rid failure w)) = st_closed (wo_meta w)"
    "st_closed (wo_meta (saveProgress (undisturbed ctx) c rid cur result w)) = st_closed (wo_meta w)"
    "wo_bytes (finish_run (undisturbed ctx) c rid failure w) = wo_bytes w"
    "wo_bytes (saveProgress (undisturbed ctx) c rid cur result w) = wo_bytes w"
    "wo_published (finish_run (undisturbed ctx) c rid failure w) = wo_published w"
    "wo_published (saveProgress (undisturbed ctx) c rid cur result w) = wo_published w"
  using assms
  by (auto simp: finish_run_def saveProgress_def FinishGCRun_def SaveGCProgress_def with_open_def Let_def
      split: option.splits sum.splits)

text \<open>The run's row in the end: as it was started, with the counters of the result, and closed.\<close>

lemma run_closed:
  assumes "co_meta c = memory_gc" "\<not> st_closed (wo_meta w)" "fmlookup (st_gcRuns s) rid = Some run"
    and "same_runs rid s (wo_meta (finish_run (undisturbed ctx) c rid [] (saveProgress (undisturbed ctx) c rid cur result w)))"
  shows "\<exists>t. st_gcRuns (wo_meta (finish_run (undisturbed ctx) c rid [] (saveProgress (undisturbed ctx) c rid cur result w))) =
    fmupd rid \<lparr>gr_ID = gr_ID run, gr_StartedAt = gr_StartedAt run, gr_FinishedAt = co_now c t,
      gr_SweepBefore = gr_SweepBefore run, gr_Cursor = cur, gr_Scanned = re_Scanned result,
      gr_Deleted = re_Deleted result, gr_FreedBytes = re_Bytes result, gr_Failure = []\<rparr> (st_gcRuns s)"
proof -
  let ?w = "finish_run (undisturbed ctx) c rid [] (saveProgress (undisturbed ctx) c rid cur result w)"
  have "\<exists>y. fmlookup (st_gcRuns (wo_meta w)) rid = Some y"
  proof (rule ccontr)
    assume "\<nexists>y. fmlookup (st_gcRuns (wo_meta w)) rid = Some y"
    then have "fmlookup (st_gcRuns (wo_meta ?w)) rid = None" using assms(1)
      by (auto simp: finish_run_def saveProgress_def FinishGCRun_def SaveGCProgress_def with_open_def Let_def
          split: option.splits sum.splits)
    then show False using assms(3,4) by (simp add: same_runs_def)
  qed
  then obtain y where "fmlookup (st_gcRuns (wo_meta w)) rid = Some y" by blast
  from closing_writes [OF assms(1,2) this, of ctx "[]" cur result]
  obtain t where t: "st_gcRuns (wo_meta ?w) = fmupd rid (y\<lparr>gr_Cursor := cur, gr_Scanned := re_Scanned result,
      gr_Deleted := re_Deleted result, gr_FreedBytes := re_Bytes result, gr_FinishedAt := co_now c t,
      gr_Failure := []\<rparr>) (st_gcRuns (wo_meta w))" by blast
  have head: "gr_ID y = gr_ID run" "gr_StartedAt y = gr_StartedAt run" "gr_SweepBefore y = gr_SweepBefore run"
    "\<And>i. i \<noteq> rid \<Longrightarrow> fmlookup (st_gcRuns (wo_meta w)) i = fmlookup (st_gcRuns s) i"
    using assms(3,4) unfolding same_runs_def t by (auto split: if_splits)
  show ?thesis unfolding t by (intro exI [of _ t] fmap_ext) (simp add: head)
qed

lemma newest_unfinished_None:
  "newest_unfinished n rs = None \<longleftrightarrow> n = None \<and> (\<forall>r \<in> set rs. gr_FinishedAt r \<noteq> 0)"
  by (induction n rs rule: newest_unfinished.induct) (auto split: option.splits if_splits)

lemma nothing_to_resume:
  "\<not> st_closed s \<Longrightarrow> ResumableGCRun None s = Inl (NotFound ''gc run'' ''unfinished'') \<longleftrightarrow>
    (\<forall>i r. fmlookup (st_gcRuns s) i = Some r \<longrightarrow> gr_FinishedAt r \<noteq> 0)"
proof -
  assume "\<not> st_closed s"
  then have "ResumableGCRun None s = Inl (NotFound ''gc run'' ''unfinished'') \<longleftrightarrow>
      newest_unfinished None (map snd (entries (st_gcRuns s))) = None"
    by (simp add: ResumableGCRun_def with_open_def checkOpen_def split: option.split)
  then show ?thesis unfolding newest_unfinished_None by auto
qed

text \<open>The run a sweep starts with when there is none to resume.\<close>

definition fresh_run :: "('s, 'b) Collector \<Rightarrow> nat \<Rightarrow> GCRun" where
  "fresh_run c t = \<lparr>gr_ID = co_newID c t, gr_StartedAt = co_now c t, gr_FinishedAt = 0,
    gr_SweepBefore = co_now c t - co_grace c, gr_Cursor = [], gr_Scanned = 0, gr_Deleted = 0, gr_FreedBytes = 0,
    gr_Failure = []\<rparr>"

lemma begin_fresh:
  fixes w :: "(Store, 'b) world"
  assumes "co_meta c = memory_gc" "\<not> st_closed (wo_meta w)"
    and "ResumableGCRun None (wo_meta w) = Inl (NotFound ''gc run'' ''unfinished'')"
    and "co_newID c t \<noteq> []" "fmlookup (st_gcRuns (wo_meta w)) (co_newID c t) = None" "t = Suc (wo_tick w)"
  shows "\<exists>s. StartGCRun None (fresh_run c t) (wo_meta w) = Inr s \<and>
    s = (wo_meta w)\<lparr>st_gcRuns := fmupd (co_newID c t) (fresh_run c t) (st_gcRuns (wo_meta w))\<rparr> \<and>
    begin_run (undisturbed (\<lambda>_. None)) c w = (Inr (fresh_run c t, False), w\<lparr>wo_meta := s, wo_tick := Suc t\<rparr>)"
proof -
  let ?s = "(wo_meta w)\<lparr>st_gcRuns := fmupd (co_newID c t) (fresh_run c t) (st_gcRuns (wo_meta w))\<rparr>"
  have start: "StartGCRun None (fresh_run c t) (wo_meta w) = Inr ?s"
    using assms(2,4,5) by (simp add: StartGCRun_def with_open_def checkOpen_def fresh_run_def)
  then have "begin_run (undisturbed (\<lambda>_. None)) c w = (Inr (fresh_run c t, False), w\<lparr>wo_meta := ?s, wo_tick := Suc t\<rparr>)"
    using assms(1,3,6) by (simp add: begin_run_def Let_def fresh_run_def [symmetric])
  with start show ?thesis by blast
qed

lemma publish_sel [simp]:
  "wo_meta (publishCompleted c result t w) = wo_meta w" "wo_bytes (publishCompleted c result t w) = wo_bytes w"
  by (simp_all add: publishCompleted_def)

text \<open>The loop of a sweep that has just started its run.\<close>

lemma fresh_loop:
  fixes w1 :: "(Store, blob_Store) world"
  assumes "co_meta c = memory_gc" "co_blobs c = Delete_blob" "0 < co_batch c"
    and "reachable s" "\<not> st_closed s" "StartGCRun None run s = Inr s1" "fcard (fmdom (st_blobs s)) < fuel"
    and "wo_meta w1 = s1"
  shows "\<exists>result w2 cur t. sweep_loop fuel (undisturbed (\<lambda>_. None)) c run started [] r0 w1 =
      (Some (result\<lparr>re_Complete := True\<rparr>, None),
       publishCompleted c (result\<lparr>re_Complete := True\<rparr>) t
         (finish_run (undisturbed (\<lambda>_. None)) c (gr_ID run) []
           (saveProgress (undisturbed (\<lambda>_. None)) c (gr_ID run) cur (result\<lparr>re_Complete := True\<rparr>) w2))) \<and>
    swept st_blobs may_collect in_order holds_blob {d. may_collect s (gr_SweepBefore run) d} (r0, w1) (result, w2)"
proof -
  note keep = hosted_rows.start_keeps [of None run s s1, unfolded memory_gc_sel, OF assms(6)]
  have up: "in_order s1"
    using reachable_in_order [OF assms(4,5)] hosted_rows.start_up [of s None run s1] assms(6) by simp
  let ?D = "{d. may_collect s1 (gr_SweepBefore run) d \<and> [] < d}"
  have "[] < d" if "may_collect s (gr_SweepBefore run) d" for d
  proof -
    have "d \<noteq> []" using that reachable_inv(4) [OF assms(4)] by (auto simp: may_collect_def inv_blobs_def fmpred_iff)
    then show ?thesis by (cases d) simp_all
  qed
  then have D: "?D = {d. may_collect s (gr_SweepBefore run) d}" using keep by auto
  have "?D \<subseteq> fset (fmdom (st_blobs s))" unfolding D by (auto simp: may_collect_def intro: fmdomI)
  then have "card ?D < fuel" using assms(7) card_mono [of "fset (fmdom (st_blobs s))" ?D] by (simp add: fcard.rep_eq)
  with hosted_sweeper.loop_completes [OF assms(1-3), of w1 run "[]" fuel started r0] up
  show ?thesis unfolding assms(8) D by blast
qed

text \<open>C13: A sweep collects everything it may, and ends. Take a collector as \<^verbatim>\<open>New\<close> builds it, over any
  metadata store that calls can produce, with no interrupted run to resume and fresh run identifiers.
  Undisturbed, with fuel for one round per blob row and one more, the sweep completes without an error:
  the rows left are exactly those that were younger than the grace window, referenced or pinned; of the
  bytes exactly those of collected rows are gone, except where a row does not name a digest; scanned and
  deleted count the collected rows, bytes is the total of their sizes (at 64 bits), and nothing was
  skipped. Of the runs only the new one's row changed: it has the identifier, the start, the deadline,
  the cursor and the counters of the sweep, no failure, and a clock reading as its end, so that, unless
  the clock reads the zero time, no run is left to resume. The completion is published once, with the
  counters of the result, and only if there is somewhere to publish it.\<close>

theorem undisturbed_sweep_completes:
  assumes "New_collector clock opts = Inr c" "go_Meta opts = Some memory_gc" "go_Blobs opts = Some Delete_blob"
    and "reachable (wo_meta w)" "\<not> st_closed (wo_meta w)"
    and "ResumableGCRun None (wo_meta w) = Inl (NotFound ''gc run'' ''unfinished'')"
    and "\<forall>i. co_newID c i \<noteq> [] \<and> fmlookup (st_gcRuns (wo_meta w)) (co_newID c i) = None"
    and "fcard (fmdom (st_blobs (wo_meta w))) < fuel"
  shows "\<exists>result w' before cur t secs. Run fuel (undisturbed (\<lambda>_. None)) c w = (Some (result, None), w') \<and>
    before = co_now c (Suc (wo_tick w)) - co_grace c \<and> 0 < co_grace c \<and>
    re_Complete result \<and> \<not> re_Resumed result \<and> re_RunID result = co_newID c (Suc (wo_tick w)) \<and>
    st_blobs (wo_meta w') = fmfilter (\<lambda>d. \<not> may_collect (wo_meta w) before d) (st_blobs (wo_meta w)) \<and>
    re_Scanned result = int (card {d. may_collect (wo_meta w) before d}) \<and>
    re_Deleted result = int (card {d. may_collect (wo_meta w) before d}) \<and> re_Skipped result = 0 \<and>
    re_Bytes result = wrap64 (freed (st_blobs (wo_meta w)) {d. may_collect (wo_meta w) before d}) \<and>
    (\<forall>d. Validate_digest d = None \<longrightarrow>
      (holds_blob (wo_bytes w') d \<longleftrightarrow> holds_blob (wo_bytes w) d \<and> \<not> may_collect (wo_meta w) before d)) \<and>
    st_gcRuns (wo_meta w') = fmupd (re_RunID result)
      \<lparr>gr_ID = re_RunID result, gr_StartedAt = co_now c (Suc (wo_tick w)), gr_FinishedAt = co_now c t,
       gr_SweepBefore = before, gr_Cursor = cur, gr_Scanned = re_Scanned result, gr_Deleted = re_Deleted result,
       gr_FreedBytes = re_Bytes result, gr_Failure = []\<rparr> (st_gcRuns (wo_meta w)) \<and>
    ((\<forall>i. co_now c i \<noteq> 0) \<longrightarrow>
      ResumableGCRun None (wo_meta w') = Inl (NotFound ''gc run'' ''unfinished'')) \<and>
    wo_published w' = wo_published w @
      (if co_events c
       then [\<lparr>gp_RunID = re_RunID result, gp_BlobsScanned = re_Scanned result, gp_BlobsDeleted = re_Deleted result,
         gp_BytesReclaimed = re_Bytes result, gp_DurationSeconds = secs, gp_Resumed = False\<rparr>]
       else [])"
proof -
  let ?ou = "undisturbed (\<lambda>_. None) :: (Store, blob_Store) outside"
  have c: "co_meta c = memory_gc" "co_blobs c = Delete_blob" "0 < co_batch c" "0 < co_grace c"
    using assms(1-3) by (auto simp: New_collector_def split: option.splits if_splits)
  define t where "t = Suc (wo_tick w)"
  define before where "before = co_now c t - co_grace c"
  define rid where "rid = co_newID c t"
  define run where "run = fresh_run c t"
  have run_sel: "gr_ID run = rid" "gr_StartedAt run = co_now c t" "gr_SweepBefore run = before" "gr_Cursor run = []"
      "gr_Scanned run = 0" "gr_Deleted run = 0" "gr_FreedBytes run = 0"
    by (simp_all add: run_def fresh_run_def rid_def before_def)
  have "co_newID c t \<noteq> []" "fmlookup (st_gcRuns (wo_meta w)) (co_newID c t) = None" using assms(7) by simp_all
  from begin_fresh [OF c(1) assms(5,6) this t_def, folded run_def rid_def]
  obtain s1 where s1: "StartGCRun None run (wo_meta w) = Inr s1"
      "s1 = (wo_meta w)\<lparr>st_gcRuns := fmupd rid run (st_gcRuns (wo_meta w))\<rparr>"
      "begin_run ?ou c w = (Inr (run, False), w\<lparr>wo_meta := s1, wo_tick := Suc t\<rparr>)"
    by (elim exE conjE)
  define w1 where "w1 = w\<lparr>wo_meta := s1, wo_tick := Suc t\<rparr>"
  define r0 where "r0 = no_result\<lparr>re_RunID := rid\<rparr>"
  obtain result w2 cur t' where loop:
      "sweep_loop fuel ?ou c run (co_now c (wo_tick w1)) [] r0 w1 =
        (Some (result\<lparr>re_Complete := True\<rparr>, None),
         publishCompleted c (result\<lparr>re_Complete := True\<rparr>) t'
           (finish_run ?ou c rid [] (saveProgress ?ou c rid cur (result\<lparr>re_Complete := True\<rparr>) w2)))"
    and swept: "swept st_blobs may_collect in_order holds_blob {d. may_collect (wo_meta w) before d} (r0, w1) (result, w2)"
    using fresh_loop [OF c(1-3) assms(4,5) s1(1) assms(8), of w1 "co_now c (wo_tick w1)" r0]
    unfolding run_sel by (simp add: w1_def) (elim exE conjE)
  let ?r = "result\<lparr>re_Complete := True\<rparr>"
  let ?w4 = "finish_run ?ou c rid [] (saveProgress ?ou c rid cur ?r w2)"
  have Run: "Run fuel ?ou c w = (Some (?r, None), publishCompleted c ?r t' ?w4)"
    using loop s1(3) by (simp add: Run_def w1_def r0_def run_sel)
  note sw = swept [unfolded swept_def split_conv]
  have op: "\<not> st_closed (wo_meta w2)" using sw by (auto simp: in_order_def checkOpen_def split: if_splits)
  have "same_runs rid s1 (wo_meta ?w4)"
    using loop_runs [OF c(1) loop, of s1] by (simp add: w1_def run_sel same_runs_def)
  from run_closed [OF c(1) op _ this, of run] obtain t2 where runs: "st_gcRuns (wo_meta ?w4) = fmupd rid
      \<lparr>gr_ID = rid, gr_StartedAt = co_now c t, gr_FinishedAt = co_now c t2, gr_SweepBefore = before, gr_Cursor = cur,
       gr_Scanned = re_Scanned ?r, gr_Deleted = re_Deleted ?r, gr_FreedBytes = re_Bytes ?r, gr_Failure = []\<rparr>
      (st_gcRuns (wo_meta w))" by (auto simp: s1(2) run_sel fmupd_idem)
  have rest: "ResumableGCRun None (wo_meta ?w4) = Inl (NotFound ''gc run'' ''unfinished'')" if "\<forall>i. co_now c i \<noteq> 0"
    using that op assms(5,6) by (auto simp: nothing_to_resume closing_keeps [OF c(1)] runs)
  show ?thesis
    by (intro exI [of _ ?r] exI [of _ "publishCompleted c ?r t' ?w4"] exI [of _ before] exI [of _ cur] exI [of _ t2]
          exI [of _ "whole_seconds t'"] conjI)
      (use Run runs rest c(4) sw in
        \<open>auto simp: publishCompleted_def before_def t_def rid_def s1(2) r0_def w1_def closing_keeps [OF c(1)]
           cong del: fmfilter_cong\<close>)
qed

definition sample_options :: "(Store, blob_Store) gc_Options" where
  "sample_options = \<lparr>go_Meta = Some memory_gc, go_Blobs = Some Delete_blob, go_Events = True, go_Grace = 0,
     go_BatchSize = 0, go_NewID = Some (\<lambda>_. ''run''), go_Now = None\<rparr>"

lemma swept_world_reachable: "reachable (wo_meta swept_world)"
proof -
  have "PutBlob None old_blob sample_store = Inr (wo_meta swept_world)"
    by (simp add: PutBlob_def with_open_def checkOpen_def swept_world_def old_blob_def sample_defs
        sample_desc_def digestOf_def)
  then show ?thesis
    by (intro reachable.call [OF sample_reachable] store_step.content) (rule content_step.put_blob)
qed

theorem undisturbed_sweep_completes_witness:
  "\<exists>result w' before. Run 3 (undisturbed (\<lambda>_. None)) (projr (New_collector (\<lambda>_. 10 ^ 15) sample_options)) swept_world =
      (Some (result, None), w') \<and> re_Complete result \<and> re_RunID result = ''run'' \<and>
    st_blobs (wo_meta w') = fmfilter (\<lambda>d. \<not> may_collect (wo_meta swept_world) before d) (st_blobs (wo_meta swept_world)) \<and>
    length (wo_published w') = 1 \<and> ResumableGCRun None (wo_meta w') = Inl (NotFound ''gc run'' ''unfinished'')"
proof -
  define c where "c = projr (New_collector (\<lambda>_. 10 ^ 15) sample_options)"
  have c: "New_collector (\<lambda>_. 10 ^ 15) sample_options = Inr c" "co_newID c i = ''run''" "co_now c i = 10 ^ 15" "co_events c" for i
    by (simp_all add: New_collector_def sample_options_def c_def)
  have s: "\<not> st_closed (wo_meta swept_world)" "st_gcRuns (wo_meta swept_world) = fmempty"
      "st_blobs (wo_meta swept_world) = fmupd (bl_Digest old_blob) old_blob fmempty" "wo_published swept_world = []"
    by (simp_all add: swept_world_def sample_defs)
  then have "ResumableGCRun None (wo_meta swept_world) = Inl (NotFound ''gc run'' ''unfinished'')"
    by (simp add: ResumableGCRun_def with_open_def checkOpen_def)
  moreover have "go_Meta sample_options = Some memory_gc" "go_Blobs sample_options = Some Delete_blob"
    by (simp_all add: sample_options_def)
  moreover have "fcard (fmdom (st_blobs (wo_meta swept_world))) < 3" unfolding s(3) by (simp add: fcard.rep_eq)
  moreover have "\<forall>i. co_newID c i \<noteq> [] \<and> fmlookup (st_gcRuns (wo_meta swept_world)) (co_newID c i) = None"
    unfolding c(2) s(2) by simp
  ultimately obtain result w' before secs where *:
    "Run 3 (undisturbed (\<lambda>_. None)) c swept_world = (Some (result, None), w')" "re_Complete result"
    "re_RunID result = co_newID c (Suc (wo_tick swept_world))"
    "st_blobs (wo_meta w') = fmfilter (\<lambda>d. \<not> may_collect (wo_meta swept_world) before d) (st_blobs (wo_meta swept_world))"
    "(\<forall>i. co_now c i \<noteq> 0) \<longrightarrow> ResumableGCRun None (wo_meta w') = Inl (NotFound ''gc run'' ''unfinished'')"
    "wo_published w' = wo_published swept_world @
      (if co_events c
       then [\<lparr>gp_RunID = re_RunID result, gp_BlobsScanned = re_Scanned result, gp_BlobsDeleted = re_Deleted result,
         gp_BytesReclaimed = re_Bytes result, gp_DurationSeconds = secs, gp_Resumed = False\<rparr>]
       else [])"
    using undisturbed_sweep_completes [OF c(1) _ _ swept_world_reachable s(1), of 3] by (elim meta_impE exE conjE) blast+
  have "length (wo_published w') = 1" "ResumableGCRun None (wo_meta w') = Inl (NotFound ''gc run'' ''unfinished'')"
    using *(5,6) c(3,4) s(4) by simp_all
  with *(1-4) show ?thesis unfolding c_def [symmetric] c(2) by blast
qed

end
