(* ===== verification/Policy_Inventory.thy ===== *)
theory Policy_Inventory
  imports Trove_Prelude
begin

text \<open>
  \<^verbatim>\<open>internal/policy/inventory.go\<close>: the snapshot retention is evaluated over. It validates the rows,
  indexes the edges, refuses subject cycles, and computes what a rule may select.

  A reason of an error is its fixed text, without the values formatted into it.
\<close>

section \<open>Rows\<close>

datatype policy_error =
    InventoryError string string
  | NoInventory
  | NoEvaluationTime
  | RuleError string string

abbreviation (input) AnyTags :: string where "AnyTags \<equiv> []"
abbreviation (input) Tagged :: string where "Tagged \<equiv> ''tagged''"
abbreviation (input) Untagged :: string where "Untagged \<equiv> ''untagged''"

record policy_Tag =
  ptg_Name :: string
  ptg_Protected :: bool
  ptg_Immutable :: bool

record policy_Manifest =
  pm_Digest :: string
  pm_Tags :: "policy_Tag list"
  pm_PushedAt :: gotime
  pm_LastPulledAt :: gotime
  pm_PullCount :: int
  pm_Size :: int
  pm_Children :: "string list"
  pm_Subject :: string

definition TagNames :: "policy_Manifest \<Rightarrow> string list" where
  "TagNames m = sort (map ptg_Name (pm_Tags m))"

definition Status :: "policy_Manifest \<Rightarrow> string" where
  "Status m = (if pm_Tags m = [] then Untagged else Tagged)"

abbreviation ExcludedProtectedTag :: string where "ExcludedProtectedTag \<equiv> ''protected tag''"
abbreviation ExcludedImmutableTag :: string where "ExcludedImmutableTag \<equiv> ''immutable tag''"
abbreviation ExcludedIndexChild :: string where "ExcludedIndexChild \<equiv> ''child of a live index''"
abbreviation ExcludedLiveSubject :: string where "ExcludedLiveSubject \<equiv> ''attached to a live subject''"

record Exclusion =
  ex_Digest :: string
  ex_Reason :: string
  ex_Detail :: string

record Inventory =
  in_repository :: string
  in_manifests :: "policy_Manifest list"
  in_selectable :: "policy_Manifest list"
  in_exclusions :: "Exclusion list"
  in_byDigest :: "(string, policy_Manifest) fmap"
  in_excludedBy :: "(string, Exclusion list) fmap"
  in_referrers :: "(string, string list) fmap"
  in_indexParents :: "(string, string list) fmap"

section \<open>Validation\<close>

text \<open>A missing key of a map of slices reads as the nil slice.\<close>

definition slice_at :: "('k, 'v list) fmap \<Rightarrow> 'k \<Rightarrow> 'v list" where
  "slice_at m k = (case fmlookup m k of None \<Rightarrow> [] | Some vs \<Rightarrow> vs)"

definition append_at :: "'k \<Rightarrow> 'v \<Rightarrow> ('k, 'v list) fmap \<Rightarrow> ('k, 'v list) fmap" where
  "append_at k v m = fmupd k (slice_at m k @ [v]) m"

fun check_tags ::
    "string \<Rightarrow> policy_Tag list \<Rightarrow> string list \<Rightarrow> (string, string) fmap \<Rightarrow> policy_error + (string, string) fmap" where
  "check_tags d [] tagsHere tagOwner = Inr tagOwner"
| "check_tags d (tag # tags) tagsHere tagOwner =
    (if ptg_Name tag = [] then Inl (InventoryError d ''has a tag with an empty name'')
     else if ptg_Name tag \<in> set tagsHere then Inl (InventoryError d ''lists tag twice'')
     else if fmlookup tagOwner (ptg_Name tag) \<noteq> None then Inl (InventoryError d ''tag also points at'')
     else check_tags d tags (ptg_Name tag # tagsHere) (fmupd (ptg_Name tag) d tagOwner))"

definition check_child :: "string \<Rightarrow> string \<Rightarrow> policy_error option" where
  "check_child d child =
    (if child = [] then Some (InventoryError d ''lists a child with an empty digest'')
     else if child = d then Some (InventoryError d ''is its own child'')
     else None)"

definition validateManifest ::
    "policy_Manifest \<Rightarrow> (string, policy_Manifest) fmap \<Rightarrow> (string, string) fmap \<Rightarrow>
     policy_error + policy_Manifest \<times> (string, string) fmap" where
  "validateManifest m seen tagOwner =
    (let d = pm_Digest m in
     if d = [] then Inl (InventoryError [] ''a manifest has no digest'')
     else if fmlookup seen d \<noteq> None then Inl (InventoryError d ''listed twice'')
     else if pm_PushedAt m = 0 then Inl (InventoryError d ''push time is required'')
     else if pm_Size m < 0 then Inl (InventoryError d ''size is negative'')
     else if pm_PullCount m < 0 then Inl (InventoryError d ''pull count is negative'')
     else if pm_Subject m = d then Inl (InventoryError d ''is its own subject'')
     else
       let tags = sort_key ptg_Name (pm_Tags m) in
       case check_tags d tags [] tagOwner of
         Inl e \<Rightarrow> Inl e
       | Inr tagOwner' \<Rightarrow>
           let children = remdups_adj (sort (pm_Children m)) in
           (case first_error (check_child d) children of
              Some e \<Rightarrow> Inl e
            | None \<Rightarrow> Inr (m\<lparr>pm_Tags := tags, pm_Children := children\<rparr>, tagOwner')))"

fun validate_all ::
    "policy_Manifest list \<Rightarrow> (string, policy_Manifest) fmap \<Rightarrow> (string, string) fmap \<Rightarrow>
     policy_error + policy_Manifest list \<times> (string, policy_Manifest) fmap" where
  "validate_all [] byDigest tagOwner = Inr ([], byDigest)"
| "validate_all (m # ms) byDigest tagOwner =
    (case validateManifest m byDigest tagOwner of
       Inl e \<Rightarrow> Inl e
     | Inr (clone, tagOwner') \<Rightarrow>
         (case validate_all ms (fmupd (pm_Digest clone) clone byDigest) tagOwner' of
            Inl e \<Rightarrow> Inl e
          | Inr (clones, byDigest') \<Rightarrow> Inr (clone # clones, byDigest')))"

section \<open>Edges\<close>

definition add_referrer ::
    "(string, policy_Manifest) fmap \<Rightarrow> policy_Manifest \<Rightarrow> (string, string list) fmap \<Rightarrow> (string, string list) fmap" where
  "add_referrer byDigest m referrers =
    (if pm_Subject m \<noteq> [] \<and> fmlookup byDigest (pm_Subject m) \<noteq> None
     then append_at (pm_Subject m) (pm_Digest m) referrers else referrers)"

definition add_parents ::
    "(string, policy_Manifest) fmap \<Rightarrow> policy_Manifest \<Rightarrow> (string, string list) fmap \<Rightarrow> (string, string list) fmap" where
  "add_parents byDigest m parents =
    fold (\<lambda>child ps. if fmlookup byDigest child \<noteq> None then append_at child (pm_Digest m) ps else ps)
      (pm_Children m) parents"

text \<open>The walk along the subjects from one manifest. \<open>state\<close> lists the digests that are settled and
  \<open>path\<close> those on the current path; a digest in neither is unvisited.\<close>

function walk_subjects ::
    "(string, policy_Manifest) fmap \<Rightarrow> string list \<Rightarrow> string list \<Rightarrow> string \<Rightarrow> policy_error + string list" where
  "walk_subjects byDigest settled path current =
    (if current \<in> set path then Inl (InventoryError current ''is part of a subject cycle'')
     else if current \<in> set settled then Inr path
     else
       (case fmlookup byDigest current of
          None \<Rightarrow> Inr (path @ [current])
        | Some next \<Rightarrow>
            if pm_Subject next = [] then Inr (path @ [current])
            else walk_subjects byDigest settled (path @ [current]) (pm_Subject next)))"
  by pat_completeness auto

termination walk_subjects
proof (relation "measure (\<lambda>(byDigest, settled, path, current). card (fset (fmdom byDigest) - set path))")
  fix byDigest :: "(string, policy_Manifest) fmap" and settled path current "next"
  assume "current \<notin> set path" "fmlookup byDigest current = Some next"
  then have "current \<in> fset (fmdom byDigest) - set path" by (auto intro: fmdomI)
  then have "fset (fmdom byDigest) - set (path @ [current]) \<subset> fset (fmdom byDigest) - set path" by auto
  then show "((byDigest, settled, path @ [current], pm_Subject next), (byDigest, settled, path, current))
      \<in> measure (\<lambda>(byDigest, settled, path, current). card (fset (fmdom byDigest) - set path))"
    by (simp add: psubset_card_mono del: set_append)
qed simp

declare walk_subjects.simps [simp del]

fun settle_all ::
    "(string, policy_Manifest) fmap \<Rightarrow> string list \<Rightarrow> policy_Manifest list \<Rightarrow> policy_error option" where
  "settle_all byDigest settled [] = None"
| "settle_all byDigest settled (m # ms) =
    (if pm_Digest m \<in> set settled then settle_all byDigest settled ms
     else
       (case walk_subjects byDigest settled [] (pm_Digest m) of
          Inl e \<Rightarrow> Some e
        | Inr path \<Rightarrow> settle_all byDigest (path @ settled) ms))"

definition buildEdges :: "Inventory \<Rightarrow> policy_error + Inventory" where
  "buildEdges i =
    (let referrers = fold (add_referrer (in_byDigest i)) (in_manifests i) (in_referrers i);
         parents = fold (add_parents (in_byDigest i)) (in_manifests i) (in_indexParents i);
         i' = i\<lparr>in_referrers := fmmap sort referrers, in_indexParents := fmmap sort parents\<rparr>
     in case settle_all (in_byDigest i) [] (in_manifests i) of
          Some e \<Rightarrow> Inl e
        | None \<Rightarrow> Inr i')"

section \<open>What a rule may select\<close>

definition tag_exclusions :: "string \<Rightarrow> policy_Tag \<Rightarrow> Exclusion list" where
  "tag_exclusions d tag =
    (if ptg_Protected tag
     then [\<lparr>ex_Digest = d, ex_Reason = ExcludedProtectedTag, ex_Detail = ptg_Name tag\<rparr>] else []) @
    (if ptg_Immutable tag
     then [\<lparr>ex_Digest = d, ex_Reason = ExcludedImmutableTag, ex_Detail = ptg_Name tag\<rparr>] else [])"

definition reasons_of :: "Inventory \<Rightarrow> policy_Manifest \<Rightarrow> Exclusion list" where
  "reasons_of i m =
    concat (map (tag_exclusions (pm_Digest m)) (pm_Tags m)) @
    (let parents = slice_at (in_indexParents i) (pm_Digest m)
     in if parents \<noteq> []
        then [\<lparr>ex_Digest = pm_Digest m, ex_Reason = ExcludedIndexChild, ex_Detail = Join parents '', ''\<rparr>] else []) @
    (if pm_Subject m \<noteq> [] \<and> fmlookup (in_byDigest i) (pm_Subject m) \<noteq> None
     then [\<lparr>ex_Digest = pm_Digest m, ex_Reason = ExcludedLiveSubject, ex_Detail = pm_Subject m\<rparr>] else [])"

fun select_loop :: "policy_Manifest list \<Rightarrow> Inventory \<Rightarrow> Inventory" where
  "select_loop [] i = i"
| "select_loop (m # ms) i =
    (let reasons = reasons_of i m
     in select_loop ms
          (if reasons = [] then i\<lparr>in_selectable := in_selectable i @ [m]\<rparr>
           else i\<lparr>in_excludedBy := fmupd (pm_Digest m) reasons (in_excludedBy i),
                  in_exclusions := in_exclusions i @ reasons\<rparr>))"

definition buildSelectable :: "Inventory \<Rightarrow> Inventory" where
  "buildSelectable i = select_loop (in_manifests i) i"

definition NewInventory :: "string \<Rightarrow> policy_Manifest list \<Rightarrow> policy_error + Inventory" where
  "NewInventory repository manifests =
    (if repository = [] then Inl (InventoryError [] ''repository name is required'')
     else
       (case validate_all manifests fmempty fmempty of
          Inl e \<Rightarrow> Inl e
        | Inr (clones, byDigest) \<Rightarrow>
            (case buildEdges
                \<lparr>in_repository = repository, in_manifests = sort_key pm_Digest clones, in_selectable = [],
                 in_exclusions = [], in_byDigest = byDigest, in_excludedBy = fmempty,
                 in_referrers = fmempty, in_indexParents = fmempty\<rparr> of
               Inl e \<Rightarrow> Inl e
             | Inr i \<Rightarrow> Inr (buildSelectable i))))"

section \<open>Queries\<close>

definition Repository_of :: "Inventory \<Rightarrow> string" where "Repository_of i = in_repository i"

definition Len_inventory :: "Inventory \<Rightarrow> nat" where "Len_inventory i = length (in_manifests i)"

definition Manifests :: "Inventory \<Rightarrow> policy_Manifest list" where "Manifests i = in_manifests i"

definition Selectable :: "Inventory \<Rightarrow> policy_Manifest list" where "Selectable i = in_selectable i"

definition Exclusions :: "Inventory \<Rightarrow> Exclusion list" where "Exclusions i = in_exclusions i"

definition ExclusionsFor :: "Inventory \<Rightarrow> string \<Rightarrow> Exclusion list" where
  "ExclusionsFor i digest = slice_at (in_excludedBy i) digest"

definition Lookup :: "Inventory \<Rightarrow> string \<Rightarrow> policy_Manifest option" where
  "Lookup i digest = fmlookup (in_byDigest i) digest"

definition IndexParents :: "Inventory \<Rightarrow> string \<Rightarrow> string list" where
  "IndexParents i digest = slice_at (in_indexParents i) digest"

definition Referrers :: "Inventory \<Rightarrow> string \<Rightarrow> string list" where
  "Referrers i digest = slice_at (in_referrers i) digest"

text \<open>The breadth-first walk of \<^verbatim>\<open>ReferrerSubtree\<close>; the inner loop visits the referrers of one digest.\<close>

fun visit ::
    "string list \<Rightarrow> string list \<Rightarrow> string list \<Rightarrow> string list \<Rightarrow> string list \<times> string list \<times> string list" where
  "visit [] seen queue out = (seen, queue, out)"
| "visit (referrer # rs) seen queue out =
    (if referrer \<in> set seen then visit rs seen queue out
     else visit rs (referrer # seen) (queue @ [referrer]) (out @ [referrer]))"

lemma visit_eq:
  "\<exists>new. visit rs seen queue out = (rev new @ seen, queue @ new, out @ new) \<and> distinct new \<and>
     set new = set rs - set seen"
proof (induction rs seen queue out rule: visit.induct)
  case (2 r rs seen queue out)
  show ?case
  proof (cases "r \<in> set seen")
    case True
    then show ?thesis using 2(1) by auto
  next
    case False
    with 2(2) obtain new where
      "visit rs (r # seen) (queue @ [r]) (out @ [r]) = (rev new @ r # seen, (queue @ [r]) @ new, (out @ [r]) @ new)"
      "distinct new" "set new = set rs - set (r # seen)" by blast
    then show ?thesis using False by (intro exI [of _ "r # new"]) auto
  qed
qed simp

definition referrer_values :: "(string, string list) fmap \<Rightarrow> string set" where
  "referrer_values referrers = \<Union> (set ` fset (fmran referrers))"

lemma finite_referrer_values [simp]: "finite (referrer_values referrers)"
  by (simp add: referrer_values_def)

lemma slice_at_values: "set (slice_at referrers d) \<subseteq> referrer_values referrers"
  by (cases "fmlookup referrers d") (auto simp: slice_at_def referrer_values_def dest: fmranI)

function subtree_loop ::
    "(string, string list) fmap \<Rightarrow> string list \<Rightarrow> string list \<Rightarrow> string list \<Rightarrow> string list" where
  "subtree_loop referrers seen [] out = out"
| "subtree_loop referrers seen (current # queue) out =
    (case visit (slice_at referrers current) seen queue out of
       (seen', queue', out') \<Rightarrow> subtree_loop referrers seen' queue' out')"
  by pat_completeness auto

termination subtree_loop
proof (relation "measure (\<lambda>(referrers, seen, queue, out).
    2 * card (referrer_values referrers - set seen) + length queue)", goal_cases)
  case 1
  show ?case by simp
next
  case (2 referrers seen current queue out seen' y queue' out')
  moreover obtain new where new: "visit (slice_at referrers current) seen queue out =
      (rev new @ seen, queue @ new, out @ new)" "distinct new" "set new = set (slice_at referrers current) - set seen"
    using visit_eq by blast
  ultimately have eq: "seen' = rev new @ seen" "queue' = queue @ new" by auto
  have "card (referrer_values referrers - set seen') = card (referrer_values referrers - set seen) - length new"
  proof -
    have "referrer_values referrers - set seen' = (referrer_values referrers - set seen) - set new"
      by (auto simp: eq)
    moreover have "set new \<subseteq> referrer_values referrers - set seen" using new(3) slice_at_values by blast
    ultimately show ?thesis using new(2) by (simp add: card_Diff_subset distinct_card)
  qed
  moreover have "length new \<le> card (referrer_values referrers - set seen)"
    using new(2,3) slice_at_values [of referrers current] distinct_card [OF new(2)]
    by (metis Diff_mono card_mono finite_Diff finite_referrer_values order_refl)
  ultimately show ?case by (simp add: eq)
qed

definition ReferrerSubtree :: "Inventory \<Rightarrow> string \<Rightarrow> string list" where
  "ReferrerSubtree i digest = sort (subtree_loop (in_referrers i) [digest] [digest] [])"

section \<open>What an accepted snapshot is\<close>

definition cloned :: "policy_Manifest \<Rightarrow> policy_Manifest" where
  "cloned m = m\<lparr>pm_Tags := sort_key ptg_Name (pm_Tags m), pm_Children := remdups_adj (sort (pm_Children m))\<rparr>"

lemma cloned_sel [simp]:
  "pm_Digest (cloned m) = pm_Digest m" "pm_Subject (cloned m) = pm_Subject m" "pm_Size (cloned m) = pm_Size m"
  "pm_PushedAt (cloned m) = pm_PushedAt m" "set (pm_Tags (cloned m)) = set (pm_Tags m)"
  "set (pm_Children (cloned m)) = set (pm_Children m)"
  by (simp_all add: cloned_def)

lemma validateManifest_Inr:
  "validateManifest m seen owner = Inr (c, owner') \<Longrightarrow>
    c = cloned m \<and> pm_Digest m \<noteq> [] \<and> fmlookup seen (pm_Digest m) = None \<and> pm_Subject m \<noteq> pm_Digest m"
  by (auto simp: validateManifest_def Let_def cloned_def split: if_splits sum.splits option.splits)

lemma validate_all_Inr:
  assumes "validate_all ms byD owner = Inr (clones, byD')"
  shows "clones = map cloned ms \<and> distinct (map pm_Digest ms) \<and>
    (\<forall>m \<in> set ms. pm_Digest m \<noteq> [] \<and> fmlookup byD (pm_Digest m) = None \<and> pm_Subject m \<noteq> pm_Digest m) \<and>
    (\<forall>d c. fmlookup byD' d = Some c \<longleftrightarrow> c \<in> set clones \<and> pm_Digest c = d \<or> fmlookup byD d = Some c)"
  using assms
proof (induction ms arbitrary: byD owner clones byD')
  case (Cons m ms)
  obtain c owner' clones' where v: "validateManifest m byD owner = Inr (c, owner')"
    "validate_all ms (fmupd (pm_Digest c) c byD) owner' = Inr (clones', byD')" "clones = c # clones'"
    using Cons.prems by (auto split: sum.splits prod.splits)
  note c = validateManifest_Inr [OF v(1)]
  note ih = Cons.IH [OF v(2)]
  have new: "\<forall>x \<in> set ms. pm_Digest x \<noteq> pm_Digest m \<and> fmlookup byD (pm_Digest x) = None"
    using ih c by (metis cloned_sel(1) fmupd_lookup option.distinct(1))
  have "fmlookup byD' d = Some y \<longleftrightarrow> y \<in> set clones \<and> pm_Digest y = d \<or> fmlookup byD d = Some y" for d y
    using ih c v(3) by (auto split: if_splits)
  then show ?case using ih c v(3) new by auto
qed simp

lemma sort_key_map: "(\<And>x. g (f x) = g x) \<Longrightarrow> sort_key g (map f xs) = map f (sort_key g xs)"
proof (induction xs)
  case (Cons x xs)
  have "insort_key g (f x) (map f ys) = map f (insort_key g x ys)" for ys
    using Cons.prems by (induction ys) simp_all
  then show ?case using Cons by simp
qed simp

text \<open>The subject edges of a snapshot lead somewhere: from a grounded digest no chain of live subjects
  goes on for ever.\<close>

inductive grounded :: "(string, policy_Manifest) fmap \<Rightarrow> string \<Rightarrow> bool" for byDigest where
  grounded: "(\<And>m. fmlookup byDigest d = Some m \<Longrightarrow> pm_Subject m \<noteq> [] \<Longrightarrow> grounded byDigest (pm_Subject m)) \<Longrightarrow>
    grounded byDigest d"

lemma walk_grounded:
  assumes "walk_subjects byD settled path current = Inr path'" "\<forall>d \<in> set settled. grounded byD d"
  shows "\<exists>q. path' = path @ q \<and> grounded byD current \<and> (\<forall>d \<in> set q. grounded byD d) \<and> current \<in> set q \<union> set settled"
  using assms
proof (induction byD settled path current rule: walk_subjects.induct)
  case (1 byD settled path current)
  show ?case
  proof (cases "current \<in> set path \<or> current \<in> set settled")
    case True
    then show ?thesis using "1.prems" by (auto simp: walk_subjects.simps [of byD settled path current] split: if_splits)
  next
    case new: False
    show ?thesis
    proof (cases "\<exists>next. fmlookup byD current = Some next \<and> pm_Subject next \<noteq> []")
      case True
      then obtain n where n: "fmlookup byD current = Some n" "pm_Subject n \<noteq> []" by blast
      have "walk_subjects byD settled (path @ [current]) (pm_Subject n) = Inr path'"
        using "1.prems"(1) new n by (simp add: walk_subjects.simps [of byD settled path current])
      from "1.IH" [OF _ _ n(1,2) this "1.prems"(2)] new obtain q where
        q: "path' = (path @ [current]) @ q" "grounded byD (pm_Subject n)" "\<forall>d \<in> set q. grounded byD d" by blast
      have "grounded byD current" by (rule grounded) (use n q(2) in auto)
      with q show ?thesis by (intro exI [of _ "current # q"]) auto
    next
      case False
      then have "path' = path @ [current]"
        using "1.prems"(1) new by (auto simp: walk_subjects.simps [of byD settled path current] split: option.splits)
      moreover have "grounded byD current" by (rule grounded) (use False in auto)
      ultimately show ?thesis by auto
    qed
  qed
qed

lemma settle_grounded:
  "settle_all byD settled ms = None \<Longrightarrow> \<forall>d \<in> set settled. grounded byD d \<Longrightarrow> \<forall>m \<in> set ms. grounded byD (pm_Digest m)"
proof (induction ms arbitrary: settled)
  case (Cons m ms)
  show ?case
  proof (cases "pm_Digest m \<in> set settled")
    case True
    then show ?thesis using Cons by auto
  next
    case False
    then obtain path where w: "walk_subjects byD settled [] (pm_Digest m) = Inr path"
      "settle_all byD (path @ settled) ms = None" using Cons.prems(1) by (auto split: sum.splits)
    from walk_grounded [OF w(1) Cons.prems(2)] Cons.IH [OF w(2)] Cons.prems(2) show ?thesis by auto
  qed
qed simp

lemma slice_at_append_at: "slice_at (append_at k v m) k' = (if k' = k then slice_at m k @ [v] else slice_at m k')"
  by (simp add: slice_at_def append_at_def)

lemma slice_at_fmmap [simp]: "slice_at (fmmap sort m) k = sort (slice_at m k)"
  by (simp add: slice_at_def split: option.split)

lemma slice_at_empty [simp]: "slice_at fmempty k = []"
  by (simp add: slice_at_def)

lemma slice_at_referrers:
  "slice_at (fold (add_referrer byD) ms refs) s = slice_at refs s @
    map pm_Digest (filter (\<lambda>m. pm_Subject m = s \<and> s \<noteq> [] \<and> fmlookup byD s \<noteq> None) ms)"
  by (induction ms arbitrary: refs) (auto simp: add_referrer_def slice_at_append_at)

lemma slice_at_add_parents:
  "set (slice_at (add_parents byD m parents) d) = set (slice_at parents d) \<union>
    (if d \<in> set (pm_Children m) \<and> fmlookup byD d \<noteq> None then {pm_Digest m} else {})"
proof -
  have "set (slice_at (fold (\<lambda>child ps. if fmlookup byD child \<noteq> None then append_at child x ps else ps) cs parents) d) =
      set (slice_at parents d) \<union> (if d \<in> set cs \<and> fmlookup byD d \<noteq> None then {x} else {})" for cs x
    by (induction cs arbitrary: parents) (auto simp: slice_at_append_at)
  then show ?thesis by (simp add: add_parents_def)
qed

lemma slice_at_parents:
  "set (slice_at (fold (add_parents byD) ms parents) d) = set (slice_at parents d) \<union>
    {pm_Digest m |m. m \<in> set ms \<and> d \<in> set (pm_Children m) \<and> fmlookup byD d \<noteq> None}"
  by (induction ms arbitrary: parents) (auto simp: slice_at_add_parents)

lemma reasons_of_cong:
  "in_indexParents i = in_indexParents j \<Longrightarrow> in_byDigest i = in_byDigest j \<Longrightarrow> reasons_of i m = reasons_of j m"
  by (simp add: reasons_of_def)

lemma select_loop_fields:
  "in_manifests (select_loop ms i) = in_manifests i" "in_byDigest (select_loop ms i) = in_byDigest i"
  "in_referrers (select_loop ms i) = in_referrers i" "in_indexParents (select_loop ms i) = in_indexParents i"
  "in_repository (select_loop ms i) = in_repository i"
  by (induction ms arbitrary: i) (simp_all add: Let_def)

lemma select_loop_selectable:
  "in_selectable (select_loop ms i) = in_selectable i @ filter (\<lambda>m. reasons_of i m = []) ms"
proof (induction ms arbitrary: i)
  case (Cons m ms)
  have "reasons_of (i\<lparr>in_selectable := x\<rparr>) = reasons_of i" "reasons_of (i\<lparr>in_excludedBy := y, in_exclusions := z\<rparr>) = reasons_of i"
    for x y z by (simp_all add: fun_eq_iff reasons_of_def)
  then show ?case using Cons by (simp add: Let_def)
qed simp

lemma select_loop_excluded:
  assumes "distinct (map pm_Digest ms)"
  shows "ExclusionsFor (select_loop ms i) d =
    (if \<exists>m \<in> set ms. pm_Digest m = d \<and> reasons_of i m \<noteq> []
     then reasons_of i (THE m. m \<in> set ms \<and> pm_Digest m = d) else ExclusionsFor i d)"
  using assms
proof (induction ms arbitrary: i)
  case (Cons m ms)
  let ?i = "if reasons_of i m = [] then i\<lparr>in_selectable := in_selectable i @ [m]\<rparr>
    else i\<lparr>in_excludedBy := fmupd (pm_Digest m) (reasons_of i m) (in_excludedBy i),
      in_exclusions := in_exclusions i @ reasons_of i m\<rparr>"
  have same: "reasons_of ?i = reasons_of i" by (simp add: fun_eq_iff reasons_of_def)
  have step: "ExclusionsFor ?i d = (if pm_Digest m = d \<and> reasons_of i m \<noteq> [] then reasons_of i m else ExclusionsFor i d)"
    by (simp add: ExclusionsFor_def slice_at_def)
  have ih: "ExclusionsFor (select_loop ms ?i) d =
      (if \<exists>x \<in> set ms. pm_Digest x = d \<and> reasons_of i x \<noteq> []
       then reasons_of i (THE x. x \<in> set ms \<and> pm_Digest x = d) else ExclusionsFor ?i d)"
    using Cons.IH [of ?i] Cons.prems unfolding same by simp
  show ?case
  proof (cases "pm_Digest m = d")
    case True
    then have "\<not> (\<exists>x \<in> set ms. pm_Digest x = d)"
      using Cons.prems by (metis distinct.simps(2) image_eqI list.set_map list.simps(9))
    moreover from this have "(THE x. x \<in> set (m # ms) \<and> pm_Digest x = d) = m" using True by auto
    ultimately show ?thesis using True ih step by (auto simp: Let_def)
  next
    case False
    then have "(THE x. x \<in> set (m # ms) \<and> pm_Digest x = d) = (THE x. x \<in> set ms \<and> pm_Digest x = d)"
      by (metis set_ConsD list.set_intros(2))
    moreover have "select_loop (m # ms) i = select_loop ms ?i" by (simp add: Let_def)
    ultimately show ?thesis unfolding ih step using False ih step by auto
  qed
qed simp

definition live :: "Inventory \<Rightarrow> string \<Rightarrow> bool" where
  "live i d \<longleftrightarrow> (\<exists>m \<in> set (in_manifests i). pm_Digest m = d)"

definition snapshot :: "policy_Manifest list \<Rightarrow> Inventory \<Rightarrow> bool" where
  "snapshot ms i \<longleftrightarrow>
    in_manifests i = map cloned (sort_key pm_Digest ms) \<and> sorted_wrt (<) (map pm_Digest (in_manifests i)) \<and>
    (\<forall>m \<in> set (in_manifests i). pm_Digest m \<noteq> [] \<and> pm_Subject m \<noteq> pm_Digest m \<and> grounded (in_byDigest i) (pm_Digest m)) \<and>
    (\<forall>d m. Lookup i d = Some m \<longleftrightarrow> m \<in> set (in_manifests i) \<and> pm_Digest m = d) \<and>
    (\<forall>s. set (Referrers i s) = {pm_Digest m |m. m \<in> set (in_manifests i) \<and> pm_Subject m = s \<and> s \<noteq> [] \<and> live i s}) \<and>
    (\<forall>d. set (IndexParents i d) = {pm_Digest m |m. m \<in> set (in_manifests i) \<and> d \<in> set (pm_Children m) \<and> live i d}) \<and>
    in_selectable i = filter (\<lambda>m. reasons_of i m = []) (in_manifests i) \<and>
    (\<forall>m \<in> set (in_manifests i). ExclusionsFor i (pm_Digest m) = reasons_of i m)"

lemma NewInventory_snapshot:
  assumes "NewInventory repository ms = Inr i"
  shows "snapshot ms i \<and> in_repository i = repository"
proof -
  obtain clones byD where v: "validate_all ms fmempty fmempty = Inr (clones, byD)"
    using assms by (auto simp: NewInventory_def split: if_splits sum.splits)
  let ?i0 = "\<lparr>in_repository = repository, in_manifests = sort_key pm_Digest clones, in_selectable = [],
    in_exclusions = [], in_byDigest = byD, in_excludedBy = fmempty, in_referrers = fmempty, in_indexParents = fmempty\<rparr>"
  obtain i1 where e: "buildEdges ?i0 = Inr i1" "i = select_loop (in_manifests i1) i1"
    using assms v by (auto simp: NewInventory_def buildSelectable_def split: if_splits sum.splits)
  note val = validate_all_Inr [OF v]
  let ?M = "sort_key pm_Digest clones"
  have settle: "settle_all byD [] ?M = None" and i1: "i1 = ?i0\<lparr>in_referrers := fmmap sort (fold (add_referrer byD) ?M fmempty),
      in_indexParents := fmmap sort (fold (add_parents byD) ?M fmempty)\<rparr>"
    using e(1) by (auto simp: buildEdges_def Let_def split: option.splits)
  have M: "?M = map cloned (sort_key pm_Digest ms)"
    using val sort_key_map [of pm_Digest cloned ms] by simp
  have i: "in_manifests i = ?M" "in_byDigest i = byD" "in_repository i = repository"
    "in_referrers i = in_referrers i1" "in_indexParents i = in_indexParents i1"
    "in_selectable i = filter (\<lambda>m. reasons_of i1 m = []) ?M"
    unfolding e(2) select_loop_fields select_loop_selectable by (simp_all add: i1)
  have dist: "distinct (map pm_Digest ?M)" 
  proof -
    have "map pm_Digest ?M = map pm_Digest (sort_key pm_Digest ms)" by (simp add: M comp_def)
    then show ?thesis using val by (simp add: distinct_map)
  qed
  then have sorted: "sorted_wrt (<) (map pm_Digest ?M)" by (simp add: strict_sorted_iff)
  have look: "fmlookup byD d = Some m \<longleftrightarrow> m \<in> set ?M \<and> pm_Digest m = d" for d m using val by simp
  have livei: "fmlookup byD d \<noteq> None \<longleftrightarrow> live i d" for d
    using look unfolding live_def i(1) by (metis not_None_eq)
  have same: "reasons_of i1 = reasons_of i" using i(2,5) by (simp add: fun_eq_iff reasons_of_def i1)
  have refs: "set (Referrers i s) = {pm_Digest m |m. m \<in> set ?M \<and> pm_Subject m = s \<and> s \<noteq> [] \<and> live i s}" for s
    using livei [of s] by (auto simp: Referrers_def i(4) i1 slice_at_referrers)
  have pars: "set (IndexParents i d) = {pm_Digest m |m. m \<in> set ?M \<and> d \<in> set (pm_Children m) \<and> live i d}" for d
    using livei [of d] by (simp add: IndexParents_def i(5) i1 slice_at_parents)
  have excl: "ExclusionsFor i (pm_Digest m) = reasons_of i m" if m: "m \<in> set ?M" for m
  proof -
    have "(THE x. x \<in> set ?M \<and> pm_Digest x = pm_Digest m) = m"
      using m dist by (auto simp: distinct_map inj_on_def)
    moreover have "ExclusionsFor i1 (pm_Digest m) = []" by (simp add: ExclusionsFor_def i1)
    moreover have "in_manifests i1 = ?M" by (simp add: i1)
    moreover have "(\<exists>x \<in> set ?M. pm_Digest x = pm_Digest m \<and> reasons_of i x \<noteq> []) \<longleftrightarrow> reasons_of i m \<noteq> []"
      using m dist by (auto simp: distinct_map inj_on_def)
    ultimately show ?thesis using select_loop_excluded [OF dist, of i1 "pm_Digest m"] unfolding e(2) [symmetric] same
      by (simp add: e(2))
  qed
  have rows: "\<forall>m \<in> set ?M. pm_Digest m \<noteq> [] \<and> pm_Subject m \<noteq> pm_Digest m" using val by auto
  show ?thesis
    unfolding snapshot_def i(1)
    using M sorted rows settle_grounded [OF settle] look refs pars excl i(2,3,6) same by (simp add: Lookup_def)
qed

section \<open>What dies with a manifest\<close>

abbreviation attaches :: "Inventory \<Rightarrow> string \<Rightarrow> string \<Rightarrow> bool" where
  "attaches i x y \<equiv> y \<in> set (Referrers i x)"

lemma subtree_loop_reach:
  assumes "set queue \<subseteq> set seen" "\<forall>x \<in> set seen - set queue. set (slice_at refs x) \<subseteq> set seen"
    and "set seen = insert root (set out)" "root \<notin> set out" "distinct out"
    and "\<forall>e \<in> set out. (\<lambda>x y. y \<in> set (slice_at refs x))\<^sup>+\<^sup>+ root e"
  shows "distinct (subtree_loop refs seen queue out) \<and>
    set (subtree_loop refs seen queue out) = {e. (\<lambda>x y. y \<in> set (slice_at refs x))\<^sup>+\<^sup>+ root e} - {root}"
  using assms
proof (induction refs seen queue out rule: subtree_loop.induct)
  case (1 refs seen out)
  have "e \<in> set seen" if "(\<lambda>x y. y \<in> set (slice_at refs x))\<^sup>+\<^sup>+ root e" for e
    using that "1.prems" by (induction rule: tranclp_induct) auto
  then show ?case using "1.prems" by auto
next
  case (2 refs seen current queue out)
  obtain new where new: "visit (slice_at refs current) seen queue out = (rev new @ seen, queue @ new, out @ new)"
    "distinct new" "set new = set (slice_at refs current) - set seen" using visit_eq by blast
  have cur: "current = root \<or> (\<lambda>x y. y \<in> set (slice_at refs x))\<^sup>+\<^sup>+ root current" using "2.prems" by auto
  have "\<forall>e \<in> set new. (\<lambda>x y. y \<in> set (slice_at refs x))\<^sup>+\<^sup>+ root e"
    using cur new(3) by (auto intro: tranclp.intros)
  then have reach: "\<forall>e \<in> set (out @ new). (\<lambda>x y. y \<in> set (slice_at refs x))\<^sup>+\<^sup>+ root e"
    using "2.prems"(6) by auto
  have dist: "distinct (out @ new)" using "2.prems"(3,5) new(2,3) by auto
  have sub: "set (queue @ new) \<subseteq> set (rev new @ seen)" using "2.prems"(1) by auto
  have closed: "\<forall>x \<in> set (rev new @ seen) - set (queue @ new). set (slice_at refs x) \<subseteq> set (rev new @ seen)"
    using "2.prems"(2) new(3) by auto
  have all: "set (rev new @ seen) = insert root (set (out @ new))" using "2.prems"(3) by auto
  have root: "root \<notin> set (out @ new)" using "2.prems"(3,4) new(3) by auto
  from "2.IH" [OF new(1) [symmetric] refl sub closed all root dist reach] new(1) show ?case by simp
qed

lemmas snapshotD =
  snapshot_def [THEN iffD1, THEN conjunct1, rule_format]
  snapshot_def [THEN iffD1, THEN conjunct2, THEN conjunct1, rule_format]
  snapshot_def [THEN iffD1, THEN conjunct2, THEN conjunct2, THEN conjunct1, rule_format]
  snapshot_def [THEN iffD1, THEN conjunct2, THEN conjunct2, THEN conjunct2, THEN conjunct1, rule_format]
  snapshot_def [THEN iffD1, THEN conjunct2, THEN conjunct2, THEN conjunct2, THEN conjunct2, THEN conjunct1, rule_format]
  snapshot_def [THEN iffD1, THEN conjunct2, THEN conjunct2, THEN conjunct2, THEN conjunct2, THEN conjunct2, THEN conjunct1, rule_format]
  snapshot_def [THEN iffD1, THEN conjunct2, THEN conjunct2, THEN conjunct2, THEN conjunct2, THEN conjunct2, THEN conjunct2, THEN conjunct1, rule_format]
  snapshot_def [THEN iffD1, THEN conjunct2, THEN conjunct2, THEN conjunct2, THEN conjunct2, THEN conjunct2, THEN conjunct2, THEN conjunct2, rule_format]

lemma attaches_iff:
  assumes "snapshot ms i"
  shows "attaches i x y \<longleftrightarrow> (\<exists>m. Lookup i y = Some m \<and> pm_Subject m = x \<and> x \<noteq> [] \<and> live i x)"
  unfolding snapshotD(4,5) [OF assms] by auto

lemma live_Lookup: "snapshot ms i \<Longrightarrow> live i d \<longleftrightarrow> (\<exists>m. Lookup i d = Some m)"
  using snapshotD(4) [of ms i d] unfolding live_def by blast

lemma grounded_acyclic:
  assumes "grounded (in_byDigest i) d" "snapshot ms i"
  shows "\<not> (attaches i)\<^sup>+\<^sup>+ d d"
  using assms(1)
proof (induction rule: grounded.induct)
  case (grounded d)
  show ?case
  proof
    assume "(attaches i)\<^sup>+\<^sup>+ d d"
    then obtain x where x: "(attaches i)\<^sup>*\<^sup>* d x" "attaches i x d" 
      by (cases rule: tranclp.cases) (auto intro: tranclp_into_rtranclp)
    then obtain m where "fmlookup (in_byDigest i) d = Some m" "pm_Subject m = x" "x \<noteq> []"
      using attaches_iff [OF assms(2)] by (auto simp: Lookup_def)
    with grounded have "\<not> (attaches i)\<^sup>+\<^sup>+ x x" by blast
    with x show False by (meson rtranclp_into_tranclp2)
  qed
qed

lemma reaches_live:
  assumes "(attaches i)\<^sup>+\<^sup>+ d e" "snapshot ms i"
  shows "live i e \<and> live i d"
  using assms(1) by (induction rule: tranclp_induct) (auto simp: attaches_iff [OF assms(2)] live_Lookup [OF assms(2)])

lemma ReferrerSubtree_eq:
  assumes "snapshot ms i" "live i d"
  shows "set (ReferrerSubtree i d) = {e. (attaches i)\<^sup>+\<^sup>+ d e}" "distinct (ReferrerSubtree i d)"
    "d \<notin> set (ReferrerSubtree i d)"
proof -
  have "\<not> (attaches i)\<^sup>+\<^sup>+ d d"
    using grounded_acyclic [OF _ assms(1)] snapshotD(3) [OF assms(1)] assms(2) unfolding live_def by blast
  moreover note subtree_loop_reach [of "[d]" "[d]" "in_referrers i" d "[]", simplified]
  ultimately show "set (ReferrerSubtree i d) = {e. (attaches i)\<^sup>+\<^sup>+ d e}" "distinct (ReferrerSubtree i d)"
    "d \<notin> set (ReferrerSubtree i d)"
    by (auto simp: ReferrerSubtree_def Referrers_def)
qed

lemma attaches_linear:
  assumes "snapshot ms i" "(attaches i)\<^sup>+\<^sup>+ r e" "(attaches i)\<^sup>+\<^sup>+ q e"
  shows "r = q \<or> (attaches i)\<^sup>+\<^sup>+ r q \<or> (attaches i)\<^sup>+\<^sup>+ q r"
  using assms(2,3)
proof (induction rule: tranclp_induct)
  case (base e)
  from base(2) show ?case
  proof (cases rule: tranclp.cases)
    case (trancl_into_trancl x)
    then have "x = r" using base(1) attaches_iff [OF assms(1)] by auto
    then show ?thesis using trancl_into_trancl by blast
  qed (use base(1) attaches_iff [OF assms(1)] in auto)
next
  case (step y z)
  from step(4) show ?case
  proof (cases rule: tranclp.cases)
    case r_into_trancl
    then have "q = y" using step(2) attaches_iff [OF assms(1)] by auto
    then show ?thesis using step(1) by blast
  next
    case (trancl_into_trancl x)
    then have "x = y" using step(2) attaches_iff [OF assms(1)] by auto
    then show ?thesis using trancl_into_trancl step(3) by blast
  qed
qed

text \<open>A root is a manifest that is not attached to anything in the snapshot.\<close>

lemma no_way_into_root:
  assumes "snapshot ms i" "(attaches i)\<^sup>+\<^sup>+ x r" "m \<in> set (in_selectable i)" "pm_Digest m = r"
  shows False
proof -
  obtain y where "attaches i y r" using assms(2) by (auto elim: tranclp.cases)
  then obtain m' where m': "Lookup i r = Some m'" "pm_Subject m' = y" "y \<noteq> []" "live i y"
    using attaches_iff [OF assms(1)] by auto
  have m: "m \<in> set (in_manifests i)" "reasons_of i m = []" using assms(3) snapshotD(7) [OF assms(1)] by auto
  then have "Lookup i r = Some m" using snapshotD(4) [OF assms(1)] assms(4) by blast
  then have "m' = m" using m'(1) by simp
  moreover have "fmlookup (in_byDigest i) y \<noteq> None"
    using m'(4) live_Lookup [OF assms(1)] by (simp add: Lookup_def)
  ultimately show False using m m' by (simp add: reasons_of_def)
qed

end
