(* ===== verification/Policy_Retention.thy ===== *)
theory Policy_Retention
  imports Policy_Inventory "HOL-Library.Product_Lexorder"
begin

text \<open>
  \<^verbatim>\<open>internal/policy/retention.go\<close> and \<^verbatim>\<open>internal/policy/plan.go\<close>: compiling retention rules, evaluating
  them over a snapshot, and the plan that results.

  Go's \<^verbatim>\<open>regexp.Compile\<close> is a parameter: \<open>compile p\<close> is the matcher of \<^verbatim>\<open>\A(?:p)\z\<close>, or \<^term>\<open>None\<close> when
  the pattern does not parse. Nothing is assumed of it. The clock is the argument \<open>now\<close>, as in the code.
\<close>

section \<open>Rules\<close>

definition Valid_status :: "string \<Rightarrow> bool" where
  "Valid_status s \<longleftrightarrow> s = AnyTags \<or> s = Tagged \<or> s = Untagged"

abbreviation SelectMatched :: string where "SelectMatched \<equiv> ''select-matched''"
abbreviation KeepLastN :: string where "KeepLastN \<equiv> ''keep-last-n''"
abbreviation KeepNewerThan :: string where "KeepNewerThan \<equiv> ''keep-newer-than''"
abbreviation KeepIfPulledSince :: string where "KeepIfPulledSince \<equiv> ''keep-if-pulled-since''"

definition Valid_kind :: "string \<Rightarrow> bool" where
  "Valid_kind k \<longleftrightarrow> k = SelectMatched \<or> k = KeepLastN \<or> k = KeepNewerThan \<or> k = KeepIfPulledSince"

record Rule =
  ru_Name :: string
  ru_Priority :: int
  ru_Kind :: string
  ru_N :: int
  ru_Age :: duration
  ru_TagStatus :: string
  ru_IncludeTags :: "string list"
  ru_ExcludeTags :: "string list"

record compiledRule =
  cl_Rule :: Rule
  cl_include :: "(string \<Rightarrow> bool) list"
  cl_exclude :: "(string \<Rightarrow> bool) list"

type_synonym RuleSet = "compiledRule list"

definition validateKindFields :: "Rule \<Rightarrow> policy_error option" where
  "validateKindFields rule =
    (if ru_Kind rule = KeepLastN then
       (if ru_N rule < 0 then Some (RuleError (ru_Name rule) ''n'')
        else if ru_Age rule \<noteq> 0 then Some (RuleError (ru_Name rule) ''age'')
        else None)
     else if ru_Kind rule = KeepNewerThan \<or> ru_Kind rule = KeepIfPulledSince then
       (if ru_Age rule \<le> 0 then Some (RuleError (ru_Name rule) ''age'')
        else if ru_N rule \<noteq> 0 then Some (RuleError (ru_Name rule) ''n'')
        else None)
     else
       (if ru_N rule \<noteq> 0 then Some (RuleError (ru_Name rule) ''n'')
        else if ru_Age rule \<noteq> 0 then Some (RuleError (ru_Name rule) ''age'')
        else None))"

fun compilePatterns ::
    "(string \<Rightarrow> (string \<Rightarrow> bool) option) \<Rightarrow> string \<Rightarrow> string \<Rightarrow> string list \<Rightarrow> policy_error + (string \<Rightarrow> bool) list" where
  "compilePatterns compile rule field [] = Inr []"
| "compilePatterns compile rule field (pattern # patterns) =
    (if pattern = [] then Inl (RuleError rule field)
     else
       (case compile pattern of
          None \<Rightarrow> Inl (RuleError rule field)
        | Some re \<Rightarrow>
            (case compilePatterns compile rule field patterns of
               Inl e \<Rightarrow> Inl e
             | Inr compiled \<Rightarrow> Inr (re # compiled))))"

text \<open>\<^verbatim>\<open>%d\<close> of a position.\<close>

fun decimal :: "nat \<Rightarrow> string" where
  "decimal n = (if n < 10 then [''0123456789'' ! n] else decimal (n div 10) @ [''0123456789'' ! (n mod 10)])"

declare decimal.simps [simp del]

fun compile_loop ::
    "(string \<Rightarrow> (string \<Rightarrow> bool) option) \<Rightarrow> nat \<Rightarrow> string list \<Rightarrow> Rule list \<Rightarrow> policy_error + RuleSet" where
  "compile_loop compile position names [] = Inr []"
| "compile_loop compile position names (rule # rules) =
    (let label = ru_Name rule in
     if label = [] then Inl (RuleError (''#'' @ decimal position) ''name'')
     else if label \<in> set names then Inl (RuleError label ''name'')
     else if \<not> Valid_kind (ru_Kind rule) then Inl (RuleError label ''kind'')
     else if \<not> Valid_status (ru_TagStatus rule) then Inl (RuleError label ''tag_status'')
     else case validateKindFields rule of
       Some e \<Rightarrow> Inl e
     | None \<Rightarrow>
         (case compilePatterns compile label ''include_tags'' (ru_IncludeTags rule) of
            Inl e \<Rightarrow> Inl e
          | Inr include \<Rightarrow>
              (case compilePatterns compile label ''exclude_tags'' (ru_ExcludeTags rule) of
                 Inl e \<Rightarrow> Inl e
               | Inr exclude \<Rightarrow>
                   (case compile_loop compile (Suc position) (label # names) rules of
                      Inl e \<Rightarrow> Inl e
                    | Inr compiled \<Rightarrow> Inr (\<lparr>cl_Rule = rule, cl_include = include, cl_exclude = exclude\<rparr> # compiled)))))"

definition CompileRules :: "(string \<Rightarrow> (string \<Rightarrow> bool) option) \<Rightarrow> Rule list \<Rightarrow> policy_error + RuleSet" where
  "CompileRules compile rules = compile_loop compile 0 [] rules"

definition Len_rules :: "RuleSet \<Rightarrow> nat" where "Len_rules s = length s"

definition Names_rules :: "RuleSet \<Rightarrow> string list" where
  "Names_rules s = sort (map (\<lambda>r. ru_Name (cl_Rule r)) s)"

definition matches :: "compiledRule \<Rightarrow> policy_Manifest \<Rightarrow> bool" where
  "matches r m \<longleftrightarrow>
    (let status = ru_TagStatus (cl_Rule r) in
     if status = Tagged \<and> Status m \<noteq> Tagged then False
     else if status = Untagged \<and> Status m \<noteq> Untagged then False
     else if list_ex (\<lambda>tag. list_ex (\<lambda>re. re (ptg_Name tag)) (cl_exclude r)) (pm_Tags m) then False
     else if cl_include r = [] then True
     else list_ex (\<lambda>tag. list_ex (\<lambda>re. re (ptg_Name tag)) (cl_include r)) (pm_Tags m))"

definition ranked :: "policy_Manifest list \<Rightarrow> policy_Manifest list" where
  "ranked matched = sort_key (\<lambda>m. (- pm_PushedAt m, pm_Digest m)) matched"

definition keeps :: "compiledRule \<Rightarrow> policy_Manifest list \<Rightarrow> gotime \<Rightarrow> string list" where
  "keeps r matched now =
    (let rule = cl_Rule r; cutoff = now - ru_Age rule in
     if ru_Kind rule = KeepLastN then map pm_Digest (take (nat (ru_N rule)) (ranked matched))
     else if ru_Kind rule = KeepNewerThan then
       map pm_Digest (filter (\<lambda>m. pm_PushedAt m > cutoff) matched)
     else if ru_Kind rule = KeepIfPulledSince then
       map pm_Digest (filter (\<lambda>m. (if pm_LastPulledAt m = 0 then pm_PushedAt m else pm_LastPulledAt m) > cutoff) matched)
     else [])"

section \<open>Verdicts\<close>

record Conflict =
  cf_Digest :: string
  cf_Priority :: int
  cf_Selecting :: "string list"
  cf_Keeping :: "string list"

datatype eval_error = Refused policy_error | ConflictError "Conflict list"

record opinion =
  op_rule :: string
  op_priority :: int
  op_kind :: string
  op_keep :: bool

record verdict =
  ve_applicable :: bool
  ve_keep :: bool
  ve_rule :: string
  ve_kind :: string
  ve_priority :: int
  ve_agreeing :: "string list"

abbreviation no_verdict :: verdict where
  "no_verdict \<equiv> \<lparr>ve_applicable = False, ve_keep = False, ve_rule = [], ve_kind = [], ve_priority = 0, ve_agreeing = []\<rparr>"

definition resolve :: "string \<Rightarrow> opinion list \<Rightarrow> Conflict + verdict" where
  "resolve digest opinions =
    (if opinions = [] then Inr no_verdict
     else
       let best = fold (\<lambda>x b. if op_priority x < b then op_priority x else b) (tl opinions) (op_priority (hd opinions));
           tier = filter (\<lambda>x. op_priority x = best) opinions;
           kinds = fold (\<lambda>x k. fmupd (op_rule x) (op_kind x) k) tier fmempty;
           keeping = sort (map op_rule (filter op_keep tier));
           selecting = sort (map op_rule (filter (\<lambda>x. \<not> op_keep x) tier))
       in if selecting \<noteq> [] \<and> keeping \<noteq> [] then
            Inl \<lparr>cf_Digest = digest, cf_Priority = best, cf_Selecting = selecting, cf_Keeping = keeping\<rparr>
          else
            let deciders = (if keeping \<noteq> [] then keeping else selecting)
            in Inr \<lparr>ve_applicable = True, ve_keep = (keeping \<noteq> []), ve_rule = hd deciders,
                    ve_kind = the (fmlookup kinds (hd deciders)), ve_priority = best, ve_agreeing = tl deciders\<rparr>)"

text \<open>The opinions of one rule, appended to those of the rules before it.\<close>

definition add_opinions ::
    "policy_Manifest list \<Rightarrow> gotime \<Rightarrow> compiledRule \<Rightarrow> (string, opinion list) fmap \<Rightarrow> (string, opinion list) fmap" where
  "add_opinions selectable now r opinions =
    (let matched = filter (matches r) selectable;
         kept = keeps r matched now
     in fold (\<lambda>m. append_at (pm_Digest m)
               \<lparr>op_rule = ru_Name (cl_Rule r), op_priority = ru_Priority (cl_Rule r), op_kind = ru_Kind (cl_Rule r),
                op_keep = (pm_Digest m \<in> set kept)\<rparr>) matched opinions)"

fun resolve_all ::
    "(string, opinion list) fmap \<Rightarrow> policy_Manifest list \<Rightarrow> Conflict list \<times> (string, verdict) fmap" where
  "resolve_all opinions [] = ([], fmempty)"
| "resolve_all opinions (m # ms) =
    (case resolve_all opinions ms of (conflicts, verdicts) \<Rightarrow>
       (case resolve (pm_Digest m) (slice_at opinions (pm_Digest m)) of
          Inl conflict \<Rightarrow> (conflict # conflicts, verdicts)
        | Inr decided \<Rightarrow> (conflicts, fmupd (pm_Digest m) decided verdicts)))"

definition verdict_of :: "(string, verdict) fmap \<Rightarrow> string \<Rightarrow> verdict" where
  "verdict_of verdicts d = (case fmlookup verdicts d of None \<Rightarrow> no_verdict | Some v \<Rightarrow> v)"

section \<open>Plans\<close>

record Referrer =
  rf_Digest :: string
  rf_Subject :: string
  rf_Size :: int
  rf_ArtifactTags :: "string list"

record Entry =
  en_Digest :: string
  en_Tags :: "string list"
  en_Size :: int
  en_Rule :: string
  en_RuleKind :: string
  en_Priority :: int
  en_AlsoSelectedBy :: "string list"
  en_Referrers :: "Referrer list"

definition TotalSize :: "Entry \<Rightarrow> int" where
  "TotalSize e = fold (\<lambda>referrer total. wrap64 (total + rf_Size referrer)) (en_Referrers e) (en_Size e)"

record BlockedEntry =
  be_Digest :: string
  be_Tags :: "string list"
  be_Rule :: string
  be_RuleKind :: string
  be_Priority :: int
  be_Referrer :: string
  be_Blocker :: Exclusion

abbreviation KeptByRule :: string where "KeptByRule \<equiv> ''kept by rule''"
abbreviation KeptNoRuleApplies :: string where "KeptNoRuleApplies \<equiv> ''no rule applies''"
abbreviation KeptNotSelectable :: string where "KeptNotSelectable \<equiv> ''not selectable''"

record KeptEntry =
  ke_Digest :: string
  ke_Tags :: "string list"
  ke_Reason :: string
  ke_Rule :: string
  ke_RuleKind :: string
  ke_Priority :: int
  ke_AlsoKeptBy :: "string list"
  ke_Exclusions :: "Exclusion list"

record Summary =
  su_Manifests :: nat
  su_Selected :: nat
  su_Cascaded :: nat
  su_Blocked :: nat
  su_Kept :: nat
  su_Bytes :: int
  su_KeptBecause :: "(string \<times> nat) list"

record Plan =
  pl_Repo :: string
  pl_EvaluatedAt :: gotime
  pl_Selected :: "Entry list"
  pl_Blocked :: "BlockedEntry list"
  pl_Kept :: "KeptEntry list"

definition Digests :: "Plan \<Rightarrow> string list" where
  "Digests p = sort (concat (map (\<lambda>e. en_Digest e # map rf_Digest (en_Referrers e)) (pl_Selected p)))"

definition Empty_plan :: "Plan \<Rightarrow> bool" where "Empty_plan p \<longleftrightarrow> pl_Selected p = []"

definition Summary_of :: "Plan \<Rightarrow> Summary" where
  "Summary_of p =
    (let cascaded = sum_list (map (\<lambda>e. length (en_Referrers e)) (pl_Selected p));
         count = (\<lambda>reason. length (filter (\<lambda>k. ke_Reason k = reason) (pl_Kept p)))
     in \<lparr>su_Manifests = length (pl_Selected p) + cascaded + length (pl_Blocked p) + length (pl_Kept p),
         su_Selected = length (pl_Selected p), su_Cascaded = cascaded, su_Blocked = length (pl_Blocked p),
         su_Kept = length (pl_Kept p), su_Bytes = fold (\<lambda>entry bytes. wrap64 (bytes + TotalSize entry)) (pl_Selected p) 0,
         su_KeptBecause = filter (\<lambda>(_, n). n > 0)
           (map (\<lambda>reason. (reason, count reason)) [KeptByRule, KeptNoRuleApplies, KeptNotSelectable])\<rparr>)"

text \<open>The first exclusion of a cascade member that is not its attachment.\<close>

fun firstProtectedReferrer :: "Inventory \<Rightarrow> string list \<Rightarrow> (string \<times> Exclusion) option" where
  "firstProtectedReferrer i [] = None"
| "firstProtectedReferrer i (digest # subtree) =
    (case filter (\<lambda>e. ex_Reason e \<noteq> ExcludedLiveSubject) (slice_at (in_excludedBy i) digest) of
       exclusion # _ \<Rightarrow> Some (digest, exclusion)
     | [] \<Rightarrow> firstProtectedReferrer i subtree)"

definition keptEntry :: "Inventory \<Rightarrow> policy_Manifest \<Rightarrow> verdict \<Rightarrow> KeptEntry" where
  "keptEntry i m decided =
    (let entry = \<lparr>ke_Digest = pm_Digest m, ke_Tags = TagNames m, ke_Reason = [], ke_Rule = [], ke_RuleKind = [],
           ke_Priority = 0, ke_AlsoKeptBy = [], ke_Exclusions = []\<rparr>;
         exclusions = slice_at (in_excludedBy i) (pm_Digest m)
     in if exclusions \<noteq> [] then entry\<lparr>ke_Reason := KeptNotSelectable, ke_Exclusions := exclusions\<rparr>
        else if \<not> ve_applicable decided then entry\<lparr>ke_Reason := KeptNoRuleApplies\<rparr>
        else entry\<lparr>ke_Reason := KeptByRule, ke_Rule := ve_rule decided, ke_RuleKind := ve_kind decided,
                   ke_Priority := ve_priority decided, ke_AlsoKeptBy := ve_agreeing decided\<rparr>)"

text \<open>\<^verbatim>\<open>Lookup\<close> of a digest that is not in the snapshot gives the zero manifest.\<close>

definition attached_manifest :: "Inventory \<Rightarrow> string \<Rightarrow> policy_Manifest" where
  "attached_manifest i digest =
    (case Lookup i digest of
       Some m \<Rightarrow> m
     | None \<Rightarrow> \<lparr>pm_Digest = [], pm_Tags = [], pm_PushedAt = 0, pm_LastPulledAt = 0, pm_PullCount = 0, pm_Size = 0,
                pm_Children = [], pm_Subject = []\<rparr>)"

definition referrer_entry :: "Inventory \<Rightarrow> string \<Rightarrow> Referrer" where
  "referrer_entry i digest =
    (let attached = attached_manifest i digest
     in \<lparr>rf_Digest = digest, rf_Subject = pm_Subject attached, rf_Size = pm_Size attached,
         rf_ArtifactTags = TagNames attached\<rparr>)"

text \<open>The loop over the selectable manifests: entries, blocked entries, and the digests that cascade.\<close>

fun plan_loop ::
    "Inventory \<Rightarrow> (string, verdict) fmap \<Rightarrow> policy_Manifest list \<Rightarrow> Entry list \<times> BlockedEntry list \<times> string list" where
  "plan_loop i verdicts [] = ([], [], [])"
| "plan_loop i verdicts (m # ms) =
    (case plan_loop i verdicts ms of (selected, blocked, cascading) \<Rightarrow>
       (let decided = verdict_of verdicts (pm_Digest m) in
        if \<not> ve_applicable decided \<or> ve_keep decided then (selected, blocked, cascading)
        else
          (let subtree = ReferrerSubtree i (pm_Digest m)
           in case firstProtectedReferrer i subtree of
                Some (pinned, blocker) \<Rightarrow>
                  (selected,
                   \<lparr>be_Digest = pm_Digest m, be_Tags = TagNames m, be_Rule = ve_rule decided,
                    be_RuleKind = ve_kind decided, be_Priority = ve_priority decided, be_Referrer = pinned,
                    be_Blocker = blocker\<rparr> # blocked, cascading)
              | None \<Rightarrow>
                  (\<lparr>en_Digest = pm_Digest m, en_Tags = TagNames m, en_Size = pm_Size m, en_Rule = ve_rule decided,
                    en_RuleKind = ve_kind decided, en_Priority = ve_priority decided,
                    en_AlsoSelectedBy = ve_agreeing decided, en_Referrers = map (referrer_entry i) subtree\<rparr> # selected,
                   blocked, subtree @ cascading))))"

definition buildPlan :: "Inventory \<Rightarrow> (string, verdict) fmap \<Rightarrow> gotime \<Rightarrow> Plan" where
  "buildPlan i verdicts now =
    (case plan_loop i verdicts (in_selectable i) of (selected, blocked, cascading) \<Rightarrow>
       \<lparr>pl_Repo = in_repository i, pl_EvaluatedAt = now, pl_Selected = selected, pl_Blocked = blocked,
        pl_Kept = map (\<lambda>m. keptEntry i m (verdict_of verdicts (pm_Digest m)))
          (filter (\<lambda>m. pm_Digest m \<notin> set (map en_Digest selected) \<and> pm_Digest m \<notin> set cascading \<and>
                       pm_Digest m \<notin> set (map be_Digest blocked)) (in_manifests i))\<rparr>)"

definition Evaluate :: "Inventory option \<Rightarrow> RuleSet \<Rightarrow> gotime \<Rightarrow> eval_error + Plan" where
  "Evaluate snap rules now =
    (case snap of
       None \<Rightarrow> Inl (Refused NoInventory)
     | Some i \<Rightarrow>
         if now = 0 then Inl (Refused NoEvaluationTime)
         else
           (let opinions = fold (add_opinions (in_selectable i) now) rules fmempty
            in case resolve_all opinions (in_selectable i) of (conflicts, verdicts) \<Rightarrow>
                 if conflicts \<noteq> [] then Inl (ConflictError conflicts)
                 else Inr (buildPlan i verdicts now)))"

section \<open>What the rules say\<close>

text \<open>The opinion of one rule about one manifest it matches.\<close>

definition opinion_of :: "policy_Manifest list \<Rightarrow> gotime \<Rightarrow> policy_Manifest \<Rightarrow> compiledRule \<Rightarrow> opinion" where
  "opinion_of selectable now m r =
    \<lparr>op_rule = ru_Name (cl_Rule r), op_priority = ru_Priority (cl_Rule r), op_kind = ru_Kind (cl_Rule r),
     op_keep = (pm_Digest m \<in> set (keeps r (filter (matches r) selectable) now))\<rparr>"

lemma opinion_of_sel [simp]:
  "op_rule (opinion_of sel now m r) = ru_Name (cl_Rule r)"
  "op_priority (opinion_of sel now m r) = ru_Priority (cl_Rule r)"
  "op_kind (opinion_of sel now m r) = ru_Kind (cl_Rule r)"
  by (simp_all add: opinion_of_def)

lemma slice_at_fold:
  "slice_at (fold (\<lambda>m. append_at (k m) (f m)) ms opinions) d = slice_at opinions d @ map f (filter (\<lambda>m. k m = d) ms)"
  by (induction ms arbitrary: opinions) (auto simp: slice_at_append_at)

lemma filter_single:
  "distinct (map k ms) \<Longrightarrow> m \<in> set ms \<Longrightarrow> filter (\<lambda>x. P x \<and> k x = k m) ms = (if P m then [m] else [])"
proof (induction ms)
  case (Cons x ms)
  show ?case
  proof (cases "x = m")
    case True
    with Cons.prems have "\<forall>y \<in> set ms. k y \<noteq> k m" by (metis distinct.simps(2) image_eqI list.set_map list.simps(9))
    with True show ?thesis by (auto simp: filter_empty_conv)
  next
    case False
    with Cons have "k x \<noteq> k m" by auto
    with False Cons show ?thesis by simp
  qed
qed simp

lemma opinions_eq:
  assumes "distinct (map pm_Digest sel)" "m \<in> set sel"
  shows "slice_at (fold (add_opinions sel now) rules opinions) (pm_Digest m) =
    slice_at opinions (pm_Digest m) @ map (opinion_of sel now m) (filter (\<lambda>r. matches r m) rules)"
proof (induction rules arbitrary: opinions)
  case (Cons r rules)
  have "filter (\<lambda>x. matches r x \<and> pm_Digest x = pm_Digest m) sel = (if matches r m then [m] else [])"
    by (rule filter_single [OF assms])
  then have "slice_at (add_opinions sel now r opinions) (pm_Digest m) =
      slice_at opinions (pm_Digest m) @ (if matches r m then [opinion_of sel now m r] else [])"
    by (simp add: add_opinions_def Let_def slice_at_fold filter_filter opinion_of_def conj_commute)
  with Cons show ?case by simp
qed simp

text \<open>The opinions at the strongest precedence: the numerically lowest priority among them.\<close>

definition strongest :: "opinion list \<Rightarrow> opinion list" where
  "strongest opinions = filter (\<lambda>x. \<forall>y \<in> set opinions. op_priority x \<le> op_priority y) opinions"

lemma fold_best:
  "fold (\<lambda>x b. if op_priority x < b then op_priority x else b) xs a = Min (set (a # map op_priority xs))"
proof -
  have "fold (\<lambda>x b. if op_priority x < b then op_priority x else b) xs a = fold min (map op_priority xs) a"
    by (induction xs arbitrary: a) (auto simp: min_def not_less)
  then show ?thesis by (simp only: Min.set_eq_fold)
qed

lemma best_tier:
  assumes "opinions \<noteq> []"
  shows "filter (\<lambda>x. op_priority x = fold (\<lambda>x b. if op_priority x < b then op_priority x else b) (tl opinions)
      (op_priority (hd opinions))) opinions = strongest opinions"
proof -
  have "fold (\<lambda>x b. if op_priority x < b then op_priority x else b) (tl opinions) (op_priority (hd opinions)) =
      Min (op_priority ` set opinions)"
    using assms by (cases opinions) (simp_all add: fold_best)
  moreover have "op_priority x = Min (op_priority ` set opinions) \<longleftrightarrow> (\<forall>y \<in> set opinions. op_priority x \<le> op_priority y)"
    if "x \<in> set opinions" for x using that by (subst eq_Min_iff) auto
  ultimately show ?thesis by (auto simp: strongest_def intro: filter_cong)
qed

lemma strongest_nonempty: "opinions \<noteq> [] \<Longrightarrow> strongest opinions \<noteq> []"
proof -
  assume "opinions \<noteq> []"
  then have "Min (op_priority ` set opinions) \<in> op_priority ` set opinions" by simp
  then obtain x where "x \<in> set opinions" "op_priority x = Min (op_priority ` set opinions)" by auto
  then have "\<forall>y \<in> set opinions. op_priority x \<le> op_priority y" by simp
  with \<open>x \<in> set opinions\<close> show ?thesis by (auto simp: strongest_def filter_empty_conv)
qed

lemma kinds_lookup:
  "distinct (map op_rule xs) \<Longrightarrow> x \<in> set xs \<Longrightarrow>
    fmlookup (fold (\<lambda>x k. fmupd (op_rule x) (op_kind x) k) xs k) (op_rule x) = Some (op_kind x)"
proof (induction xs arbitrary: k)
  case (Cons y ys)
  have keep: "fmlookup (fold (\<lambda>x k. fmupd (op_rule x) (op_kind x) k) ys k') n = fmlookup k' n"
    if "n \<notin> set (map op_rule ys)" for n k' using that by (induction ys arbitrary: k') auto
  show ?case
  proof (cases "x \<in> set ys")
    case True
    then show ?thesis using Cons by simp
  next
    case False
    then have "x = y" "op_rule y \<notin> set (map op_rule ys)" using Cons.prems by auto
    then show ?thesis using keep by simp
  qed
qed simp

lemma sort_mset_cong: "mset xs = mset ys \<Longrightarrow> sort xs = sort (ys :: 'a :: linorder list)"
  by (metis mset_sort sorted_sort properties_for_sort)

lemma strongest_mset:
  assumes "mset xs = mset ys"
  shows "mset (strongest xs) = mset (strongest ys)"
proof -
  note same = mset_eq_setD [OF assms]
  show ?thesis unfolding strongest_def mset_filter assms same ..
qed

text \<open>\<^verbatim>\<open>resolve\<close> in terms of the strongest opinions.\<close>

lemma resolve_eq:
  assumes "opinions \<noteq> []"
  shows "resolve d opinions =
    (let tier = strongest opinions; best = Min (op_priority ` set opinions);
         keeping = sort (map op_rule (filter op_keep tier));
         selecting = sort (map op_rule (filter (\<lambda>x. \<not> op_keep x) tier))
     in if selecting \<noteq> [] \<and> keeping \<noteq> [] then
          Inl \<lparr>cf_Digest = d, cf_Priority = best, cf_Selecting = selecting, cf_Keeping = keeping\<rparr>
        else
          let deciders = (if keeping \<noteq> [] then keeping else selecting)
          in Inr \<lparr>ve_applicable = True, ve_keep = (keeping \<noteq> []), ve_rule = hd deciders,
                  ve_kind = the (fmlookup (fold (\<lambda>x k. fmupd (op_rule x) (op_kind x) k) tier fmempty) (hd deciders)),
                  ve_priority = best, ve_agreeing = tl deciders\<rparr>)"
proof -
  have best: "fold (\<lambda>x b. if op_priority x < b then op_priority x else b) (tl opinions) (op_priority (hd opinions)) =
      Min (op_priority ` set opinions)"
    using assms by (cases opinions) (simp_all add: fold_best)
  show ?thesis unfolding resolve_def Let_def unfolding best_tier [OF assms] unfolding best using assms by simp
qed

lemma sort_key_Nil_iff: "sort_key f xs = [] \<longleftrightarrow> xs = []"
  by (metis length_0_conv length_sort)

lemma resolve_Inr:
  assumes "resolve d opinions = Inr v"
  shows "ve_applicable v \<longleftrightarrow> opinions \<noteq> []"
    and "opinions \<noteq> [] \<Longrightarrow> ve_keep v \<longleftrightarrow> (\<forall>x \<in> set (strongest opinions). op_keep x)"
    and "opinions \<noteq> [] \<Longrightarrow> \<not> ve_keep v \<longleftrightarrow> (\<forall>x \<in> set (strongest opinions). \<not> op_keep x)"
proof -
  show "ve_applicable v \<longleftrightarrow> opinions \<noteq> []"
  proof (cases "opinions = []")
    case True
    then show ?thesis using assms by (auto simp: resolve_def)
  next
    case False
    show ?thesis using assms unfolding resolve_eq [OF False] using False by (auto simp: Let_def split: if_splits)
  qed
  assume ne: "opinions \<noteq> []"
  obtain x where x: "x \<in> set (strongest opinions)" using strongest_nonempty [OF ne] by (cases "strongest opinions") auto
  have "(\<forall>x \<in> set (strongest opinions). op_keep x) \<or> (\<forall>x \<in> set (strongest opinions). \<not> op_keep x)"
    "ve_keep v \<longleftrightarrow> (\<exists>x \<in> set (strongest opinions). op_keep x)"
    using assms unfolding resolve_eq [OF ne]
    by (auto simp: Let_def filter_empty_conv sort_key_Nil_iff split: if_splits)
  with x show "ve_keep v \<longleftrightarrow> (\<forall>x \<in> set (strongest opinions). op_keep x)"
    "\<not> ve_keep v \<longleftrightarrow> (\<forall>x \<in> set (strongest opinions). \<not> op_keep x)" by blast+
qed

lemma resolve_Inl:
  "(\<exists>c. resolve d opinions = Inl c) \<longleftrightarrow>
    (\<exists>x \<in> set (strongest opinions). op_keep x) \<and> (\<exists>x \<in> set (strongest opinions). \<not> op_keep x)"
proof (cases "opinions = []")
  case True
  then show ?thesis by (simp add: resolve_def strongest_def)
next
  case False
  show ?thesis unfolding resolve_eq [OF False]
    by (auto simp: Let_def filter_empty_conv sort_key_Nil_iff)
qed

lemma resolve_mset:
  assumes "mset xs = mset ys" "distinct (map op_rule xs)"
  shows "resolve d xs = resolve d ys"
proof (cases "xs = []")
  case True
  then show ?thesis using assms by simp
next
  case False
  then have ne: "ys \<noteq> []" using assms(1) by auto
  have tier: "mset (strongest xs) = mset (strongest ys)" by (rule strongest_mset [OF assms(1)])
  have sets: "set xs = set ys" "set (strongest xs) = set (strongest ys)" using assms(1) tier mset_eq_setD by blast+
  have dx: "distinct (map op_rule (strongest xs))" "distinct (map op_rule (strongest ys))"
  proof -
    show "distinct (map op_rule (strongest xs))" using assms(2) by (simp add: strongest_def distinct_map_filter)
    then show "distinct (map op_rule (strongest ys))" using tier by (metis mset_eq_imp_distinct_iff mset_map)
  qed
  let ?k = "\<lambda>xs. fold (\<lambda>x k. fmupd (op_rule x) (op_kind x) k) (strongest xs) fmempty"
  have kinds: "fmlookup (?k xs) n = fmlookup (?k ys) n" if "n \<in> op_rule ` set (strongest xs)" for n
    using that kinds_lookup [OF dx(1), of _ fmempty] kinds_lookup [OF dx(2), of _ fmempty] sets(2) by auto
  let ?s = "\<lambda>P xs. sort (map op_rule (filter P (strongest xs)))"
  have same: "?s P xs = ?s P ys" for P by (rule sort_mset_cong) (simp add: tier)
  have inn: "?s P xs \<noteq> [] \<Longrightarrow> hd (?s P xs) \<in> op_rule ` set (strongest xs)" for P
  proof -
    assume "?s P xs \<noteq> []"
    then have "hd (?s P xs) \<in> set (?s P xs)" by (rule hd_in_set)
    then show ?thesis by auto
  qed
  have "(\<exists>x \<in> set (strongest xs). P x) \<Longrightarrow> ?s P xs \<noteq> []" for P
    by (auto simp: filter_empty_conv sort_key_Nil_iff)
  with strongest_nonempty [OF False] have "?s op_keep xs \<noteq> [] \<or> ?s (\<lambda>x. \<not> op_keep x) xs \<noteq> []"
    by (cases "strongest xs") auto
  then have "fmlookup (?k xs) (hd (if ?s op_keep xs \<noteq> [] then ?s op_keep xs else ?s (\<lambda>x. \<not> op_keep x) xs)) =
     fmlookup (?k ys) (hd (if ?s op_keep xs \<noteq> [] then ?s op_keep xs else ?s (\<lambda>x. \<not> op_keep x) xs))"
    using kinds inn by presburger
  then show ?thesis unfolding resolve_eq [OF False] resolve_eq [OF ne] Let_def sets(1) same by presburger
qed

lemma resolve_all_conflicts:
  "fst (resolve_all opinions ms) = [] \<longleftrightarrow>
    (\<forall>m \<in> set ms. \<nexists>c. resolve (pm_Digest m) (slice_at opinions (pm_Digest m)) = Inl c)"
  by (induction ms) (auto split: prod.splits sum.splits)

lemma resolve_all_verdict:
  "m \<in> set ms \<Longrightarrow> resolve (pm_Digest m) (slice_at opinions (pm_Digest m)) = Inr v \<Longrightarrow>
    verdict_of (snd (resolve_all opinions ms)) (pm_Digest m) = v"
proof (induction ms)
  case (Cons x ms)
  show ?case
  proof (cases "pm_Digest x = pm_Digest m")
    case True
    then show ?thesis using Cons.prems(2) by (simp add: verdict_of_def split: prod.split)
  next
    case False
    then have "m \<in> set ms" using Cons.prems(1) by auto
    then show ?thesis using Cons False by (auto simp: verdict_of_def split: prod.splits sum.splits)
  qed
qed simp

lemma resolve_all_cong:
  "(\<And>m. m \<in> set ms \<Longrightarrow> resolve (pm_Digest m) (slice_at xs (pm_Digest m)) = resolve (pm_Digest m) (slice_at ys (pm_Digest m))) \<Longrightarrow>
    resolve_all xs ms = resolve_all ys ms"
  by (induction ms) (simp_all split: prod.split)

section \<open>Compilation\<close>

definition compiles :: "(string \<Rightarrow> (string \<Rightarrow> bool) option) \<Rightarrow> Rule \<Rightarrow> compiledRule \<Rightarrow> bool" where
  "compiles compile rule c \<longleftrightarrow>
    ru_Name rule \<noteq> [] \<and> Valid_kind (ru_Kind rule) \<and> Valid_status (ru_TagStatus rule) \<and>
    validateKindFields rule = None \<and> cl_Rule c = rule \<and>
    compilePatterns compile (ru_Name rule) ''include_tags'' (ru_IncludeTags rule) = Inr (cl_include c) \<and>
    compilePatterns compile (ru_Name rule) ''exclude_tags'' (ru_ExcludeTags rule) = Inr (cl_exclude c)"

lemma compile_loop_Inr:
  "compile_loop compile position names rules = Inr compiled \<longleftrightarrow>
    list_all2 (compiles compile) rules compiled \<and> distinct (map ru_Name rules) \<and>
    set (map ru_Name rules) \<inter> set names = {}"
proof (induction rules arbitrary: position names compiled)
  case (Cons rule rules)
  have "compile_loop compile position names (rule # rules) = Inr compiled \<longleftrightarrow>
      (\<exists>c cs. compiled = c # cs \<and> compiles compile rule c \<and> ru_Name rule \<notin> set names \<and>
        compile_loop compile (Suc position) (ru_Name rule # names) rules = Inr cs)"
    by (auto simp: compiles_def Let_def split: option.splits sum.splits)
  then show ?case unfolding Cons by (auto simp: list_all2_Cons1)
qed auto

lemma CompileRules_Inr:
  "CompileRules compile rules = Inr compiled \<longleftrightarrow>
    list_all2 (compiles compile) rules compiled \<and> distinct (map ru_Name rules)"
  by (simp add: CompileRules_def compile_loop_Inr)

lemma compiles_names:
  "list_all2 (compiles compile) rules compiled \<Longrightarrow> map ru_Name rules = map (\<lambda>c. ru_Name (cl_Rule c)) compiled"
  by (induction rule: list_all2_induct) (simp_all add: compiles_def)

lemma compile_permuted:
  assumes "CompileRules compile rules = Inr compiled" "mset rules' = mset rules"
  obtains compiled' where "CompileRules compile rules' = Inr compiled'" "mset compiled' = mset compiled"
proof -
  have all: "list_all2 (compiles compile) rules compiled" "distinct (map ru_Name rules)"
    using assms(1) by (simp_all add: CompileRules_Inr)
  obtain compiled' where "list_all2 (compiles compile) rules' compiled'" "mset compiled' = mset compiled"
    using list_all2_reorder_left_invariance [OF all(1) assms(2)] by blast
  moreover have "distinct (map ru_Name rules')" using all(2) assms(2) by (metis mset_eq_imp_distinct_iff mset_map)
  ultimately show ?thesis using that by (simp add: CompileRules_Inr)
qed

lemma snapshot_distinct: "snapshot ms i \<Longrightarrow> distinct (map pm_Digest (in_manifests i))"
  using snapshotD(2) [of ms i] strict_sorted_iff by blast

lemma selectable_distinct:
  assumes "NewInventory repository ms = Inr i"
  shows "distinct (map pm_Digest (in_selectable i))"
proof -
  have s: "snapshot ms i" using NewInventory_snapshot [OF assms] by blast
  show ?thesis unfolding snapshotD(7) [OF s] by (rule distinct_map_filter [OF snapshot_distinct [OF s]])
qed

section \<open>What a plan deletes\<close>

definition condemned :: "(string, verdict) fmap \<Rightarrow> policy_Manifest \<Rightarrow> bool" where
  "condemned verdicts m \<longleftrightarrow> ve_applicable (verdict_of verdicts (pm_Digest m)) \<and> \<not> ve_keep (verdict_of verdicts (pm_Digest m))"

definition pinned :: "Inventory \<Rightarrow> policy_Manifest \<Rightarrow> bool" where
  "pinned i m \<longleftrightarrow> firstProtectedReferrer i (ReferrerSubtree i (pm_Digest m)) \<noteq> None"

lemma plan_loop_eq:
  assumes "plan_loop i verdicts ms = (selected, blocked, cascading)"
  shows "map (\<lambda>e. (en_Digest e, map rf_Digest (en_Referrers e))) selected =
      map (\<lambda>m. (pm_Digest m, ReferrerSubtree i (pm_Digest m))) (filter (\<lambda>m. condemned verdicts m \<and> \<not> pinned i m) ms)"
    and "map be_Digest blocked = map pm_Digest (filter (\<lambda>m. condemned verdicts m \<and> pinned i m) ms)"
    and "cascading = concat (map (\<lambda>m. ReferrerSubtree i (pm_Digest m)) (filter (\<lambda>m. condemned verdicts m \<and> \<not> pinned i m) ms))"
  using assms
proof (induction ms arbitrary: selected blocked cascading)
  case (Cons m ms)
  obtain s b c where rest: "plan_loop i verdicts ms = (s, b, c)" by (metis prod_cases3)
  note ih = Cons.IH [OF rest]
  have id: "map (\<lambda>x. rf_Digest (referrer_entry i x)) xs = xs" for xs
    by (simp add: referrer_entry_def Let_def)
  { case 1 then show ?case using rest ih(1)
      by (auto simp: condemned_def pinned_def Let_def comp_def id split: if_splits option.splits) }
  { case 2 then show ?case using rest ih(2)
      by (auto simp: condemned_def pinned_def Let_def split: if_splits option.splits) }
  { case 3 then show ?case using rest ih(3)
      by (auto simp: condemned_def pinned_def Let_def split: if_splits option.splits) }
qed simp_all

lemma firstProtectedReferrer_None:
  "firstProtectedReferrer i ds = None \<longleftrightarrow>
    (\<forall>d \<in> set ds. \<forall>e \<in> set (ExclusionsFor i d). ex_Reason e = ExcludedLiveSubject)"
proof (induction ds)
  case (Cons d ds)
  then show ?case
    by (cases "filter (\<lambda>e. ex_Reason e \<noteq> ExcludedLiveSubject) (slice_at (in_excludedBy i) d)")
      (auto simp: ExclusionsFor_def filter_empty_conv dest: filter_eq_ConsD)
qed simp

text \<open>A manifest nothing but an attachment can exclude.\<close>

definition unguarded :: "Inventory \<Rightarrow> policy_Manifest \<Rightarrow> bool" where
  "unguarded i m \<longleftrightarrow> (\<forall>t \<in> set (pm_Tags m). \<not> ptg_Protected t \<and> \<not> ptg_Immutable t) \<and> IndexParents i (pm_Digest m) = []"

lemma reasons_unguarded:
  "(\<forall>e \<in> set (reasons_of i m). ex_Reason e = ExcludedLiveSubject) \<longleftrightarrow> unguarded i m"
proof -
  have "(\<forall>e \<in> set (tag_exclusions d t). ex_Reason e = ExcludedLiveSubject) \<longleftrightarrow> \<not> ptg_Protected t \<and> \<not> ptg_Immutable t" for d t
    by (cases "ptg_Protected t"; cases "ptg_Immutable t") (simp_all add: tag_exclusions_def)
  then show ?thesis 
    by (cases "slice_at (in_indexParents i) (pm_Digest m) = []") (auto simp: reasons_of_def unguarded_def IndexParents_def Let_def ball_Un)
qed

text \<open>The digests that go with the manifests of a list.\<close>

definition doomed :: "Inventory \<Rightarrow> policy_Manifest list \<Rightarrow> string list" where
  "doomed i ms = concat (map (\<lambda>m. pm_Digest m # ReferrerSubtree i (pm_Digest m)) ms)"

definition chosen :: "Inventory \<Rightarrow> (string, verdict) fmap \<Rightarrow> policy_Manifest list" where
  "chosen i verdicts = filter (\<lambda>m. condemned verdicts m \<and> \<not> pinned i m) (in_selectable i)"

lemma buildPlan_Digests: "Digests (buildPlan i verdicts now) = sort (doomed i (chosen i verdicts))"
proof -
  obtain s b c where p: "plan_loop i verdicts (in_selectable i) = (s, b, c)" by (metis prod_cases3)
  have "concat (map (\<lambda>e. en_Digest e # map rf_Digest (en_Referrers e)) s) =
      concat (map (\<lambda>(d, rs). d # rs) (map (\<lambda>e. (en_Digest e, map rf_Digest (en_Referrers e))) s))"
    by (simp add: comp_def)
  also have "\<dots> = doomed i (chosen i verdicts)"
    unfolding plan_loop_eq(1) [OF p] by (simp add: doomed_def chosen_def comp_def)
  finally show ?thesis using p by (simp add: Digests_def buildPlan_def)
qed

lemma buildPlan_Blocked:
  "map be_Digest (pl_Blocked (buildPlan i verdicts now)) =
    map pm_Digest (filter (\<lambda>m. condemned verdicts m \<and> pinned i m) (in_selectable i))"
proof -
  obtain s b c where p: "plan_loop i verdicts (in_selectable i) = (s, b, c)" by (metis prod_cases3)
  then show ?thesis using plan_loop_eq(2) [OF p] by (simp add: buildPlan_def)
qed

lemma ke_Digest_keptEntry [simp]: "ke_Digest (keptEntry i m v) = pm_Digest m"
  by (simp add: keptEntry_def Let_def)

lemma buildPlan_Kept:
  "pl_Kept (buildPlan i verdicts now) = map (\<lambda>m. keptEntry i m (verdict_of verdicts (pm_Digest m)))
    (filter (\<lambda>m. pm_Digest m \<notin> set (doomed i (chosen i verdicts)) \<and>
      pm_Digest m \<notin> set (map be_Digest (pl_Blocked (buildPlan i verdicts now)))) (in_manifests i))"
proof -
  obtain s b c where p: "plan_loop i verdicts (in_selectable i) = (s, b, c)" by (metis prod_cases3)
  have "map en_Digest s = map fst (map (\<lambda>e. (en_Digest e, map rf_Digest (en_Referrers e))) s)" by simp
  then have "map en_Digest s = map pm_Digest (chosen i verdicts)"
    unfolding plan_loop_eq(1) [OF p] by (simp add: chosen_def comp_def)
  then have "set (doomed i (chosen i verdicts)) = set (map en_Digest s) \<union> set c"
    unfolding plan_loop_eq(3) [OF p] by (auto simp: doomed_def chosen_def)
  then show ?thesis using p by (auto simp: buildPlan_def intro!: arg_cong2 [where f = map] filter_cong)
qed

lemma selectable_rows:
  assumes "snapshot ms i" "m \<in> set (in_selectable i)"
  shows "m \<in> set (in_manifests i)" "reasons_of i m = []" "live i (pm_Digest m)" "unguarded i m"
proof -
  show m: "m \<in> set (in_manifests i)" "reasons_of i m = []" using assms(2) snapshotD(7) [OF assms(1)] by auto
  then show "live i (pm_Digest m)" "unguarded i m" using reasons_unguarded [of i m] by (auto simp: live_def)
qed

lemma doomed_iff:
  assumes "snapshot ms i" "set cs \<subseteq> set (in_selectable i)"
  shows "d \<in> set (doomed i cs) \<longleftrightarrow> (\<exists>m \<in> set cs. (attaches i)\<^sup>*\<^sup>* (pm_Digest m) d)"
proof -
  have "set (ReferrerSubtree i (pm_Digest m)) = {e. (attaches i)\<^sup>+\<^sup>+ (pm_Digest m) e}" if "m \<in> set cs" for m
    using ReferrerSubtree_eq(1) [OF assms(1) selectable_rows(3) [OF assms(1)]] that assms(2) by blast
  then show ?thesis by (auto simp: doomed_def dest: rtranclpD intro: tranclp_into_rtranclp)
qed

text \<open>The rules that decide a manifest: those that match it and that no matching rule outranks. A rule saves
  a manifest when it is among those the rule keeps of the selectable manifests it matches.\<close>

definition foremost :: "RuleSet \<Rightarrow> policy_Manifest \<Rightarrow> compiledRule list" where
  "foremost rules m = filter (\<lambda>r. matches r m \<and>
    (\<forall>q \<in> set rules. matches q m \<longrightarrow> ru_Priority (cl_Rule r) \<le> ru_Priority (cl_Rule q))) rules"

definition saves :: "Inventory \<Rightarrow> gotime \<Rightarrow> compiledRule \<Rightarrow> policy_Manifest \<Rightarrow> bool" where
  "saves i now r m \<longleftrightarrow> pm_Digest m \<in> set (keeps r (filter (matches r) (Selectable i)) now)"

definition opinions_about :: "Inventory \<Rightarrow> RuleSet \<Rightarrow> gotime \<Rightarrow> policy_Manifest \<Rightarrow> opinion list" where
  "opinions_about i rules now m = map (opinion_of (in_selectable i) now m) (filter (\<lambda>r. matches r m) rules)"

lemma strongest_about:
  "strongest (opinions_about i rules now m) = map (opinion_of (in_selectable i) now m) (foremost rules m)"
  by (auto simp: strongest_def opinions_about_def foremost_def filter_map comp_def intro!: arg_cong2 [where f = map] filter_cong)

lemma op_keep_saves [simp]: "op_keep (opinion_of (in_selectable i) now m r) \<longleftrightarrow> saves i now r m"
  by (simp add: opinion_of_def saves_def Selectable_def)

lemma foremost_empty: "opinions_about i rules now m = [] \<longleftrightarrow> foremost rules m = []"
  using strongest_nonempty [of "opinions_about i rules now m"] strongest_about [of i rules now m]
  by (auto simp: strongest_def)

lemma Evaluate_cases:
  assumes "NewInventory repository ms = Inr i" "now \<noteq> 0"
  obtains (conflict) cs m where "Evaluate (Some i) rules now = Inl (ConflictError cs)" "m \<in> set (in_selectable i)"
      "\<exists>c. resolve (pm_Digest m) (opinions_about i rules now m) = Inl c"
    | (plan) verdicts where "Evaluate (Some i) rules now = Inr (buildPlan i verdicts now)"
      "\<forall>m \<in> set (in_selectable i). resolve (pm_Digest m) (opinions_about i rules now m) = Inr (verdict_of verdicts (pm_Digest m))"
proof -
  let ?sel = "in_selectable i"
  let ?ops = "fold (add_opinions ?sel now) rules fmempty"
  have ops: "slice_at ?ops (pm_Digest m) = opinions_about i rules now m" if "m \<in> set ?sel" for m
    using opinions_eq [OF selectable_distinct [OF assms(1)] that] by (simp add: opinions_about_def)
  show ?thesis
  proof (cases "fst (resolve_all ?ops ?sel) = []")
    case True
    then have "resolve (pm_Digest m) (opinions_about i rules now m) = Inr (verdict_of (snd (resolve_all ?ops ?sel)) (pm_Digest m))"
      if "m \<in> set ?sel" for m
      using that resolve_all_verdict [OF that] unfolding resolve_all_conflicts by (metis ops sumE)
    then show ?thesis using True assms(2) by (intro plan) (auto simp: Evaluate_def Let_def split: prod.split)
  next
    case False
    then obtain m where "m \<in> set ?sel" "\<exists>c. resolve (pm_Digest m) (opinions_about i rules now m) = Inl c"
      unfolding resolve_all_conflicts using ops by auto
    then show ?thesis using False assms(2) by (intro conflict [of "fst (resolve_all ?ops ?sel)" m]) (auto simp: Evaluate_def Let_def split: prod.split)
  qed
qed

lemma condemned_iff:
  assumes "resolve (pm_Digest m) (opinions_about i rules now m) = Inr (verdict_of verdicts (pm_Digest m))"
  shows "condemned verdicts m \<longleftrightarrow> foremost rules m \<noteq> [] \<and> (\<forall>r \<in> set (foremost rules m). \<not> saves i now r m)"
proof (cases "foremost rules m = []")
  case True
  then show ?thesis using resolve_Inr(1) [OF assms] foremost_empty [of i rules now m] by (simp add: condemned_def)
next
  case False
  then have "opinions_about i rules now m \<noteq> []" using foremost_empty by blast
  then show ?thesis using resolve_Inr(1,3) [OF assms] False strongest_about [of i rules now m] by (simp add: condemned_def)
qed

lemma dispute_iff:
  "(\<exists>c. resolve d (opinions_about i rules now m) = Inl c) \<longleftrightarrow>
    (\<exists>r \<in> set (foremost rules m). \<exists>q \<in> set (foremost rules m). saves i now r m \<and> \<not> saves i now q m)"
  unfolding resolve_Inl strongest_about by auto

lemma selectable_unique:
  assumes "snapshot ms i" "m \<in> set (in_selectable i)" "m' \<in> set (in_selectable i)" "pm_Digest m = pm_Digest m'"
  shows "m = m'"
  using selectable_rows(1) [OF assms(1)] assms(2-4) snapshot_distinct [OF assms(1)] by (metis distinct_map inj_onD)

lemma plan_accounts:
  assumes "snapshot ms i" "m \<in> set (in_selectable i)"
  shows "pm_Digest m \<in> set (Digests (buildPlan i verdicts now)) \<union> be_Digest ` set (pl_Blocked (buildPlan i verdicts now)) \<longleftrightarrow>
    condemned verdicts m"
proof -
  have sub: "set (chosen i verdicts) \<subseteq> set (in_selectable i)" by (auto simp: chosen_def)
  have "(attaches i)\<^sup>*\<^sup>* (pm_Digest x) (pm_Digest m) \<longleftrightarrow> x = m" if "x \<in> set (in_selectable i)" for x
    using no_way_into_root [OF assms(1) _ assms(2) refl] selectable_unique [OF assms(1) that assms(2)]
    by (metis rtranclpD rtranclp.rtrancl_refl)
  then have "pm_Digest m \<in> set (Digests (buildPlan i verdicts now)) \<longleftrightarrow> condemned verdicts m \<and> \<not> pinned i m"
    using sub assms(2) unfolding buildPlan_Digests set_sort doomed_iff [OF assms(1) sub] by (auto simp: chosen_def)
  moreover have "pm_Digest m \<in> be_Digest ` set (pl_Blocked (buildPlan i verdicts now)) \<longleftrightarrow> condemned verdicts m \<and> pinned i m"
    unfolding list.set_map [symmetric] buildPlan_Blocked using selectable_unique [OF assms(1,2)] assms(2) by fastforce
  ultimately show ?thesis by blast
qed

lemma Evaluate_Inr:
  assumes "NewInventory repository ms = Inr i" "Evaluate (Some i) rules now = Inr p"
  obtains verdicts where "p = buildPlan i verdicts now"
    "\<forall>m \<in> set (in_selectable i). resolve (pm_Digest m) (opinions_about i rules now m) = Inr (verdict_of verdicts (pm_Digest m))"
proof -
  have "now \<noteq> 0" using assms(2) by (auto simp: Evaluate_def)
  show ?thesis
  proof (rule Evaluate_cases [OF assms(1) \<open>now \<noteq> 0\<close>, of rules])
    fix cs m
    assume "Evaluate (Some i) rules now = Inl (ConflictError cs)"
    then show ?thesis using assms(2) by simp
  next
    fix verdicts
    assume "Evaluate (Some i) rules now = Inr (buildPlan i verdicts now)"
      and v: "\<forall>m \<in> set (in_selectable i). resolve (pm_Digest m) (opinions_about i rules now m) = Inr (verdict_of verdicts (pm_Digest m))"
    then have "p = buildPlan i verdicts now" using assms(2) by simp
    then show ?thesis by (rule that [OF _ v])
  qed
qed

lemma row_of:
  assumes "snapshot ms i"
  shows "Lookup i d = Some c \<longleftrightarrow> (\<exists>m \<in> set ms. c = cloned m \<and> pm_Digest m = d)"
  unfolding snapshotD(4) [OF assms] snapshotD(1) [OF assms] by auto

lemma live_row:
  assumes "snapshot ms i"
  shows "live i d \<longleftrightarrow> (\<exists>m \<in> set ms. pm_Digest m = d)"
  unfolding live_def snapshotD(1) [OF assms] by auto

lemma unguarded_row:
  assumes "snapshot ms i" "m \<in> set ms" "unguarded i (cloned m)"
  shows "(\<forall>t \<in> set (pm_Tags m). \<not> ptg_Protected t \<and> \<not> ptg_Immutable t) \<and> (\<forall>x \<in> set ms. pm_Digest m \<notin> set (pm_Children x))"
proof -
  have "live i (pm_Digest m)" using live_row [OF assms(1)] assms(2) by blast
  then have "set (IndexParents i (pm_Digest m)) = {pm_Digest x |x. x \<in> set (in_manifests i) \<and> pm_Digest m \<in> set (pm_Children x)}"
    using snapshotD(6) [OF assms(1), of "pm_Digest m"] by blast
  moreover have "IndexParents i (pm_Digest m) = []" "\<forall>t \<in> set (pm_Tags m). \<not> ptg_Protected t \<and> \<not> ptg_Immutable t"
    using assms(3) by (auto simp: unguarded_def)
  ultimately show ?thesis unfolding snapshotD(1) [OF assms(1)] by auto
qed

lemma doomed_closed:
  assumes "snapshot ms i" "set cs \<subseteq> set (in_selectable i)" "m \<in> set ms" "pm_Subject m \<in> set (doomed i cs)"
  shows "pm_Digest m \<in> set (doomed i cs)"
proof -
  obtain c where c: "c \<in> set cs" "(attaches i)\<^sup>*\<^sup>* (pm_Digest c) (pm_Subject m)"
    using assms(4) unfolding doomed_iff [OF assms(1,2)] by blast
  have "pm_Digest c = pm_Subject m \<or> (attaches i)\<^sup>+\<^sup>+ (pm_Digest c) (pm_Subject m)" using rtranclpD [OF c(2)] by blast
  moreover have "live i (pm_Digest c)" by (rule selectable_rows(3) [OF assms(1) subsetD [OF assms(2) c(1)]])
  ultimately have live: "live i (pm_Subject m)" using reaches_live [OF _ assms(1)] by metis
  then have "pm_Subject m \<noteq> []" unfolding live_def using snapshotD(3) [OF assms(1)] by auto
  moreover have "Lookup i (pm_Digest m) = Some (cloned m)" unfolding row_of [OF assms(1)] using assms(3) by blast
  ultimately have "attaches i (pm_Subject m) (pm_Digest m)"
    unfolding attaches_iff [OF assms(1)] using live by simp
  then show ?thesis unfolding doomed_iff [OF assms(1,2)] using rtranclp.rtrancl_into_rtrancl [OF c(2)] c(1) by blast
qed

lemma doomed_unguarded:
  assumes "snapshot ms i" "d \<in> set (doomed i (chosen i verdicts))"
  obtains m where "m \<in> set ms" "pm_Digest m = d" "unguarded i (cloned m)"
proof -
  have sub: "set (chosen i verdicts) \<subseteq> set (in_selectable i)" by (auto simp: chosen_def)
  obtain c where c: "c \<in> set (chosen i verdicts)" "(attaches i)\<^sup>*\<^sup>* (pm_Digest c) d"
    using assms(2) unfolding doomed_iff [OF assms(1) sub] by blast
  note sel = selectable_rows [OF assms(1) subsetD [OF sub c(1)]]
  show ?thesis
  proof (cases "(attaches i)\<^sup>+\<^sup>+ (pm_Digest c) d")
    case True
    then have "d \<in> set (ReferrerSubtree i (pm_Digest c))" using ReferrerSubtree_eq(1) [OF assms(1) sel(3)] by blast
    moreover have "\<not> pinned i c" using c(1) by (simp add: chosen_def)
    ultimately have ex: "\<forall>e \<in> set (ExclusionsFor i d). ex_Reason e = ExcludedLiveSubject"
      unfolding pinned_def by (simp add: firstProtectedReferrer_None)
    have "live i d" using reaches_live [OF True assms(1)] by blast
    then obtain m where m: "m \<in> set ms" "pm_Digest m = d" using live_row [OF assms(1)] by blast
    then have "cloned m \<in> set (in_manifests i)" using snapshotD(1) [OF assms(1)] by simp
    then have "ExclusionsFor i d = reasons_of i (cloned m)" using snapshotD(8) [OF assms(1)] m(2) by (metis cloned_sel(1))
    then show ?thesis using that m ex reasons_unguarded by metis
  next
    case False
    then have "pm_Digest c = d" using rtranclpD [OF c(2)] by blast
    moreover obtain m where "m \<in> set ms" "c = cloned m" using sel(1) snapshotD(1) [OF assms(1)] by auto
    ultimately show ?thesis using that sel(4) by auto
  qed
qed

lemma doomed_origin:
  assumes "snapshot ms i" "set cs \<subseteq> set (in_selectable i)" "m \<in> set ms" "pm_Digest m \<in> set (doomed i cs)"
  shows "pm_Subject m \<in> set (doomed i cs) \<or> (\<exists>c \<in> set cs. c = cloned m)"
proof -
  obtain c where c: "c \<in> set cs" "(attaches i)\<^sup>*\<^sup>* (pm_Digest c) (pm_Digest m)"
    using assms(4) unfolding doomed_iff [OF assms(1,2)] by blast
  have row: "Lookup i (pm_Digest m) = Some (cloned m)" unfolding row_of [OF assms(1)] using assms(3) by blast
  from c(2) show ?thesis
  proof (cases rule: rtranclp.cases)
    case rtrancl_refl
    then have "Lookup i (pm_Digest m) = Some c" 
      using snapshotD(4) [OF assms(1)] selectable_rows(1) [OF assms(1)] c(1) assms(2) by auto
    then show ?thesis using row c(1) by auto
  next
    case (rtrancl_into_rtrancl y)
    then have "pm_Subject m = y" using attaches_iff [OF assms(1)] row by auto
    then show ?thesis using rtrancl_into_rtrancl c(1) unfolding doomed_iff [OF assms(1,2)] by blast
  qed
qed

lemma chosen_matched:
  assumes "\<forall>m \<in> set (in_selectable i). resolve (pm_Digest m) (opinions_about i rules now m) = Inr (verdict_of verdicts (pm_Digest m))"
    and "c \<in> set (chosen i verdicts)"
  shows "\<exists>r \<in> set rules. matches r c \<and> \<not> saves i now r c"
proof -
  have "c \<in> set (in_selectable i)" "condemned verdicts c" using assms(2) by (auto simp: chosen_def)
  then have "foremost rules c \<noteq> []" "\<forall>r \<in> set (foremost rules c). \<not> saves i now r c"
    using condemned_iff assms(1) by blast+
  then obtain r where "r \<in> set (foremost rules c)" "\<not> saves i now r c" by (cases "foremost rules c") auto
  then show ?thesis by (auto simp: foremost_def)
qed

lemma matches_cloned [simp]: "matches r (cloned m) \<longleftrightarrow> matches r m"
proof -
  have "Status (cloned m) = Status m" by (simp add: Status_def cloned_def sort_key_Nil_iff)
  then show ?thesis unfolding matches_def list_ex_iff Let_def cloned_sel(5) by (rule ssubst) (rule refl)
qed

lemma selectable_unattached:
  assumes "snapshot ms i" "m \<in> set ms" "cloned m \<in> set (in_selectable i)"
  shows "\<forall>x \<in> set ms. pm_Digest x \<noteq> pm_Subject m"
proof (rule ccontr)
  assume "\<not> (\<forall>x \<in> set ms. pm_Digest x \<noteq> pm_Subject m)"
  then have live: "live i (pm_Subject m)" using live_row [OF assms(1)] by auto
  then have "pm_Subject m \<noteq> []" unfolding live_def using snapshotD(3) [OF assms(1)] by auto
  moreover have "fmlookup (in_byDigest i) (pm_Subject m) \<noteq> None"
    using live live_Lookup [OF assms(1)] by (simp add: Lookup_def)
  ultimately have "reasons_of i (cloned m) \<noteq> []" by (simp add: reasons_of_def)
  then show False using selectable_rows(2) [OF assms(1,3)] by simp
qed

lemma doomed_distinct:
  assumes "snapshot ms i" "set cs \<subseteq> set (in_selectable i)" "distinct (map pm_Digest cs)"
  shows "distinct (doomed i cs)"
  unfolding doomed_def
proof (rule distinct_concat)
  let ?f = "\<lambda>m. pm_Digest m # ReferrerSubtree i (pm_Digest m)"
  have tree: "set (?f m) = {e. (attaches i)\<^sup>*\<^sup>* (pm_Digest m) e}" "distinct (?f m)" if "m \<in> set cs" for m
  proof -
    note sub = ReferrerSubtree_eq [OF assms(1) selectable_rows(3) [OF assms(1) subsetD [OF assms(2) that]]]
    show "distinct (?f m)" using sub by simp
    show "set (?f m) = {e. (attaches i)\<^sup>*\<^sup>* (pm_Digest m) e}"
      using sub(1) by (auto dest: rtranclpD intro: tranclp_into_rtranclp)
  qed
  have "map hd (map ?f cs) = map pm_Digest cs" by simp
  then show "distinct (map ?f cs)" using assms(3) by (metis distinct_map)
  fix ys
  assume ys: "ys \<in> set (map ?f cs)"
  then show "distinct ys" using tree(2) by auto
  fix zs
  assume zs: "zs \<in> set (map ?f cs)" "ys \<noteq> zs"
  show "set ys \<inter> set zs = {}"
  proof -
    obtain x z where xz: "x \<in> set cs" "ys = ?f x" "z \<in> set cs" "zs = ?f z" using ys zs(1) by auto
    then have "pm_Digest x \<noteq> pm_Digest z" using zs(2) by auto
    have sel: "x \<in> set (in_selectable i)" "z \<in> set (in_selectable i)" using xz assms(2) by blast+
    have "\<not> ((attaches i)\<^sup>*\<^sup>* (pm_Digest x) e \<and> (attaches i)\<^sup>*\<^sup>* (pm_Digest z) e)" for e
    proof
      assume e: "(attaches i)\<^sup>*\<^sup>* (pm_Digest x) e \<and> (attaches i)\<^sup>*\<^sup>* (pm_Digest z) e"
      have "(attaches i)\<^sup>+\<^sup>+ (pm_Digest x) (pm_Digest z) \<or> (attaches i)\<^sup>+\<^sup>+ (pm_Digest z) (pm_Digest x)"
        using rtranclpD [OF e [THEN conjunct1]] rtranclpD [OF e [THEN conjunct2]] \<open>pm_Digest x \<noteq> pm_Digest z\<close>
          attaches_linear [OF assms(1), of "pm_Digest x" e "pm_Digest z"] by metis
      then show False
        using no_way_into_root [OF assms(1) _ sel(1) refl] no_way_into_root [OF assms(1) _ sel(2) refl] by blast
    qed
    then show ?thesis unfolding xz(2,4) tree(1) [OF xz(1)] tree(1) [OF xz(3)] by blast
  qed
qed

lemma doomed_live:
  assumes "snapshot ms i" "set cs \<subseteq> set (in_selectable i)" "d \<in> set (doomed i cs)"
  shows "live i d"
proof -
  obtain c where c: "c \<in> set cs" "(attaches i)\<^sup>*\<^sup>* (pm_Digest c) d"
    using assms(3) unfolding doomed_iff [OF assms(1,2)] by blast
  have "live i (pm_Digest c)" by (rule selectable_rows(3) [OF assms(1) subsetD [OF assms(2) c(1)]])
  then show ?thesis using rtranclpD [OF c(2)] reaches_live [OF _ assms(1), of "pm_Digest c" d] by metis
qed

lemma Summary_Manifests:
  "su_Manifests (Summary_of p) = length (Digests p @ map be_Digest (pl_Blocked p) @ map ke_Digest (pl_Kept p))"
proof -
  have len: "length (concat (map (\<lambda>e. en_Digest e # map rf_Digest (en_Referrers e)) es)) =
      length es + sum_list (map (\<lambda>e. length (en_Referrers e)) es)" for es
    by (induction es) simp_all
  show ?thesis unfolding Digests_def length_append length_sort len by (simp add: Summary_of_def Let_def)
qed

lemma distinct_parts:
  "distinct D \<Longrightarrow> distinct B \<Longrightarrow> set D \<inter> set B = {} \<Longrightarrow> distinct (map f M) \<Longrightarrow>
    distinct (sort D @ B @ map f (filter (\<lambda>m. f m \<notin> set D \<and> f m \<notin> set B) M))"
  by (auto simp: distinct_map_filter)

lemma buildPlan_partition:
  assumes "snapshot ms i" and p_def: "p = buildPlan i verdicts now"
  shows "distinct (Digests p @ map be_Digest (pl_Blocked p) @ map ke_Digest (pl_Kept p))"
    "set (Digests p @ map be_Digest (pl_Blocked p) @ map ke_Digest (pl_Kept p)) = pm_Digest ` set (in_manifests i)"
proof -
  let ?C = "chosen i verdicts" and ?B = "filter (\<lambda>m. condemned verdicts m \<and> pinned i m) (in_selectable i)"
  have sub: "set ?C \<subseteq> set (in_selectable i)" "set ?B \<subseteq> set (in_selectable i)" by (auto simp: chosen_def)
  have dist: "distinct (map pm_Digest (in_selectable i))"
    unfolding snapshotD(7) [OF assms(1)] by (rule distinct_map_filter [OF snapshot_distinct [OF assms(1)]])
  then have dd: "distinct (doomed i ?C)"
    by (intro doomed_distinct [OF assms(1) sub(1)]) (simp add: chosen_def distinct_map_filter)
  have eqs: "Digests p = sort (doomed i ?C)" "map be_Digest (pl_Blocked p) = map pm_Digest ?B"
    "map ke_Digest (pl_Kept p) = map pm_Digest (filter (\<lambda>m. pm_Digest m \<notin> set (doomed i ?C) \<and>
       pm_Digest m \<notin> set (map pm_Digest ?B)) (in_manifests i))"
    unfolding p_def buildPlan_Kept buildPlan_Blocked buildPlan_Digests by (simp_all add: comp_def)
  have apart: "pm_Digest b \<notin> set (doomed i ?C)" if b: "b \<in> set ?B" for b
  proof
    assume "pm_Digest b \<in> set (doomed i ?C)"
    then obtain c where c: "c \<in> set ?C" "(attaches i)\<^sup>*\<^sup>* (pm_Digest c) (pm_Digest b)"
      unfolding doomed_iff [OF assms(1) sub(1)] by blast
    then have "pm_Digest c = pm_Digest b"
      using rtranclpD [OF c(2)] no_way_into_root [OF assms(1) _ subsetD [OF sub(2) b] refl] by blast
    then have "c = b" using selectable_unique [OF assms(1) subsetD [OF sub(1) c(1)] subsetD [OF sub(2) b]] by blast
    then show False using c(1) b by (simp add: chosen_def)
  qed
  show "distinct (Digests p @ map be_Digest (pl_Blocked p) @ map ke_Digest (pl_Kept p))"
    unfolding eqs
  proof (rule distinct_parts)
    show "distinct (map pm_Digest ?B)" using dist by (rule distinct_map_filter)
    show "set (doomed i ?C) \<inter> set (map pm_Digest ?B) = {}" using apart by auto
  qed (rule dd, rule snapshot_distinct [OF assms(1)])
  have "live i d \<longleftrightarrow> d \<in> pm_Digest ` set (in_manifests i)" for d by (auto simp: live_def)
  then show "set (Digests p @ map be_Digest (pl_Blocked p) @ map ke_Digest (pl_Kept p)) = pm_Digest ` set (in_manifests i)"
    unfolding eqs using doomed_live [OF assms(1) sub(1)] selectable_rows(1) [OF assms(1)] by auto
qed

section \<open>A repository\<close>

text \<open>An image with a signature, an untagged leftover, a protected release, and an index with its child.\<close>

definition sample_row :: "string \<Rightarrow> policy_Tag list \<Rightarrow> gotime \<Rightarrow> string list \<Rightarrow> string \<Rightarrow> policy_Manifest" where
  "sample_row d tags pushed children subject =
    \<lparr>pm_Digest = d, pm_Tags = tags, pm_PushedAt = pushed, pm_LastPulledAt = 0, pm_PullCount = 0, pm_Size = 1,
     pm_Children = children, pm_Subject = subject\<rparr>"

definition sample_rows :: "policy_Manifest list" where
  "sample_rows =
    [sample_row ''img'' [\<lparr>ptg_Name = ''v1'', ptg_Protected = False, ptg_Immutable = False\<rparr>] 10 [] [],
     sample_row ''sig'' [] 11 [] ''img'',
     sample_row ''old'' [] 5 [] [],
     sample_row ''rel'' [\<lparr>ptg_Name = ''v2'', ptg_Protected = True, ptg_Immutable = False\<rparr>] 9 [] [],
     sample_row ''idx'' [\<lparr>ptg_Name = ''v3'', ptg_Protected = False, ptg_Immutable = False\<rparr>] 90 [''kid''] [],
     sample_row ''kid'' [] 8 [] []]"

definition sample_rules :: "Rule list" where
  "sample_rules =
    [\<lparr>ru_Name = ''recent'', ru_Priority = 1, ru_Kind = KeepNewerThan, ru_N = 0, ru_Age = 20,
      ru_TagStatus = AnyTags, ru_IncludeTags = [], ru_ExcludeTags = []\<rparr>,
     \<lparr>ru_Name = ''untagged'', ru_Priority = 2, ru_Kind = SelectMatched, ru_N = 0, ru_Age = 0,
      ru_TagStatus = Untagged, ru_IncludeTags = [], ru_ExcludeTags = []\<rparr>]"

definition sample_set :: RuleSet where
  "sample_set = map (\<lambda>r. \<lparr>cl_Rule = r, cl_include = [], cl_exclude = []\<rparr>) sample_rules"

lemma sample_plan:
  "case NewInventory ''lib/app'' sample_rows of
     Inl _ \<Rightarrow> False
   | Inr i \<Rightarrow>
       (case Evaluate (Some i) sample_set 100 of Inl _ \<Rightarrow> False | Inr p \<Rightarrow>
         Digests p = [''img'', ''old'', ''sig''] \<and> list_ex (\<lambda>m. pm_Digest m = ''img'') (Selectable i))"
  by code_simp

lemma sample_evaluation:
  obtains i p where "NewInventory ''lib/app'' sample_rows = Inr i" "Evaluate (Some i) sample_set 100 = Inr p"
    "Digests p = [''img'', ''old'', ''sig'']" "\<exists>m \<in> set (Selectable i). pm_Digest m = ''img''"
  using sample_plan by (auto simp: list_ex_iff split: sum.splits)

lemma sample_compiles: "CompileRules (\<lambda>_. None) sample_rules = Inr sample_set"
  by (simp add: CompileRules_def sample_rules_def sample_set_def Valid_kind_def Valid_status_def validateKindFields_def Let_def)

section \<open>What a plan promises\<close>

text \<open>C4: No plan deletes what is protected, whatever the rules. Every digest a plan deletes names a row of
  the snapshot that carries no protected and no immutable tag and that no manifest of the repository lists as a
  child. Either its subject is deleted by the same plan, or it is attached to nothing in the repository and some
  rule matches it without saving it. And the plan is closed under attachment: whatever is attached to a deleted
  manifest is deleted with it, and is listed.\<close>

theorem retention_plan_is_safe:
  assumes "NewInventory repository ms = Inr i" "Evaluate (Some i) rules now = Inr p"
  shows "(\<forall>d \<in> set (Digests p). \<exists>m \<in> set ms. pm_Digest m = d \<and>
      (\<forall>t \<in> set (pm_Tags m). \<not> ptg_Protected t \<and> \<not> ptg_Immutable t) \<and>
      (\<forall>x \<in> set ms. d \<notin> set (pm_Children x)) \<and>
      (pm_Subject m \<in> set (Digests p) \<or>
       (\<forall>x \<in> set ms. pm_Digest x \<noteq> pm_Subject m) \<and> (\<exists>r \<in> set rules. matches r m \<and> \<not> saves i now r m))) \<and>
    (\<forall>m \<in> set ms. pm_Subject m \<in> set (Digests p) \<longrightarrow> pm_Digest m \<in> set (Digests p))"
proof -
  have snap: "snapshot ms i" using NewInventory_snapshot [OF assms(1)] by blast
  obtain verdicts where p: "p = buildPlan i verdicts now"
    "\<forall>m \<in> set (in_selectable i). resolve (pm_Digest m) (opinions_about i rules now m) = Inr (verdict_of verdicts (pm_Digest m))"
    by (rule Evaluate_Inr [OF assms])
  let ?D = "doomed i (chosen i verdicts)"
  have sub: "set (chosen i verdicts) \<subseteq> set (in_selectable i)" by (auto simp: chosen_def)
  have D: "set (Digests p) = set ?D" by (simp add: p(1) buildPlan_Digests)
  have origin: "(\<forall>x \<in> set ms. pm_Digest x \<noteq> pm_Subject m) \<and> (\<exists>r \<in> set rules. matches r m \<and> \<not> saves i now r m)"
    if m: "m \<in> set ms" "pm_Digest m \<in> set ?D" "pm_Subject m \<notin> set ?D" for m
  proof
    have c: "cloned m \<in> set (chosen i verdicts)" using doomed_origin [OF snap sub m(1,2)] m(3) by blast
    show "\<exists>r \<in> set rules. matches r m \<and> \<not> saves i now r m"
      using chosen_matched [OF p(2) c] by (simp add: saves_def)
    show "\<forall>x \<in> set ms. pm_Digest x \<noteq> pm_Subject m" by (rule selectable_unattached [OF snap m(1) subsetD [OF sub c]])
  qed
  show ?thesis unfolding D
  proof (intro conjI ballI impI)
    fix d
    assume d: "d \<in> set ?D"
    obtain m where m: "m \<in> set ms" "pm_Digest m = d" "unguarded i (cloned m)" by (rule doomed_unguarded [OF snap d])
    show "\<exists>m \<in> set ms. pm_Digest m = d \<and> (\<forall>t \<in> set (pm_Tags m). \<not> ptg_Protected t \<and> \<not> ptg_Immutable t) \<and>
        (\<forall>x \<in> set ms. d \<notin> set (pm_Children x)) \<and>
        (pm_Subject m \<in> set ?D \<or>
         (\<forall>x \<in> set ms. pm_Digest x \<noteq> pm_Subject m) \<and> (\<exists>r \<in> set rules. matches r m \<and> \<not> saves i now r m))"
      using m unguarded_row [OF snap m(1,3)] origin [OF m(1)] d by blast
  next
    fix m
    assume "m \<in> set ms" "pm_Subject m \<in> set ?D"
    then show "pm_Digest m \<in> set ?D" by (rule doomed_closed [OF snap sub])
  qed
qed

theorem retention_plan_is_safe_witness:
  "\<exists>i p. NewInventory ''lib/app'' sample_rows = Inr i \<and> Evaluate (Some i) sample_set 100 = Inr p \<and>
    ''img'' \<in> set (Digests p) \<and> ''sig'' \<in> set (Digests p)"
proof -
  obtain i p where s: "NewInventory ''lib/app'' sample_rows = Inr i" "Evaluate (Some i) sample_set 100 = Inr p"
    "Digests p = [''img'', ''old'', ''sig'']" "\<exists>m \<in> set (Selectable i). pm_Digest m = ''img''" by (rule sample_evaluation)
  have sig: "sample_row ''sig'' [] 11 [] ''img'' \<in> set sample_rows" by (simp add: sample_rows_def)
  have "''img'' \<in> set (Digests p)" using s(3) by simp
  then have "''sig'' \<in> set (Digests p)"
    using retention_plan_is_safe [OF s(1,2), THEN conjunct2, rule_format, OF sig] by (simp add: sample_row_def)
  with s show ?thesis by auto
qed

text \<open>C5: The strongest matching rules decide. Evaluation of a snapshot fails with a conflict exactly when, for
  some selectable manifest, one of the rules that decide it saves it and another does not. Otherwise it gives a
  plan that deletes, or refuses to delete for the sake of an attachment, exactly the selectable manifests that
  some rule matches and that no deciding rule saves; a manifest no rule matches is never among them.\<close>

theorem strongest_rules_decide:
  assumes "NewInventory repository ms = Inr i" "now \<noteq> 0"
  shows "((\<exists>cs. Evaluate (Some i) rules now = Inl (ConflictError cs)) \<longleftrightarrow>
      (\<exists>m \<in> set (Selectable i). \<exists>r \<in> set (foremost rules m). \<exists>q \<in> set (foremost rules m).
        saves i now r m \<and> \<not> saves i now q m)) \<and>
    ((\<nexists>cs. Evaluate (Some i) rules now = Inl (ConflictError cs)) \<longrightarrow>
      (\<exists>p. Evaluate (Some i) rules now = Inr p \<and>
        (\<forall>m \<in> set (Selectable i).
          pm_Digest m \<in> set (Digests p) \<union> be_Digest ` set (pl_Blocked p) \<longleftrightarrow>
          foremost rules m \<noteq> [] \<and> (\<forall>r \<in> set (foremost rules m). \<not> saves i now r m))))"
proof (rule Evaluate_cases [OF assms, of rules])
  fix cs m
  assume c: "Evaluate (Some i) rules now = Inl (ConflictError cs)" "m \<in> set (in_selectable i)"
    "\<exists>c. resolve (pm_Digest m) (opinions_about i rules now m) = Inl c"
  then have "\<exists>m \<in> set (Selectable i). \<exists>r \<in> set (foremost rules m). \<exists>q \<in> set (foremost rules m).
      saves i now r m \<and> \<not> saves i now q m"
    unfolding dispute_iff Selectable_def by blast
  then show ?thesis using c(1) by simp
next
  fix verdicts
  assume v: "Evaluate (Some i) rules now = Inr (buildPlan i verdicts now)"
    "\<forall>m \<in> set (in_selectable i). resolve (pm_Digest m) (opinions_about i rules now m) = Inr (verdict_of verdicts (pm_Digest m))"
  have snap: "snapshot ms i" using NewInventory_snapshot [OF assms(1)] by blast
  have agree: "\<not> (saves i now r m \<and> \<not> saves i now q m)"
    if "m \<in> set (in_selectable i)" "r \<in> set (foremost rules m)" "q \<in> set (foremost rules m)" for m r q
  proof -
    have "\<nexists>c. resolve (pm_Digest m) (opinions_about i rules now m) = Inl c" using v(2) that(1) by simp
    then show ?thesis using that(2,3) unfolding dispute_iff by blast
  qed
  have "pm_Digest m \<in> set (Digests (buildPlan i verdicts now)) \<union> be_Digest ` set (pl_Blocked (buildPlan i verdicts now)) \<longleftrightarrow>
      foremost rules m \<noteq> [] \<and> (\<forall>r \<in> set (foremost rules m). \<not> saves i now r m)" if m: "m \<in> set (in_selectable i)" for m
    unfolding plan_accounts [OF snap m] by (rule condemned_iff [OF v(2) [rule_format, OF m]])
  moreover have "\<not> (\<exists>m \<in> set (Selectable i). \<exists>r \<in> set (foremost rules m). \<exists>q \<in> set (foremost rules m).
      saves i now r m \<and> \<not> saves i now q m)"
    using agree unfolding Selectable_def by blast
  ultimately show ?thesis using v(1) unfolding Selectable_def by simp
qed

theorem strongest_rules_decide_witness:
  "\<exists>i p m. NewInventory ''lib/app'' sample_rows = Inr i \<and> Evaluate (Some i) sample_set 100 = Inr p \<and>
    pm_Digest m = ''img'' \<and> foremost sample_set m \<noteq> []"
proof -
  obtain i p where s: "NewInventory ''lib/app'' sample_rows = Inr i" "Evaluate (Some i) sample_set 100 = Inr p"
    "Digests p = [''img'', ''old'', ''sig'']" "\<exists>m \<in> set (Selectable i). pm_Digest m = ''img''" by (rule sample_evaluation)
  obtain m where m: "m \<in> set (Selectable i)" "pm_Digest m = ''img''" using s(4) by blast
  have "(100 :: int) \<noteq> 0" by simp
  from strongest_rules_decide [OF s(1) this, of sample_set, THEN conjunct2] s(2)
  obtain p' where p': "Evaluate (Some i) sample_set 100 = Inr p'" "\<forall>m \<in> set (Selectable i).
      pm_Digest m \<in> set (Digests p') \<union> be_Digest ` set (pl_Blocked p') \<longleftrightarrow>
      foremost sample_set m \<noteq> [] \<and> (\<forall>r \<in> set (foremost sample_set m). \<not> saves i 100 r m)" by auto
  have "foremost sample_set m \<noteq> []" using p'(2) [rule_format, OF m(1)] p'(1) s(2,3) m(2) by simp
  with s(1,2) m(2) show ?thesis by blast
qed

text \<open>C19: A plan accounts for every manifest exactly once. The digests it deletes, those it refuses to delete
  and those it keeps are pairwise different, together they are the digests of the snapshot's rows, and the count
  the summary reports is the number of rows.\<close>

theorem plan_partitions_the_snapshot:
  assumes "NewInventory repository ms = Inr i" "Evaluate (Some i) rules now = Inr p"
  shows "distinct (Digests p @ map be_Digest (pl_Blocked p) @ map ke_Digest (pl_Kept p)) \<and>
    set (Digests p @ map be_Digest (pl_Blocked p) @ map ke_Digest (pl_Kept p)) = pm_Digest ` set ms \<and>
    su_Manifests (Summary_of p) = length ms"
proof -
  have snap: "snapshot ms i" using NewInventory_snapshot [OF assms(1)] by blast
  obtain verdicts where p: "p = buildPlan i verdicts now" by (rule Evaluate_Inr [OF assms])
  note part = buildPlan_partition [OF snap p]
  have rows: "pm_Digest ` set (in_manifests i) = pm_Digest ` set ms" "length (in_manifests i) = length ms"
    unfolding snapshotD(1) [OF snap] by (simp_all add: image_image)
  have "su_Manifests (Summary_of p) = card (pm_Digest ` set (in_manifests i))"
    unfolding Summary_Manifests part(2) [symmetric] by (rule distinct_card [OF part(1), symmetric])
  also have "\<dots> = length ms"
    using distinct_card [OF snapshot_distinct [OF snap]] rows(2) by simp
  finally show ?thesis using part rows(1) by simp
qed

theorem plan_partitions_the_snapshot_witness:
  "\<exists>i p. NewInventory ''lib/app'' sample_rows = Inr i \<and> Evaluate (Some i) sample_set 100 = Inr p \<and>
    su_Manifests (Summary_of p) = 6"
proof -
  obtain i p where s: "NewInventory ''lib/app'' sample_rows = Inr i" "Evaluate (Some i) sample_set 100 = Inr p"
    "Digests p = [''img'', ''old'', ''sig'']" "\<exists>m \<in> set (Selectable i). pm_Digest m = ''img''" by (rule sample_evaluation)
  have "length sample_rows = 6" by (simp add: sample_rows_def)
  with plan_partitions_the_snapshot [OF s(1,2)] s show ?thesis by auto
qed

text \<open>C20: The order in which a policy lists its rules decides nothing. When a list of rules compiles, so does
  every rearrangement of it, and evaluating either gives the same plan, or the same conflicts, over every
  snapshot at every time.\<close>

theorem rule_order_is_immaterial:
  assumes "NewInventory repository ms = Inr i"
    and "CompileRules compile rules = Inr compiled" "mset rules' = mset rules"
  shows "\<exists>compiled'. CompileRules compile rules' = Inr compiled' \<and>
    Evaluate (Some i) compiled' now = Evaluate (Some i) compiled now"
proof -
  obtain compiled' where c: "CompileRules compile rules' = Inr compiled'" "mset compiled' = mset compiled"
    by (rule compile_permuted [OF assms(2,3)])
  have names: "distinct (map (\<lambda>c. ru_Name (cl_Rule c)) compiled)" 
    using assms(2) compiles_names unfolding CompileRules_Inr by metis
  have dist: "distinct (map pm_Digest (in_selectable i))" by (rule selectable_distinct [OF assms(1)])
  let ?sel = "in_selectable i"
  let ?ops = "\<lambda>m cs. map (opinion_of ?sel now m) (filter (\<lambda>r. matches r m) cs)"
  have "resolve (pm_Digest m) (?ops m compiled') = resolve (pm_Digest m) (?ops m compiled)" for m
  proof (rule resolve_mset [symmetric])
    show "mset (?ops m compiled) = mset (?ops m compiled')" using c(2) by simp
    show "distinct (map op_rule (?ops m compiled))" using names by (simp add: comp_def distinct_map_filter)
  qed
  then have "resolve_all (fold (add_opinions ?sel now) compiled' fmempty) ?sel =
      resolve_all (fold (add_opinions ?sel now) compiled fmempty) ?sel"
    by (intro resolve_all_cong) (simp add: opinions_eq [OF dist])
  then show ?thesis using c(1) by (simp add: Evaluate_def Let_def)
qed

theorem rule_order_is_immaterial_witness:
  "\<exists>i compiled'. NewInventory ''lib/app'' sample_rows = Inr i \<and>
    CompileRules (\<lambda>_. None) (rev sample_rules) = Inr compiled' \<and>
    Evaluate (Some i) compiled' 100 = Evaluate (Some i) sample_set 100"
proof -
  obtain i p where s: "NewInventory ''lib/app'' sample_rows = Inr i" "Evaluate (Some i) sample_set 100 = Inr p"
    "Digests p = [''img'', ''old'', ''sig'']" "\<exists>m \<in> set (Selectable i). pm_Digest m = ''img''" by (rule sample_evaluation)
  from rule_order_is_immaterial [OF s(1) sample_compiles, of "rev sample_rules" 100] s(1) show ?thesis by auto
qed

end
