(* ===== verification/Repo_Group.thy ===== *)
theory Repo_Group
  imports Authz Meta_Types "HOL-Library.Word"
begin

text \<open>
  \<^verbatim>\<open>internal/repo/group.go\<close>, \<^verbatim>\<open>group_filter.go\<close> and \<^verbatim>\<open>routing_rules.go\<close>: what a group does with the answers of
  its members, which members a subject may see, and which remainders a proxy may serve.

  An outcome is the \<^verbatim>\<open>uint8\<close> it is in the source, so a value outside the enumeration can be presented.
\<close>

section \<open>Member outcomes\<close>

type_synonym MemberOutcome = "8 word"

abbreviation MemberUnasked :: MemberOutcome where "MemberUnasked \<equiv> 0"
abbreviation MemberServed :: MemberOutcome where "MemberServed \<equiv> 1"
abbreviation MemberNotFound :: MemberOutcome where "MemberNotFound \<equiv> 2"
abbreviation MemberDown :: MemberOutcome where "MemberDown \<equiv> 3"
abbreviation MemberMalformed :: MemberOutcome where "MemberMalformed \<equiv> 4"

record MemberState =
  me_Repository :: string
  me_Content :: string
  me_Type :: string
  me_Position :: int
  me_Required :: bool
  me_Outcome :: MemberOutcome

abbreviation SkippedDown :: string where "SkippedDown \<equiv> ''down''"
abbreviation SkippedMalformed :: string where "SkippedMalformed \<equiv> ''malformed''"

record SkippedMember =
  sk_Repository :: string
  sk_Position :: int
  sk_Reason :: string

datatype GroupOutcome = GroupInvalid | GroupServed | GroupNotFound | GroupUnavailable

datatype group_reason = BadEntityName name_error | NestedGroup | UnknownType string | ListedTwice
  | PositionTaken int | NotAsked MemberOutcome

record GroupError =
  ge_Member :: string
  ge_Reason :: group_reason

record Resolution =
  rs_Outcome :: GroupOutcome
  rs_Reference :: string
  rs_Member :: string
  rs_Position :: int
  rs_Reason :: string
  rs_Skipped :: "SkippedMember list"
  rs_Err :: "GroupError option"

section \<open>Resolution\<close>

fun order_check :: "string list \<Rightarrow> int list \<Rightarrow> MemberState list \<Rightarrow> GroupError option" where
  "order_check seenName seenPosition [] = None"
| "order_check seenName seenPosition (member # members) =
    (let fail = (\<lambda>reason. Some \<lparr>ge_Member = me_Repository member, ge_Reason = reason\<rparr>) in
     case ValidateEntityName (me_Repository member) of
       Some e \<Rightarrow> fail (BadEntityName e)
     | None \<Rightarrow>
         if me_Type member = Group then fail NestedGroup
         else if me_Type member \<noteq> Hosted \<and> me_Type member \<noteq> Proxy then fail (UnknownType (me_Type member))
         else if me_Repository member \<in> set seenName then fail ListedTwice
         else if me_Position member \<in> set seenPosition then fail (PositionTaken (me_Position member))
         else order_check (me_Repository member # seenName) (me_Position member # seenPosition) members)"

definition orderMembers :: "MemberState list \<Rightarrow> GroupError + MemberState list" where
  "orderMembers members =
    (case order_check [] [] members of
       Some e \<Rightarrow> Inl e
     | None \<Rightarrow> Inr (sort_key me_Position members))"

fun resolve_loop :: "MemberState list \<Rightarrow> Resolution \<Rightarrow> Resolution" where
  "resolve_loop [] resolution = resolution\<lparr>rs_Outcome := GroupNotFound\<rparr>"
| "resolve_loop (member # members) resolution =
    (if me_Outcome member = MemberServed then
       resolution\<lparr>rs_Outcome := GroupServed, rs_Member := me_Repository member, rs_Position := me_Position member\<rparr>
     else if me_Outcome member = MemberNotFound then resolve_loop members resolution
     else if me_Outcome member = MemberDown \<or> me_Outcome member = MemberMalformed then
       (let reason = (if me_Outcome member = MemberMalformed then SkippedMalformed else SkippedDown) in
        if me_Required member then
          resolution\<lparr>rs_Outcome := GroupUnavailable, rs_Member := me_Repository member,
                     rs_Position := me_Position member, rs_Reason := reason\<rparr>
        else resolve_loop members (resolution\<lparr>rs_Skipped := rs_Skipped resolution @
               [\<lparr>sk_Repository = me_Repository member, sk_Position = me_Position member, sk_Reason = reason\<rparr>]\<rparr>))
     else resolution\<lparr>rs_Skipped := [], rs_Err := Some
            \<lparr>ge_Member = me_Repository member, ge_Reason = NotAsked (me_Outcome member)\<rparr>\<rparr>)"

type_synonym MemberSet = "MemberState list"

definition Resolve :: "MemberSet \<Rightarrow> string \<Rightarrow> Resolution" where
  "Resolve members reference =
    (let resolution = \<lparr>rs_Outcome = GroupInvalid, rs_Reference = reference, rs_Member = [], rs_Position = 0,
           rs_Reason = [], rs_Skipped = [], rs_Err = None\<rparr>
     in case orderMembers members of
          Inl e \<Rightarrow> resolution\<lparr>rs_Err := Some e\<rparr>
        | Inr ordered \<Rightarrow> resolve_loop ordered resolution)"

section \<open>Filtering\<close>

definition AllMembers :: "MemberState list \<Rightarrow> MemberSet" where "AllMembers members = members"

definition readable :: "Binding list \<Rightarrow> MemberState \<Rightarrow> bool" where
  "readable bindings member =
    (case Repository (me_Content member) of
       Inl _ \<Rightarrow> False
     | Inr resource \<Rightarrow> Allows bindings RepoRead resource)"

definition VisibleMembers :: "MemberState list \<Rightarrow> Binding list \<Rightarrow> MemberSet" where
  "VisibleMembers members bindings = filter (readable bindings) members"

definition Members_of :: "MemberSet \<Rightarrow> MemberState list" where "Members_of s = s"

definition Len_members :: "MemberSet \<Rightarrow> nat" where "Len_members s = length s"

definition With :: "MemberSet \<Rightarrow> (string, MemberOutcome) fmap \<Rightarrow> MemberSet" where
  "With s outcomes =
    map (\<lambda>member. case fmlookup outcomes (me_Repository member) of
           None \<Rightarrow> member
         | Some outcome \<Rightarrow> member\<lparr>me_Outcome := outcome\<rparr>) s"

section \<open>Routing rules\<close>

abbreviation RoutedByBlock :: string where "RoutedByBlock \<equiv> ''blocked by rule''"
abbreviation RoutedByAllow :: string where "RoutedByAllow \<equiv> ''allowed by rule''"
abbreviation RoutedByDefaultAllow :: string where "RoutedByDefaultAllow \<equiv> ''allowed by default''"
abbreviation RoutedByDefaultDeny :: string where "RoutedByDefaultDeny \<equiv> ''denied by default''"

record RoutingDecision =
  rd_Allowed :: bool
  rd_Reason :: string
  rd_Pattern :: Scope
  rd_Remainder :: string

record RoutingRules =
  rr_allow :: "Scope list"
  rr_block :: "Scope list"
  rr_defaultDeny :: bool

datatype config_error = ConfigError string

record ProxyConfig =
  px_Upstream :: string
  px_DefaultNamespace :: string
  px_Allow :: "string list"
  px_Block :: "string list"
  px_DefaultDeny :: bool
  px_TrustedHosts :: "string list"
  px_TagTTL :: string
  px_NegativeTTL :: string
  px_OfflineMode :: string

fun compile_scopes :: "string \<Rightarrow> string list \<Rightarrow> config_error + Scope list" where
  "compile_scopes field [] = Inr []"
| "compile_scopes field (p # ps) =
    (case ParseScope p of
       Inl _ \<Rightarrow> Inl (ConfigError field)
     | Inr scope \<Rightarrow>
         if scope = SystemScope then Inl (ConfigError field)
         else (case compile_scopes field ps of
                 Inl e \<Rightarrow> Inl e
               | Inr scopes \<Rightarrow> Inr (scope # scopes)))"

definition CompileRoutingRules :: "ProxyConfig \<Rightarrow> config_error + RoutingRules" where
  "CompileRoutingRules cfg =
    (case compile_scopes ''allow'' (px_Allow cfg) of
       Inl e \<Rightarrow> Inl e
     | Inr allowed \<Rightarrow>
         (case compile_scopes ''block'' (px_Block cfg) of
            Inl e \<Rightarrow> Inl e
          | Inr blocked \<Rightarrow> Inr \<lparr>rr_allow = allowed, rr_block = blocked, rr_defaultDeny = px_DefaultDeny cfg\<rparr>))"

definition DefaultDeny :: "RoutingRules \<Rightarrow> bool" where "DefaultDeny r = rr_defaultDeny r"

definition Evaluate_routing :: "RoutingRules \<Rightarrow> string \<Rightarrow> name_error + RoutingDecision" where
  "Evaluate_routing r remainder =
    (case Repository remainder of
       Inl e \<Rightarrow> Inl e
     | Inr resource \<Rightarrow> Inr
         (case find (\<lambda>p. Scope_Matches p resource) (rr_block r) of
            Some p \<Rightarrow> \<lparr>rd_Allowed = False, rd_Reason = RoutedByBlock, rd_Pattern = p, rd_Remainder = remainder\<rparr>
          | None \<Rightarrow>
              (case find (\<lambda>p. Scope_Matches p resource) (rr_allow r) of
                 Some p \<Rightarrow> \<lparr>rd_Allowed = True, rd_Reason = RoutedByAllow, rd_Pattern = p, rd_Remainder = remainder\<rparr>
               | None \<Rightarrow>
                   if rr_defaultDeny r
                   then \<lparr>rd_Allowed = False, rd_Reason = RoutedByDefaultDeny, rd_Pattern = [], rd_Remainder = remainder\<rparr>
                   else \<lparr>rd_Allowed = True, rd_Reason = RoutedByDefaultAllow, rd_Pattern = [], rd_Remainder = remainder\<rparr>)))"

definition Writable :: "string \<Rightarrow> bool" where "Writable t \<longleftrightarrow> t = Hosted"

section \<open>What a resolution is\<close>

definition resolvable :: "MemberState list \<Rightarrow> bool" where
  "resolvable members \<longleftrightarrow>
    (\<forall>m \<in> set members. ValidateEntityName (me_Repository m) = None \<and> (me_Type m = Hosted \<or> me_Type m = Proxy)) \<and>
    distinct (map me_Repository members) \<and> distinct (map me_Position members)"

lemma order_check_None:
  "order_check names positions ms = None \<longleftrightarrow> resolvable ms \<and>
    set names \<inter> me_Repository ` set ms = {} \<and> set positions \<inter> me_Position ` set ms = {}"
proof (induction ms arbitrary: names positions)
  case (Cons m ms)
  then show ?case
    by (cases "ValidateEntityName (me_Repository m)") (auto simp: resolvable_def Let_def)
qed (simp add: resolvable_def)

lemma orderMembers_Inr: "orderMembers ms = Inr ordered \<longleftrightarrow> resolvable ms \<and> ordered = sort_key me_Position ms"
  using order_check_None [of "[]" "[]" ms] by (auto simp: orderMembers_def split: option.split)

text \<open>A member that is passed over, and one whose failure takes the group down.\<close>

definition could_not_answer :: "MemberState \<Rightarrow> bool" where
  "could_not_answer m \<longleftrightarrow> me_Outcome m = MemberDown \<or> me_Outcome m = MemberMalformed"

definition passes :: "MemberState \<Rightarrow> bool" where
  "passes m \<longleftrightarrow> me_Outcome m = MemberNotFound \<or> could_not_answer m \<and> \<not> me_Required m"

definition skip_of :: "MemberState \<Rightarrow> SkippedMember" where
  "skip_of m = \<lparr>sk_Repository = me_Repository m, sk_Position = me_Position m,
    sk_Reason = (if me_Outcome m = MemberMalformed then SkippedMalformed else SkippedDown)\<rparr>"

definition settle :: "MemberState list \<Rightarrow> Resolution \<Rightarrow> Resolution" where
  "settle ms r =
    (case dropWhile passes ms of
       [] \<Rightarrow> r\<lparr>rs_Outcome := GroupNotFound\<rparr>
     | m # _ \<Rightarrow>
         if me_Outcome m = MemberServed then
           r\<lparr>rs_Outcome := GroupServed, rs_Member := me_Repository m, rs_Position := me_Position m\<rparr>
         else if could_not_answer m then
           r\<lparr>rs_Outcome := GroupUnavailable, rs_Member := me_Repository m, rs_Position := me_Position m,
             rs_Reason := sk_Reason (skip_of m)\<rparr>
         else r\<lparr>rs_Skipped := [], rs_Err := Some \<lparr>ge_Member = me_Repository m, ge_Reason = NotAsked (me_Outcome m)\<rparr>\<rparr>)"

definition skips :: "MemberState list \<Rightarrow> SkippedMember list" where
  "skips ms = map skip_of (filter could_not_answer (takeWhile passes ms))"

lemma settle_pass: "passes m \<Longrightarrow> settle (m # ms) r = settle ms r"
  by (simp add: settle_def)

lemma skips_Cons:
  "skips (m # ms) = (if passes m then (if could_not_answer m then skip_of m # skips ms else skips ms) else [])"
  by (simp add: skips_def)

lemma resolve_loop_eq: "resolve_loop ms r = settle ms (r\<lparr>rs_Skipped := rs_Skipped r @ skips ms\<rparr>)"
proof (induction ms arbitrary: r)
  case (Cons m ms)
  consider "me_Outcome m = MemberServed" | "me_Outcome m = MemberNotFound" | "could_not_answer m" "me_Required m"
    | "could_not_answer m" "\<not> me_Required m"
    | "me_Outcome m \<noteq> MemberServed" "me_Outcome m \<noteq> MemberNotFound" "\<not> could_not_answer m" by blast
  then show ?case
  proof cases
    case 2
    then have "passes m" "\<not> could_not_answer m" by (simp_all add: passes_def could_not_answer_def)
    then show ?thesis using 2 Cons by (simp add: settle_pass skips_Cons)
  next
    case 4
    then have "passes m" by (simp add: passes_def)
    then show ?thesis using 4 Cons by (auto simp: settle_pass skips_Cons skip_of_def could_not_answer_def)
  qed (auto simp: settle_def skips_Cons passes_def could_not_answer_def skip_of_def)
qed (simp add: settle_def skips_def)

definition unresolved :: "string \<Rightarrow> Resolution" where
  "unresolved reference = \<lparr>rs_Outcome = GroupInvalid, rs_Reference = reference, rs_Member = [], rs_Position = 0,
     rs_Reason = [], rs_Skipped = [], rs_Err = None\<rparr>"

lemma Resolve_eq:
  assumes "resolvable ms"
  shows "Resolve ms reference =
    settle (sort_key me_Position ms) (unresolved reference\<lparr>rs_Skipped := skips (sort_key me_Position ms)\<rparr>)"
proof -
  have "orderMembers ms = Inr (sort_key me_Position ms)" using assms orderMembers_Inr by blast
  then show ?thesis by (simp add: Resolve_def Let_def resolve_loop_eq unresolved_def)
qed

lemma Resolve_invalid: "\<not> resolvable ms \<Longrightarrow> rs_Outcome (Resolve ms reference) = GroupInvalid \<and> rs_Skipped (Resolve ms reference) = []"
  using orderMembers_Inr [of ms] by (auto simp: Resolve_def Let_def split: sum.split)

text \<open>The decider of a list: the first member in position order that is not passed over.\<close>

definition decides :: "MemberState list \<Rightarrow> MemberState \<Rightarrow> bool" where
  "decides ms m \<longleftrightarrow> m \<in> set ms \<and> \<not> passes m \<and> (\<forall>k \<in> set ms. me_Position k < me_Position m \<longrightarrow> passes k)"

lemma dropWhile_decides:
  assumes "sorted_wrt (\<lambda>x y. me_Position x < me_Position y) ms"
  shows "(\<exists>rest. dropWhile P ms = m # rest) \<longleftrightarrow>
    m \<in> set ms \<and> \<not> P m \<and> (\<forall>k \<in> set ms. me_Position k < me_Position m \<longrightarrow> P k)"
  using assms
proof (induction ms)
  case (Cons x ms)
  show ?case
  proof (cases "P x")
    case True
    then show ?thesis using Cons by auto
  next
    case False
    have "\<forall>k \<in> set ms. me_Position x < me_Position k" using Cons.prems by simp
    with False show ?thesis by (auto dest: less_asym)
  qed
qed simp

lemma resolvable_sorted:
  assumes "resolvable ms"
  shows "sorted_wrt (\<lambda>x y. me_Position x < me_Position y) (sort_key me_Position ms)"
proof -
  have "distinct (map me_Position (sort_key me_Position ms))"
    using assms by (metis resolvable_def distinct_map mset_eq_imp_distinct_iff mset_map mset_sort)
  moreover have "sorted (map me_Position (sort_key me_Position ms))" by simp
  ultimately have "sorted_wrt (<) (map me_Position (sort_key me_Position ms))" using strict_sorted_iff by blast
  then show ?thesis by (simp add: sorted_wrt_map)
qed

lemma Resolve_cases:
  assumes "resolvable ms"
  obtains (all_pass) "\<forall>m \<in> set ms. passes m" "rs_Outcome (Resolve ms reference) = GroupNotFound"
    | (served) m where "decides ms m" "me_Outcome m = MemberServed"
        "rs_Outcome (Resolve ms reference) = GroupServed" "rs_Member (Resolve ms reference) = me_Repository m"
    | (failed) m where "decides ms m" "could_not_answer m" "me_Required m"
        "rs_Outcome (Resolve ms reference) = GroupUnavailable" "rs_Member (Resolve ms reference) = me_Repository m"
    | (unasked) m where "decides ms m" "me_Outcome m \<noteq> MemberServed" "\<not> could_not_answer m"
        "rs_Outcome (Resolve ms reference) = GroupInvalid" "rs_Skipped (Resolve ms reference) = []"
proof (cases "dropWhile passes (sort_key me_Position ms)")
  case Nil
  then have "\<forall>m \<in> set ms. passes m" by (metis dropWhile_eq_Nil_conv set_sort)
  then show ?thesis using all_pass Nil by (simp add: Resolve_eq [OF assms] settle_def)
next
  case (Cons m rest)
  have d: "decides ms m"
    unfolding decides_def using dropWhile_decides [OF resolvable_sorted [OF assms], of passes m] Cons by simp
  then have req: "could_not_answer m \<Longrightarrow> me_Required m" by (auto simp: decides_def passes_def)
  note eq = Resolve_eq [OF assms, of reference, unfolded settle_def Cons unresolved_def, simplified]
  consider "me_Outcome m = MemberServed" | "me_Outcome m \<noteq> MemberServed" "could_not_answer m"
    | "me_Outcome m \<noteq> MemberServed" "\<not> could_not_answer m" by blast
  then show ?thesis
  proof cases
    case 1
    then show ?thesis by (intro served [OF d]) (simp_all add: eq)
  next
    case 2
    then show ?thesis using req by (intro failed [OF d]) (simp_all add: eq)
  next
    case 3
    then show ?thesis by (intro unasked [OF d]) (simp_all add: eq)
  qed
qed

lemma decides_unique: "resolvable ms \<Longrightarrow> decides ms m \<Longrightarrow> decides ms k \<Longrightarrow> k = m"
  unfolding decides_def resolvable_def by (metis distinct_map inj_onD linorder_neqE_linordered_idom)

lemma resolvable_mset:
  assumes "mset ms' = mset ms" "resolvable ms"
  shows "resolvable ms'"
proof -
  have "distinct (map me_Repository ms')" "distinct (map me_Position ms')"
    using assms mset_eq_imp_distinct_iff [of "map me_Repository ms'" "map me_Repository ms"]
      mset_eq_imp_distinct_iff [of "map me_Position ms'" "map me_Position ms"] by (simp_all add: resolvable_def)
  then show ?thesis using assms(2) unfolding resolvable_def mset_eq_setD [OF assms(1)] by blast
qed

lemma resolvable_inj: "resolvable ms \<Longrightarrow> inj_on me_Repository (set ms)" "resolvable ms \<Longrightarrow> inj_on me_Position (set ms)"
  by (simp_all add: resolvable_def distinct_map)

lemma takeWhile_before:
  assumes "sorted_wrt (\<lambda>x y. me_Position x < me_Position y) ms" "dropWhile P ms = m # rest"
  shows "takeWhile P ms = filter (\<lambda>k. me_Position k < me_Position m) ms"
  using assms
proof (induction ms)
  case (Cons x ms)
  show ?case
  proof (cases "P x")
    case True
    then have "m \<in> set ms" using Cons.prems(2) set_dropWhileD [of m P ms] by simp
    then show ?thesis using True Cons by simp
  next
    case False
    then have "x = m" using Cons.prems(2) by simp
    moreover have "filter (\<lambda>k. me_Position k < me_Position x) ms = []"
      using Cons.prems(1) by (auto simp: filter_empty_conv)
    ultimately show ?thesis using False by simp
  qed
qed simp

text \<open>The list is checked in the order it is handed in, and the first member that makes it unfit is named.\<close>

lemma order_check_Some:
  "order_check names positions ms = Some e \<Longrightarrow>
    \<exists>i < length ms. order_check names positions (take i ms) = None \<and>
      order_check names positions (take (Suc i) ms) \<noteq> None \<and> ge_Member e = me_Repository (ms ! i)"
proof (induction ms arbitrary: names positions)
  case (Cons m ms)
  show ?case
  proof (cases "order_check names positions [m]")
    case None
    then have "order_check (me_Repository m # names) (me_Position m # positions) ms = Some e"
      using Cons.prems by (auto simp: Let_def split: option.splits if_splits)
    from Cons.IH [OF this] obtain i where "i < length ms"
      "order_check (me_Repository m # names) (me_Position m # positions) (take i ms) = None"
      "order_check (me_Repository m # names) (me_Position m # positions) (take (Suc i) ms) \<noteq> None"
      "ge_Member e = me_Repository (ms ! i)" by blast
    then show ?thesis using None
      by (intro exI [of _ "Suc i"]) (auto simp: Let_def split: option.splits if_splits)
  next
    case (Some f)
    then show ?thesis using Cons.prems
      by (intro exI [of _ 0]) (auto simp: Let_def split: option.splits if_splits)
  qed
qed simp

lemma Resolve_refused:
  assumes "\<not> resolvable ms"
  shows "\<exists>i e. i < length ms \<and> resolvable (take i ms) \<and> \<not> resolvable (take (Suc i) ms) \<and>
    ge_Member e = me_Repository (ms ! i) \<and> Resolve ms reference = unresolved reference\<lparr>rs_Err := Some e\<rparr>"
proof -
  note iff = order_check_None [of "[]" "[]", simplified]
  obtain e where e: "order_check [] [] ms = Some e" using assms iff [of ms] by (cases "order_check [] [] ms") auto
  from order_check_Some [OF e] obtain i where "i < length ms" "resolvable (take i ms)" "\<not> resolvable (take (Suc i) ms)"
    "ge_Member e = me_Repository (ms ! i)" unfolding iff not_None_eq [symmetric] by blast
  moreover have "Resolve ms reference = unresolved reference\<lparr>rs_Err := Some e\<rparr>"
    by (simp add: Resolve_def orderMembers_def e unresolved_def)
  ultimately show ?thesis by blast
qed

lemma Resolve_decided:
  assumes "resolvable ms"
  shows "if \<forall>m \<in> set ms. passes m then
      Resolve ms reference = unresolved reference\<lparr>rs_Outcome := GroupNotFound,
        rs_Skipped := map skip_of (filter could_not_answer (sort_key me_Position ms))\<rparr>
    else \<exists>m. decides ms m \<and> (\<forall>k. decides ms k \<longrightarrow> k = m) \<and> Resolve ms reference =
      (let before = map skip_of (filter (\<lambda>k. could_not_answer k \<and> me_Position k < me_Position m) (sort_key me_Position ms)) in
       if me_Outcome m = MemberServed then
         unresolved reference\<lparr>rs_Outcome := GroupServed, rs_Member := me_Repository m, rs_Position := me_Position m,
           rs_Skipped := before\<rparr>
       else if could_not_answer m then
         unresolved reference\<lparr>rs_Outcome := GroupUnavailable, rs_Member := me_Repository m,
           rs_Position := me_Position m, rs_Reason := sk_Reason (skip_of m), rs_Skipped := before\<rparr>
       else unresolved reference\<lparr>rs_Err := Some \<lparr>ge_Member = me_Repository m, ge_Reason = NotAsked (me_Outcome m)\<rparr>\<rparr>)"
proof (cases "dropWhile passes (sort_key me_Position ms)")
  case Nil
  then have all: "\<forall>m \<in> set ms. passes m" by (metis dropWhile_eq_Nil_conv set_sort)
  then have every: "takeWhile passes (sort_key me_Position ms) = sort_key me_Position ms"
    by (simp add: takeWhile_eq_all_conv)
  show ?thesis
    unfolding if_P [OF all] Resolve_eq [OF assms] settle_def skips_def Nil every by (simp add: unresolved_def)
next
  case (Cons m rest)
  note sorted = resolvable_sorted [OF assms]
  have d: "decides ms m" unfolding decides_def using dropWhile_decides [OF sorted, of passes m] Cons by simp
  then have some: "\<not> (\<forall>m \<in> set ms. passes m)" unfolding decides_def by blast
  have before: "skips (sort_key me_Position ms) =
      map skip_of (filter (\<lambda>k. could_not_answer k \<and> me_Position k < me_Position m) (sort_key me_Position ms))"
    by (simp add: skips_def takeWhile_before [OF sorted Cons] conj_commute)
  show ?thesis unfolding if_not_P [OF some] Resolve_eq [OF assms] before
    by (intro exI [of _ m] conjI allI impI d decides_unique [OF assms d])
      (simp_all add: settle_def Cons Let_def unresolved_def)
qed

text \<open>C18: A group answers from the first member, in position order, that is not passed over; a member is passed
  over when it does not have the reference, or could not answer and is not required. The list is refused, whatever
  the members answered, exactly when it is not a group's list (a member with a bad name, of a type that is neither
  hosted nor proxy, so that groups do not nest, or a repeated name or position), and the refusal names the first
  member that makes it so. Otherwise, when every member is passed over, nothing has the reference; else there is
  exactly one deciding member: when it serves, the group serves from it; when it is a required member that could
  not answer, the group is unavailable and says which and why; when nobody asked it, the resolution is invalid,
  with no skips, and says so of that member. The skips reported are, in position order, the members before the
  decider that could not answer. The order in which the members are handed in does not matter.\<close>

theorem group_resolution_exact:
  "(\<not> resolvable ms \<longrightarrow> (\<exists>i e. i < length ms \<and> resolvable (take i ms) \<and> \<not> resolvable (take (Suc i) ms) \<and>
      ge_Member e = me_Repository (ms ! i) \<and> Resolve ms reference = unresolved reference\<lparr>rs_Err := Some e\<rparr>)) \<and>
   (resolvable ms \<longrightarrow>
     (if \<forall>m \<in> set ms. passes m then
        Resolve ms reference = unresolved reference\<lparr>rs_Outcome := GroupNotFound,
          rs_Skipped := map skip_of (filter could_not_answer (sort_key me_Position ms))\<rparr>
      else \<exists>m. decides ms m \<and> (\<forall>k. decides ms k \<longrightarrow> k = m) \<and> Resolve ms reference =
        (let before = map skip_of (filter (\<lambda>k. could_not_answer k \<and> me_Position k < me_Position m) (sort_key me_Position ms)) in
         if me_Outcome m = MemberServed then
           unresolved reference\<lparr>rs_Outcome := GroupServed, rs_Member := me_Repository m, rs_Position := me_Position m,
             rs_Skipped := before\<rparr>
         else if could_not_answer m then
           unresolved reference\<lparr>rs_Outcome := GroupUnavailable, rs_Member := me_Repository m,
             rs_Position := me_Position m, rs_Reason := sk_Reason (skip_of m), rs_Skipped := before\<rparr>
         else unresolved reference\<lparr>rs_Err := Some \<lparr>ge_Member = me_Repository m, ge_Reason = NotAsked (me_Outcome m)\<rparr>\<rparr>))) \<and>
   (mset ms' = mset ms \<longrightarrow>
     (if resolvable ms then Resolve ms' reference = Resolve ms reference
      else rs_Outcome (Resolve ms' reference) = GroupInvalid))"
proof (intro conjI impI)
  show "\<exists>i e. i < length ms \<and> resolvable (take i ms) \<and> \<not> resolvable (take (Suc i) ms) \<and>
      ge_Member e = me_Repository (ms ! i) \<and> Resolve ms reference = unresolved reference\<lparr>rs_Err := Some e\<rparr>"
    if "\<not> resolvable ms" using that by (rule Resolve_refused)
  show "if resolvable ms then Resolve ms' reference = Resolve ms reference
      else rs_Outcome (Resolve ms' reference) = GroupInvalid" if eq: "mset ms' = mset ms"
  proof (cases "resolvable ms")
    case True
    then have "resolvable ms'" by (rule resolvable_mset [OF eq])
    moreover have "sort_key me_Position ms' = sort_key me_Position ms"
      using sort_key_unique [OF eq [symmetric] resolvable_inj(2) [OF True]] by simp
    ultimately show ?thesis using True by (simp add: Resolve_eq)
  next
    case False
    then have "\<not> resolvable ms'" using resolvable_mset [OF eq [symmetric]] by blast
    from Resolve_refused [OF this, of reference] show ?thesis using False by (auto simp: unresolved_def)
  qed
qed (rule Resolve_decided)

definition sample_members :: "MemberState list" where
  "sample_members =
    [\<lparr>me_Repository = ''hub'', me_Content = ''hub/nginx'', me_Type = Proxy, me_Position = 2, me_Required = False, me_Outcome = MemberServed\<rparr>,
     \<lparr>me_Repository = ''own'', me_Content = ''own/nginx'', me_Type = Hosted, me_Position = 1, me_Required = False, me_Outcome = MemberDown\<rparr>]"

lemma sample_resolvable: "resolvable sample_members"
  by code_simp

lemma sample_unresolvable: "\<not> resolvable (sample_members @ [(hd sample_members)\<lparr>me_Position := 3\<rparr>])"
  by code_simp

theorem group_resolution_exact_witness:
  "rs_Outcome (Resolve sample_members ''v1'') = GroupServed \<and> rs_Member (Resolve sample_members ''v1'') = ''hub'' \<and>
    Resolve (rev sample_members) ''v1'' = Resolve sample_members ''v1'' \<and>
    rs_Outcome (Resolve (sample_members @ [(hd sample_members)\<lparr>me_Position := 3\<rparr>]) ''v1'') = GroupInvalid"
proof -
  let ?m = "hd sample_members"
  have "decides sample_members ?m \<and> me_Outcome ?m = MemberServed \<and> me_Repository ?m = ''hub'' \<and>
      \<not> (\<forall>m \<in> set sample_members. passes m)" by code_simp
  note m = this [THEN conjunct1] this [THEN conjunct2, THEN conjunct1] this [THEN conjunct2, THEN conjunct2, THEN conjunct1]
    this [THEN conjunct2, THEN conjunct2, THEN conjunct2]
  from group_resolution_exact [of sample_members "''v1''", THEN conjunct2, THEN conjunct1, rule_format,
      OF sample_resolvable, unfolded if_not_P [OF m(4)]] m(1)
  obtain before where "Resolve sample_members ''v1'' = unresolved ''v1''\<lparr>rs_Outcome := GroupServed,
      rs_Member := me_Repository ?m, rs_Position := me_Position ?m, rs_Skipped := before\<rparr>"
    using m(2) by (auto simp: Let_def)
  then have "rs_Outcome (Resolve sample_members ''v1'') = GroupServed" "rs_Member (Resolve sample_members ''v1'') = ''hub''"
    using m(3) by simp_all
  moreover have "Resolve (rev sample_members) ''v1'' = Resolve sample_members ''v1''"
    using group_resolution_exact [of sample_members "''v1''" "rev sample_members", THEN conjunct2, THEN conjunct2]
      sample_resolvable by simp
  moreover have "rs_Outcome (Resolve (sample_members @ [?m\<lparr>me_Position := 3\<rparr>]) ''v1'') = GroupInvalid"
    using group_resolution_exact [of "sample_members @ [?m\<lparr>me_Position := 3\<rparr>]" "''v1''", THEN conjunct1]
      sample_unresolvable by (auto simp: unresolved_def)
  ultimately show ?thesis by blast
qed

section \<open>What routing rules admit\<close>

lemma compile_scopes_Inr:
  "compile_scopes field ps = Inr scopes \<longleftrightarrow> scopes = ps \<and> (\<forall>p \<in> set ps. scope_form p \<and> p \<noteq> SystemScope)"
  by (induction ps arbitrary: scopes) (auto simp: ParseScope_eq split: sum.splits if_splits)

text \<open>A proxy admits a remainder that is a legal name exactly when no block pattern covers it and, under
  default-deny, some allow pattern does; a remainder that is not a legal name is refused, whatever the default.\<close>

lemma routing_exact:
  assumes "CompileRoutingRules cfg = Inr rules"
  shows "(\<exists>d. Evaluate_routing rules remainder = Inr d \<and> rd_Allowed d) \<longleftrightarrow>
    Valid_name remainder \<and> \<not> (\<exists>p \<in> set (px_Block cfg). covers_name p remainder) \<and>
    (px_DefaultDeny cfg \<longrightarrow> (\<exists>p \<in> set (px_Allow cfg). covers_name p remainder))"
proof -
  have rules: "rr_allow rules = px_Allow cfg" "rr_block rules = px_Block cfg" "rr_defaultDeny rules = px_DefaultDeny cfg"
    "\<forall>p \<in> set (px_Allow cfg) \<union> set (px_Block cfg). scope_form p"
    using assms by (auto simp: CompileRoutingRules_def compile_scopes_Inr split: sum.splits)
  show ?thesis
  proof (cases "Repository remainder")
    case (Inl e)
    then show ?thesis by (auto simp: Evaluate_routing_def Repository_def Valid_name_def split: option.splits)
  next
    case (Inr r)
    then have v: "Valid_name remainder" by (auto simp: Repository_def Valid_name_def split: option.splits)
    have cover: "Scope_Matches p r \<longleftrightarrow> covers_name p remainder" if "p \<in> set (px_Allow cfg) \<union> set (px_Block cfg)" for p
      using Scope_Matches_repository [OF Inr] that rules(4) by blast
    show ?thesis
      using Inr v cover
      by (auto simp: Evaluate_routing_def rules find_None_iff find_Some_iff split: option.splits if_splits)
  qed
qed

end
