(* ===== verification/Server_Access.thy ===== *)
theory Server_Access
  imports Authz Meta_Reachable
begin

text \<open>
  \<^verbatim>\<open>internal/server/bindings.go\<close> and \<^verbatim>\<open>internal/server/visibility.go\<close>: the bindings a decision is made on, fetched
  from the metadata store, and the visibility a listing runs under, compiled from the same bindings.
\<close>

section \<open>Bindings\<close>

text \<open>\<open>cache\<close> holds the roles already read; \<^term>\<open>None\<close> in it is the nil slice of a role that is gone.\<close>

definition binding_of :: "EffectiveBinding \<Rightarrow> Verb list \<Rightarrow> Binding" where
  "binding_of e roleVerbs =
    \<lparr>bd_ID = bi_ID (eb_Binding e), bd_Role = bi_Role (eb_Binding e), bd_Scope = bi_Scope (eb_Binding e),
     bd_Verbs = roleVerbs, bd_ViaGroup = eb_ViaGroup e\<rparr>"

fun fetch_loop ::
    "ctx_err option \<Rightarrow> Store \<Rightarrow> (string, Verb list option) fmap \<Rightarrow> EffectiveBinding list \<Rightarrow> merror + Binding list" where
  "fetch_loop ctx s cache [] = Inr []"
| "fetch_loop ctx s cache (e # es) =
    (let role = bi_Role (eb_Binding e) in
     case (case fmlookup cache role of
             Some roleVerbs \<Rightarrow> Inr (roleVerbs, cache)
           | None \<Rightarrow>
               (case GetRole ctx role s of
                  Inl (NotFound _ _) \<Rightarrow> Inr (None, fmupd role None cache)
                | Inl err \<Rightarrow> Inl err
                | Inr r \<Rightarrow> Inr (Some (ro_Verbs r), fmupd role (Some (ro_Verbs r)) cache))) of
       Inl err \<Rightarrow> Inl err
     | Inr (None, cache') \<Rightarrow> fetch_loop ctx s cache' es
     | Inr (Some roleVerbs, cache') \<Rightarrow>
         (case fetch_loop ctx s cache' es of
            Inl err \<Rightarrow> Inl err
          | Inr out \<Rightarrow> Inr (binding_of e roleVerbs # out)))"

definition FetchBindings :: "ctx_err option \<Rightarrow> string \<Rightarrow> Store \<Rightarrow> merror + Binding list" where
  "FetchBindings ctx subject s =
    (case ListEffectiveBindings ctx subject s of
       Inl err \<Rightarrow> Inl err
     | Inr bs \<Rightarrow>
         (case fetch_loop ctx s fmempty bs of
            Inl err \<Rightarrow> Inl err
          | Inr out \<Rightarrow> Inr (SortBindings out)))"

section \<open>Visibility\<close>

definition VisibilityFor :: "Binding list \<Rightarrow> Verb \<Rightarrow> Visibility" where
  "VisibilityFor bindings verb =
    VisibleTo (map (\<lambda>f. \<lparr>sf_All = fl_All f, sf_Exact = fl_Exact f, sf_Prefix = fl_Prefix f\<rparr>)
      (Filters (VisibleScopes bindings verb)))"

section \<open>What is fetched\<close>

definition granted :: "Store \<Rightarrow> EffectiveBinding \<Rightarrow> Binding option" where
  "granted s e = map_option (\<lambda>r. binding_of e (ro_Verbs r)) (fmlookup (st_roles s) (bi_Role (eb_Binding e)))"

text \<open>Reading each role once gives what reading it for every binding would.\<close>

lemma fetch_loop_eq:
  assumes "ctx = None" "\<not> st_closed s"
    and "\<forall>role v. fmlookup cache role = Some v \<longrightarrow> v = map_option ro_Verbs (fmlookup (st_roles s) role)"
  shows "fetch_loop ctx s cache es = Inr (List.map_filter (granted s) es)"
  using assms(3)
proof (induction es arbitrary: cache)
  case (Cons e es)
  let ?role = "bi_Role (eb_Binding e)"
  have read: "GetRole ctx ?role s = (case fmlookup (st_roles s) ?role of None \<Rightarrow> Inl (NotFound ''role'' ?role) | Some r \<Rightarrow> Inr r)"
    using assms(1,2) by (simp add: GetRole_def with_open_def checkOpen_def)
  have known: "fmlookup cache ?role = Some v \<Longrightarrow> v = map_option ro_Verbs (fmlookup (st_roles s) ?role)" for v
    using Cons.prems by blast
  have keep: "fetch_loop ctx s (fmupd ?role (map_option ro_Verbs (fmlookup (st_roles s) ?role)) cache) es = Inr (List.map_filter (granted s) es)"
    by (rule Cons.IH) (use Cons.prems in auto)
  note ih = Cons.IH [OF Cons.prems]
  have one: "granted s e = map_option (\<lambda>r. binding_of e (ro_Verbs r)) (fmlookup (st_roles s) ?role)" by (simp add: granted_def)
  show ?case
    by (cases "fmlookup cache ?role"; cases "fmlookup (st_roles s) ?role")
      (use known keep ih read in \<open>auto simp: Let_def map_filter_simps one\<close>)
qed (simp add: map_filter_simps)

lemma ListEffectiveBindings_open: "ListEffectiveBindings ctx subject s = Inr es \<Longrightarrow> ctx = None \<and> \<not> st_closed s"
  by (auto simp: ListEffectiveBindings_def with_open_def checkOpen_def split: option.splits if_splits)

lemma FetchBindings_eq:
  "FetchBindings ctx subject s =
    (case ListEffectiveBindings ctx subject s of
       Inl err \<Rightarrow> Inl err
     | Inr es \<Rightarrow> Inr (SortBindings (List.map_filter (granted s) es)))"
  by (auto simp: FetchBindings_def fetch_loop_eq dest: ListEffectiveBindings_open split: sum.split)

text \<open>A listing under the compiled visibility shows a repository exactly when the decision allows the verb on it.\<close>

definition store_filter :: "Filter \<Rightarrow> ScopeFilter" where
  "store_filter f = \<lparr>sf_All = fl_All f, sf_Exact = fl_Exact f, sf_Prefix = fl_Prefix f\<rparr>"

lemma store_filter_agrees: "ScopeFilter_Matches (store_filter f) n \<longleftrightarrow> Filter_Matches f n"
  by (auto simp: store_filter_def ScopeFilter_Matches_def Filter_Matches_def HasPrefix_iff) (metis append_take_drop_id)

interpretation store_compiler: scope_compiler "\<lambda>s. map_option store_filter (Scope_Filter s)" ScopeFilter_Matches
proof unfold_locales
  fix r :: Resource and s
  assume "res_kind r = resourceRepository"
  then show "(\<exists>f. map_option store_filter (Scope_Filter s) = Some f \<and> ScopeFilter_Matches f (res_name r)) \<longleftrightarrow> Scope_Matches s r"
    using Scope_Filter_agrees [of r s] by (cases "Scope_Filter s") (simp_all add: store_filter_agrees)
qed

lemma VisibilityFor_agrees:
  assumes "Valid_verb v" "Repository n = Inr r"
  shows "Visibility_Allows (VisibilityFor bs v) n \<longleftrightarrow> Allows bs v r"
proof -
  have "map store_filter (Filters ss) = List.map_filter (\<lambda>s. map_option store_filter (Scope_Filter s)) ss" for ss
    by (induction ss) (auto simp: Filters_def map_filter_simps split: option.split)
  then have "Visibility_Allows (VisibilityFor bs v) n \<longleftrightarrow> (\<exists>s \<in> set (VisibleScopes bs v). Scope_Matches s r)"
    using store_compiler.compiled_selects [OF assms(2), of "VisibleScopes bs v"]
    by (simp add: VisibilityFor_def Visibility_Allows_def VisibleTo_def list_ex_iff store_filter_def [abs_def])
  then show ?thesis using assms(1) by (auto simp: VisibleScopes_def Allows_iff Binding_Allows_def)
qed

end
