(* ===== verification/Group_Serve.thy ===== *)
theory Group_Serve
  imports Repo_Group Server_Access
begin

text \<open>
  \<^verbatim>\<open>internal/groupserve/groupserve.go\<close>: a read of a group. The stored members are filtered by what the subject may
  read, asked in position order until one serves, and resolved by \<^const>\<open>Resolve\<close>.

  The delegates that serve a member (a hosted or a proxy content server) are parameters: each takes a content name
  and the state of the rest of the world and returns its answer and the state after. They are partial: a missing
  one is \<^term>\<open>None\<close>. The four reads of the metadata store happen on one state of it.
\<close>

section \<open>Errors and delegates\<close>

datatype serve_error =
    ErrContentUnknown
  | ErrUpstreamUnavailable
  | ReadFailed merror
  | NoSubject
  | Unresolvable "GroupError option"
  | OtherFailure string

type_synonym ('w, 'a) ContentServer = "string \<Rightarrow> 'w \<Rightarrow> (serve_error + 'a) \<times> 'w"

record ('w, 'a) Members =
  mb_Hosted :: "('w, 'a) ContentServer option"
  mb_Proxy :: "('w, 'a) ContentServer option"

record skip_event =
  se_Group :: string
  se_Member :: string
  se_Reference :: string
  se_Reason :: string

section \<open>Asking\<close>

text \<open>\<open>sink\<close> moves one element left past the larger ones; the prefix is kept reversed.\<close>

fun sink :: "MemberState \<Rightarrow> MemberState list \<Rightarrow> MemberState list" where
  "sink x [] = [x]"
| "sink x (y # ys) = (if me_Position x < me_Position y then y # sink x ys else x # y # ys)"

definition sortByPosition :: "MemberState list \<Rightarrow> MemberState list" where
  "sortByPosition members = rev (fold sink members [])"

definition delegateFor :: "('w, 'a) Members \<Rightarrow> MemberState \<Rightarrow> ('w, 'a) ContentServer option" where
  "delegateFor members member =
    (if me_Type member = Hosted then mb_Hosted members
     else if me_Type member = Proxy then mb_Proxy members
     else None)"

definition outcomeOf :: "serve_error + 'a \<Rightarrow> MemberOutcome" where
  "outcomeOf answer =
    (case answer of
       Inr _ \<Rightarrow> MemberServed
     | Inl err \<Rightarrow> if err = ErrContentUnknown then MemberNotFound else MemberDown)"

fun ask_loop ::
    "('w, 'a) Members \<Rightarrow> MemberState list \<Rightarrow> (string, MemberOutcome) fmap \<Rightarrow> 'w \<Rightarrow>
     (string, MemberOutcome) fmap \<times> 'a option \<times> 'w" where
  "ask_loop members [] outcomes w = (outcomes, None, w)"
| "ask_loop members (member # rest) outcomes w =
    (case delegateFor members member of
       None \<Rightarrow> ask_loop members rest (fmupd (me_Repository member) MemberDown outcomes) w
     | Some delegate \<Rightarrow>
         (case delegate (me_Content member) w of (answer, w') \<Rightarrow>
            (let outcomes' = fmupd (me_Repository member) (outcomeOf answer) outcomes in
             case answer of
               Inr served \<Rightarrow> (outcomes', Some served, w')
             | Inl _ \<Rightarrow> ask_loop members rest outcomes' w')))"

definition askMembers ::
    "('w, 'a) Members \<Rightarrow> MemberState list \<Rightarrow> 'w \<Rightarrow> (string, MemberOutcome) fmap \<times> 'a option \<times> 'w" where
  "askMembers members visible w = ask_loop members (sortByPosition visible) fmempty w"

section \<open>Filtering\<close>

definition contentNameFor :: "string \<Rightarrow> string \<Rightarrow> string" where
  "contentNameFor member remainder = (if remainder = [] then member else member @ ''/'' @ remainder)"

definition typeOf :: "ctx_err option \<Rightarrow> string \<Rightarrow> Store \<Rightarrow> serve_error + string" where
  "typeOf ctx member s =
    (case GetRepository ctx member s of
       Inl err \<Rightarrow> Inl (ReadFailed err)
     | Inr row \<Rightarrow> Inr (rp_Type row))"

definition candidate :: "string \<Rightarrow> GroupMember \<Rightarrow> string \<Rightarrow> MemberState" where
  "candidate remainder member memberType =
    \<lparr>me_Repository = gm_Repository member, me_Content = contentNameFor (gm_Repository member) remainder,
     me_Type = memberType, me_Position = gm_Position member, me_Required = gm_Required member,
     me_Outcome = MemberUnasked\<rparr>"

fun candidates :: "ctx_err option \<Rightarrow> Store \<Rightarrow> string \<Rightarrow> GroupMember list \<Rightarrow> serve_error + MemberState list" where
  "candidates ctx s remainder [] = Inr []"
| "candidates ctx s remainder (member # stored) =
    (case typeOf ctx (gm_Repository member) s of
       Inl err \<Rightarrow> Inl err
     | Inr memberType \<Rightarrow>
         (case candidates ctx s remainder stored of
            Inl err \<Rightarrow> Inl err
          | Inr rest \<Rightarrow> Inr (candidate remainder member memberType # rest)))"

definition visibleMembers ::
    "ctx_err option \<Rightarrow> Store \<Rightarrow> string option \<Rightarrow> GroupMember list \<Rightarrow> string \<Rightarrow> serve_error + MemberSet" where
  "visibleMembers ctx s subject stored remainder =
    (case subject of
       None \<Rightarrow> Inl NoSubject
     | Some name \<Rightarrow>
         (case FetchBindings ctx name s of
            Inl err \<Rightarrow> Inl (ReadFailed err)
          | Inr bindings \<Rightarrow>
              (case candidates ctx s remainder stored of
                 Inl err \<Rightarrow> Inl err
               | Inr cs \<Rightarrow> Inr (VisibleMembers cs bindings))))"

section \<open>Resolving\<close>

definition publishSkips :: "string \<Rightarrow> Resolution \<Rightarrow> skip_event list" where
  "publishSkips grp resolution =
    map (\<lambda>k. \<lparr>se_Group = grp, se_Member = sk_Repository k, se_Reference = rs_Reference resolution,
              se_Reason = sk_Reason k\<rparr>) (rs_Skipped resolution)"

text \<open>What asking and resolving a filtered set gives: the error of \<^verbatim>\<open>resolve\<close>, if any, what the attempts left in
  \<^verbatim>\<open>served\<close>, the events, and the world.\<close>

definition resolve_visible ::
    "('w, 'a) Members \<Rightarrow> string \<Rightarrow> string \<Rightarrow> MemberSet \<Rightarrow> 'w \<Rightarrow> serve_error option \<times> 'a option \<times> skip_event list \<times> 'w" where
  "resolve_visible members name reference visible w =
    (case askMembers members (Members_of visible) w of (outcomes, served, w') \<Rightarrow>
       (let resolution = Resolve (With visible outcomes) reference
        in (case rs_Outcome resolution of
              GroupServed \<Rightarrow> None
            | GroupNotFound \<Rightarrow> Some ErrContentUnknown
            | GroupUnavailable \<Rightarrow> Some ErrUpstreamUnavailable
            | GroupInvalid \<Rightarrow> Some (Unresolvable (rs_Err resolution)),
            served, publishSkips name resolution, w')))"

definition resolve_group ::
    "ctx_err option \<Rightarrow> Store \<Rightarrow> string option \<Rightarrow> ('w, 'a) Members \<Rightarrow> string \<Rightarrow> string \<Rightarrow> 'w \<Rightarrow>
     serve_error option \<times> 'a option \<times> skip_event list \<times> 'w" where
  "resolve_group ctx s subject members name reference w =
    (case Split name of
       Inl _ \<Rightarrow> (Some ErrContentUnknown, None, [], w)
     | Inr (grp, remainder) \<Rightarrow>
         (case GetRepository ctx grp s of
            Inl (NotFound _ _) \<Rightarrow> (Some ErrContentUnknown, None, [], w)
          | Inl err \<Rightarrow> (Some (ReadFailed err), None, [], w)
          | Inr row \<Rightarrow>
              if rp_Type row \<noteq> Group then (Some ErrContentUnknown, None, [], w)
              else
                (case ListGroupMembers ctx grp s of
                   Inl err \<Rightarrow> (Some (ReadFailed err), None, [], w)
                 | Inr stored \<Rightarrow>
                     (case visibleMembers ctx s subject stored remainder of
                        Inl err \<Rightarrow> (Some err, None, [], w)
                      | Inr visible \<Rightarrow> resolve_visible members name reference visible w))))"

text \<open>\<^verbatim>\<open>Manifest\<close> returns what the last successful attempt left, the zero value being \<^term>\<open>None\<close>; \<^verbatim>\<open>Blob\<close> also closes
  a stream it does not return.\<close>

definition Manifest_group ::
    "ctx_err option \<Rightarrow> Store \<Rightarrow> string option \<Rightarrow> ('w, 'a) Members \<Rightarrow> string \<Rightarrow> string \<Rightarrow> 'w \<Rightarrow>
     (serve_error + 'a option) \<times> skip_event list \<times> 'w" where
  "Manifest_group ctx s subject members name reference w =
    (case resolve_group ctx s subject members name reference w of (err, served, events, w') \<Rightarrow>
       (case err of Some e \<Rightarrow> Inl e | None \<Rightarrow> Inr served, events, w'))"

definition Blob_group ::
    "('a \<Rightarrow> 'w \<Rightarrow> 'w) \<Rightarrow> ctx_err option \<Rightarrow> Store \<Rightarrow> string option \<Rightarrow> ('w, 'a) Members \<Rightarrow> string \<Rightarrow> string \<Rightarrow> 'w \<Rightarrow>
     (serve_error + 'a option) \<times> skip_event list \<times> 'w" where
  "Blob_group close ctx s subject members name digest w =
    (case resolve_group ctx s subject members name digest w of (err, served, events, w') \<Rightarrow>
       (case err of
          Some e \<Rightarrow> (Inl e, events, case served of Some content \<Rightarrow> close content w' | None \<Rightarrow> w')
        | None \<Rightarrow> (Inr served, events, w')))"

section \<open>What a read discloses\<close>

lemma sink_props:
  "mset (sink x ys) = add_mset x (mset ys)"
  "sorted (rev (map me_Position ys)) \<Longrightarrow> sorted (rev (map me_Position (sink x ys)))"
proof -
  show m: "mset (sink x ys) = add_mset x (mset ys)" for ys by (induction ys) auto
  have set_sink: "set (sink x ys) = insert x (set ys)" for ys using arg_cong [OF m, of set_mset] by simp
  show "sorted (rev (map me_Position (sink x ys)))" if "sorted (rev (map me_Position ys))"
    using that by (induction ys) (auto simp: sorted_append set_sink less_imp_le not_less)
qed

lemma sink_stable: "filter (\<lambda>y. k = me_Position y) (sink x ys) = filter (\<lambda>y. k = me_Position y) (x # ys)"
  if "sorted (rev (map me_Position ys))"
  using that by (induction ys) (auto simp: sorted_append)

lemma sortByPosition_eq: "sortByPosition ms = sort_key me_Position ms"
proof (rule properties_for_sort_key [symmetric])
  have "mset (fold sink ms acc) = mset ms + mset acc \<and>
      (sorted (rev (map me_Position acc)) \<longrightarrow> sorted (rev (map me_Position (fold sink ms acc))) \<and>
       (\<forall>k. filter (\<lambda>y. k = me_Position y) (fold sink ms acc) = rev (filter (\<lambda>y. k = me_Position y) ms) @ filter (\<lambda>y. k = me_Position y) acc))"
    for acc
  proof (induction ms arbitrary: acc)
    case (Cons m ms)
    show ?case using Cons [of "sink m acc"] sink_props(1) [of m acc] sink_props(2) [of acc m] sink_stable [of acc _ m] by auto
  qed simp
  from this [of "[]"] have f: "mset (fold sink ms []) = mset ms" "sorted (rev (map me_Position (fold sink ms [])))"
    "\<And>k. filter (\<lambda>y. k = me_Position y) (fold sink ms []) = rev (filter (\<lambda>y. k = me_Position y) ms)" by simp_all
  show "mset (sortByPosition ms) = mset ms" using f(1) by (simp add: sortByPosition_def)
  show "filter (\<lambda>x. me_Position k = me_Position x) (sortByPosition ms) = filter (\<lambda>x. me_Position k = me_Position x) ms" for k
    using f(3) [of "me_Position k"] by (simp add: sortByPosition_def rev_filter [symmetric])
  show "sorted (map me_Position (sortByPosition ms))" using f(2) by (simp add: sortByPosition_def rev_map)
qed

definition member_readable :: "Binding list \<Rightarrow> string \<Rightarrow> GroupMember \<Rightarrow> bool" where
  "member_readable bindings remainder g \<longleftrightarrow> readable bindings (candidate remainder g [])"

lemma readable_candidate [simp]: "readable bindings (candidate remainder g t) \<longleftrightarrow> member_readable bindings remainder g"
  by (simp add: member_readable_def readable_def candidate_def)

definition type_in :: "Store \<Rightarrow> string \<Rightarrow> string" where
  "type_in s name = rp_Type (the (fmlookup (st_repos s) name))"

lemma candidates_eq:
  assumes "\<not> st_closed s" "\<forall>g \<in> set stored. repoExists s (gm_Repository g)"
  shows "candidates None s remainder stored = Inr (map (\<lambda>g. candidate remainder g (type_in s (gm_Repository g))) stored)"
  using assms(2)
proof (induction stored)
  case (Cons g stored)
  then obtain row where "fmlookup (st_repos s) (gm_Repository g) = Some row" by (auto simp: repoExists_def)
  then have "typeOf None (gm_Repository g) s = Inr (type_in s (gm_Repository g))"
    using assms(1) by (simp add: typeOf_def GetRepository_def with_open_def checkOpen_def type_in_def)
  then show ?case using Cons by simp
qed simp

lemma visibleMembers_eq:
  assumes "\<not> st_closed s" "\<forall>g \<in> set stored. repoExists s (gm_Repository g)" "FetchBindings None subject s = Inr bindings"
  shows "visibleMembers None s (Some subject) stored remainder =
    Inr (map (\<lambda>g. candidate remainder g (type_in s (gm_Repository g))) (filter (member_readable bindings remainder) stored))"
  using assms by (simp add: visibleMembers_def candidates_eq VisibleMembers_def filter_map comp_def)

lemma stored_members:
  assumes "reachable s" "ListGroupMembers None grp s = Inr stored"
  shows "\<not> st_closed s" "\<forall>g \<in> set stored. repoExists s (gm_Repository g) \<and> \<not> has_type s (gm_Repository g) Group"
    "sorted_wrt (<) (map gm_Position stored)" "length (filter gm_WriteTarget stored) \<le> 1"
proof -
  show "\<not> st_closed s" using assms(2) by (auto simp: ListGroupMembers_def with_open_def checkOpen_def split: if_splits)
  then have "stored = [] \<or> fmlookup (st_members s) grp = Some stored"
    using assms(2) by (auto simp: ListGroupMembers_def with_open_def checkOpen_def split: if_splits option.splits)
  then show "\<forall>g \<in> set stored. repoExists s (gm_Repository g) \<and> \<not> has_type s (gm_Repository g) Group"
    "sorted_wrt (<) (map gm_Position stored)" "length (filter gm_WriteTarget stored) \<le> 1"
    using fmpredD [OF reachable_inv(2) [OF assms(1), unfolded inv_members_def]] by auto
qed

lemma check_members_accepts:
  "\<forall>g \<in> set ms. repoExists s (gm_Repository g) \<and> \<not> has_type s (gm_Repository g) Group \<and> gm_Repository g \<noteq> grp \<Longrightarrow>
    distinct (map gm_Position ms) \<Longrightarrow> set seen \<inter> gm_Position ` set ms = {} \<Longrightarrow>
    check_members s grp seen n ms = Inr (n + length (filter gm_WriteTarget ms))"
  by (induction ms arbitrary: seen n) (auto simp: repoExists_def has_type_def)

lemma SetGroupMembers_subset:
  assumes "reachable s" "ListGroupMembers None grp s = Inr stored" "has_type s grp Group"
  shows "SetGroupMembers None grp (filter P stored) s = Inr (s\<lparr>st_members := fmupd grp (filter P stored) (st_members s)\<rparr>)"
proof -
  note st = stored_members [OF assms(1,2)]
  have sorted: "sorted_wrt (<) (map gm_Position (filter P stored))"
    using st(3) by (simp add: sorted_wrt_map sorted_wrt_filter)
  have "filter gm_WriteTarget (filter P stored) = filter P (filter gm_WriteTarget stored)" by (simp add: conj_commute)
  then have one: "length (filter gm_WriteTarget (filter P stored)) \<le> 1"
    using order_trans [OF length_filter_le st(4), of P] by simp
  obtain row where "fmlookup (st_repos s) grp = Some row" "rp_Type row = Group"
    using assms(3) by (auto simp: has_type_def split: option.splits)
  moreover have "check_members s grp [] 0 (filter P stored) = Inr (0 + length (filter gm_WriteTarget (filter P stored)))"
    using st(2) assms(3) sorted by (intro check_members_accepts) (auto simp: strict_sorted_iff)
  moreover have "sort_key gm_Position (filter P stored) = filter P stored"
    using sorted by (simp add: strict_sorted_iff sort_key_id_if_sorted)
  ultimately show ?thesis using st(1) one by (simp add: SetGroupMembers_def with_open_def checkOpen_def del: filter_filter)
qed

lemma FetchBindings_members:
  "FetchBindings ctx subject (s\<lparr>st_members := m\<rparr>) = FetchBindings ctx subject s"
proof -
  have "ListEffectiveBindings ctx subject (s\<lparr>st_members := m\<rparr>) = ListEffectiveBindings ctx subject s"
    by (simp add: ListEffectiveBindings_def with_open_def checkOpen_def group_ids_def group_named_def cong: if_cong split: option.split)
  moreover have "granted (s\<lparr>st_members := m\<rparr>) = granted s" by (simp add: fun_eq_iff granted_def)
  ultimately show ?thesis by (simp add: FetchBindings_eq split: sum.split)
qed

lemma resolve_group_eq:
  assumes "reachable s" "Split name = Inr (grp, remainder)" "has_type s grp Group"
    and "ListGroupMembers None grp s = Inr stored" "FetchBindings None subject s = Inr bindings"
  shows "resolve_group None s (Some subject) members name reference w =
    resolve_visible members name reference
      (map (\<lambda>g. candidate remainder g (type_in s (gm_Repository g))) (filter (member_readable bindings remainder) stored)) w"
proof -
  note st = stored_members [OF assms(1,4)]
  obtain row where "GetRepository None grp s = Inr row" "rp_Type row = Group"
    using assms(3) st(1) by (auto simp: GetRepository_def with_open_def checkOpen_def has_type_def split: option.splits)
  then show ?thesis
    using assms(2,4) visibleMembers_eq [OF st(1) _ assms(5)] st(2) by (simp add: resolve_group_def)
qed

text \<open>C6: A group discloses nothing about members the subject cannot read. On a reachable store, take out of a
  group's stored list every member whose content the subject's bindings do not let it read: the list is accepted,
  and every read of the group by that subject then gives the same answer, publishes the same events and leaves the
  world in the same state as before, whatever the delegates do. The hidden members are not asked, not waited for
  and not named; what remains looks like a group configured without them.\<close>

theorem group_hides_unreadable_members:
  assumes "reachable s" "Split name = Inr (grp, remainder)" "has_type s grp Group"
    and "ListGroupMembers None grp s = Inr stored" "FetchBindings None subject s = Inr bindings"
  shows "\<exists>s'. SetGroupMembers None grp (filter (member_readable bindings remainder) stored) s = Inr s' \<and>
    Manifest_group None s' (Some subject) members name reference w = Manifest_group None s (Some subject) members name reference w \<and>
    Blob_group close None s' (Some subject) members name reference w = Blob_group close None s (Some subject) members name reference w"
proof -
  let ?kept = "filter (member_readable bindings remainder) stored"
  let ?s = "s\<lparr>st_members := fmupd grp ?kept (st_members s)\<rparr>"
  have set: "SetGroupMembers None grp ?kept s = Inr ?s" by (rule SetGroupMembers_subset [OF assms(1,4,3)])
  then have r: "reachable ?s" by (rule reachable.call [OF assms(1) store_step.content [OF content_step.set_members]])
  have ht: "has_type ?s grp Group" using assms(3) by (simp add: has_type_def)
  have lg: "ListGroupMembers None grp ?s = Inr ?kept"
    using assms(4) by (auto simp: ListGroupMembers_def with_open_def checkOpen_def split: if_splits)
  have fb: "FetchBindings None subject ?s = Inr bindings" using assms(5) by (simp add: FetchBindings_members)
  have "resolve_group None ?s (Some subject) members name reference w =
      resolve_visible members name reference
        (map (\<lambda>g. candidate remainder g (type_in ?s (gm_Repository g))) (filter (member_readable bindings remainder) ?kept)) w"
    by (rule resolve_group_eq [OF r assms(2) ht lg fb])
  also have "\<dots> = resolve_group None s (Some subject) members name reference w"
    unfolding resolve_group_eq [OF assms] by (simp add: type_in_def)
  finally show ?thesis using set by (simp add: Manifest_group_def Blob_group_def)
qed

section \<open>A group\<close>

text \<open>Calls run one after the other, stopping at the first error.\<close>

fun calls :: "(Store \<Rightarrow> merror + Store) list \<Rightarrow> Store \<Rightarrow> merror + Store" where
  "calls [] s = Inr s"
| "calls (f # fs) s = (case f s of Inl e \<Rightarrow> Inl e | Inr s' \<Rightarrow> calls fs s')"

lemma calls_reachable:
  "calls fs s = Inr s' \<Longrightarrow> reachable s \<Longrightarrow> \<forall>f \<in> set fs. \<forall>s s'. f s = Inr s' \<longrightarrow> store_step s s' \<Longrightarrow> reachable s'"
proof (induction fs arbitrary: s)
  case (Cons f fs)
  then obtain t where "f s = Inr t" "calls fs t = Inr s'" by (auto split: sum.splits)
  then show ?case using Cons reachable.call by (metis list.set_intros)
qed simp

definition entity :: "string \<Rightarrow> string \<Rightarrow> Repository_meta" where
  "entity name type = \<lparr>rp_Name = name, rp_Type = type, rp_Config = Some ''{}'', rp_ConfigVersion = 1, rp_CreatedAt = 1, rp_UpdatedAt = 1\<rparr>"

definition create :: "Repository_meta \<Rightarrow> Store \<Rightarrow> merror + Store" where
  "create row s = map_sum id snd (CreateRepository None row s)"

text \<open>A group over a hosted and a proxy repository, and an anonymous subject who may read the proxy only.\<close>

definition group_calls :: "(Store \<Rightarrow> merror + Store) list" where
  "group_calls =
    [create (entity ''own'' Hosted), create (entity ''hub'' Proxy), create (entity ''all'' Group),
     SetGroupMembers None ''all''
       [\<lparr>gm_Repository = ''own'', gm_Position = 1, gm_Required = True, gm_WriteTarget = False\<rparr>,
        \<lparr>gm_Repository = ''hub'', gm_Position = 2, gm_Required = False, gm_WriteTarget = False\<rparr>],
     PutBuiltinRole None \<lparr>ro_Name = ''reader'', ro_Builtin = True, ro_Verbs = [RepoRead]\<rparr>,
     CreateBinding None \<lparr>bi_ID = ''b1'', bi_PrincipalKind = PrincipalSubject, bi_PrincipalID = AnonymousSubjectID,
       bi_Role = ''reader'', bi_Scope = ''hub/*'', bi_CreatedAt = 1\<rparr>]"

definition group_store :: Store where
  "group_store = (case calls group_calls New of Inl _ \<Rightarrow> New | Inr s \<Rightarrow> s)"

lemma group_calls_succeed: "calls group_calls New = Inr group_store"
proof -
  have "\<not> isl (calls group_calls New)" by code_simp
  then show ?thesis by (cases "calls group_calls New") (simp_all add: group_store_def)
qed

lemma create_step: "create row s = Inr s' \<Longrightarrow> store_step s s'"
  by (cases "CreateRepository None row s")
    (auto simp: create_def intro: store_step.content [OF content_step.create_repository])

lemma group_store_reachable: "reachable group_store"
proof (rule calls_reachable [OF group_calls_succeed reachable.fresh])
  show "\<forall>f \<in> set group_calls. \<forall>s s'. f s = Inr s' \<longrightarrow> store_step s s'"
    by (auto simp: group_calls_def intro: create_step store_step.content [OF content_step.set_members]
        store_step.identity [OF identity_step.put_builtin_role] store_step.identity [OF identity_step.create_binding])
qed

definition group_bindings :: "Binding list" where
  "group_bindings = [\<lparr>bd_ID = ''b1'', bd_Role = ''reader'', bd_Scope = ''hub/*'', bd_Verbs = [RepoRead], bd_ViaGroup = []\<rparr>]"

definition own_member :: GroupMember where
  "own_member = \<lparr>gm_Repository = ''own'', gm_Position = 1, gm_Required = True, gm_WriteTarget = False\<rparr>"

definition hub_member :: GroupMember where
  "hub_member = \<lparr>gm_Repository = ''hub'', gm_Position = 2, gm_Required = False, gm_WriteTarget = False\<rparr>"

lemma group_store_type: "has_type group_store ''all'' Group"
proof -
  have "map_option rp_Type (fmlookup (st_repos group_store) ''all'') = Some Group" by code_simp
  then show ?thesis by (auto simp: has_type_def)
qed

lemma group_store_reads:
  "Split ''all/nginx'' = Inr (''all'', ''nginx'')"
  "ListGroupMembers None ''all'' group_store = Inr [own_member, hub_member]"
  "FetchBindings None AnonymousSubjectName group_store = Inr group_bindings"
  "filter (member_readable group_bindings ''nginx'') [own_member, hub_member] = [hub_member]"
  by code_simp+

text \<open>Delegates that answer nothing when asked for a hosted member and serve every proxy member.\<close>

definition sample_delegates :: "(string list, string) Members" where
  "sample_delegates = \<lparr>mb_Hosted = Some (\<lambda>content w. (Inl ErrUpstreamUnavailable, w @ [content])),
     mb_Proxy = Some (\<lambda>content w. (Inr content, w @ [content]))\<rparr>"

theorem group_hides_unreadable_members_witness:
  "\<exists>s'. SetGroupMembers None ''all'' [hub_member] group_store = Inr s' \<and>
    Manifest_group None s' (Some AnonymousSubjectName) sample_delegates ''all/nginx'' ''v1'' [] =
      Manifest_group None group_store (Some AnonymousSubjectName) sample_delegates ''all/nginx'' ''v1'' [] \<and>
    Manifest_group None group_store (Some AnonymousSubjectName) sample_delegates ''all/nginx'' ''v1'' [] =
      (Inr (Some ''hub/nginx''), [], [''hub/nginx''])"
proof -
  have "Manifest_group None group_store (Some AnonymousSubjectName) sample_delegates ''all/nginx'' ''v1'' [] =
      (Inr (Some ''hub/nginx''), [], [''hub/nginx''])" by code_simp
  then show ?thesis
    using group_hides_unreadable_members [OF group_store_reachable group_store_reads(1) group_store_type group_store_reads(2,3), of sample_delegates "''v1''" "[]"]
      group_store_reads(4) by auto
qed

text \<open>A list that names one member at two positions is stored without complaint, and every read of the group by a
  subject who may read that member then fails as unresolvable.\<close>

lemma repeated_member_breaks_reads:
  assumes "reachable s" "Split name = Inr (grp, remainder)" "has_type s grp Group"
    and "ListGroupMembers None grp s = Inr stored" "FetchBindings None subject s = Inr bindings"
    and "\<not> distinct (map gm_Repository (filter (member_readable bindings remainder) stored))"
  shows "\<exists>e events w'. Manifest_group None s (Some subject) members name reference w = (Inl (Unresolvable e), events, w')"
proof -
  let ?v = "map (\<lambda>g. candidate remainder g (type_in s (gm_Repository g))) (filter (member_readable bindings remainder) stored)"
  have "map me_Repository (With vs outcomes) = map me_Repository vs" for vs outcomes
    by (simp add: With_def split: option.split)
  moreover have "map me_Repository ?v = map gm_Repository (filter (member_readable bindings remainder) stored)"
    by (simp add: candidate_def)
  ultimately have "\<not> resolvable (With ?v outcomes)" for outcomes using assms(6) unfolding resolvable_def by metis
  then have "rs_Outcome (Resolve (With ?v outcomes) reference) = GroupInvalid" for outcomes using Resolve_invalid by blast
  then show ?thesis
    unfolding Manifest_group_def resolve_group_eq [OF assms(1-5)] resolve_visible_def
    by (cases "askMembers members (Members_of ?v) w") (simp add: Let_def)
qed

text \<open>A group that answers without error has the answer of a member to give.\<close>

lemma ask_loop_served:
  "ask_loop members ms outcomes w = (outcomes', served, w') \<Longrightarrow> MemberServed \<notin> fmran' outcomes \<Longrightarrow>
    MemberServed \<in> fmran' outcomes' \<Longrightarrow> served \<noteq> None"
proof (induction ms arbitrary: outcomes w)
  case (Cons m ms)
  have upd: "MemberServed \<notin> fmran' (fmupd k v outcomes)" if "v \<noteq> MemberServed" for k v
    using that Cons.prems(2) by (auto simp: fmran'_alt_def fmlookup_ran_iff split: if_splits)
  show ?case
  proof (cases "delegateFor members m")
    case None
    then show ?thesis using Cons upd [of MemberDown] by simp
  next
    case (Some delegate)
    obtain a v where a: "delegate (me_Content m) w = (a, v)" by fastforce
    show ?thesis
    proof (cases a)
      case (Inl e)
      then have "outcomeOf a \<noteq> MemberServed" by (simp add: outcomeOf_def)
      then show ?thesis using Cons upd [of "outcomeOf a"] Some a Inl by (simp add: Let_def)
    next
      case (Inr x)
      then show ?thesis using Cons.prems Some a by (auto simp: Let_def)
    qed
  qed
qed simp

lemma group_answer_present:
  assumes "resolve_visible members name reference visible w = (None, served, events, w')"
    and "\<forall>m \<in> set visible. me_Outcome m = MemberUnasked"
  shows "served \<noteq> None"
proof -
  obtain outcomes where ask: "ask_loop members (sortByPosition visible) fmempty w = (outcomes, served, w')"
    and out: "rs_Outcome (Resolve (With visible outcomes) reference) = GroupServed"
    using assms(1) by (auto simp: resolve_visible_def askMembers_def Members_of_def Let_def split: prod.splits GroupOutcome.splits)
  then have "resolvable (With visible outcomes)" using Resolve_invalid by fastforce
  then obtain m where "m \<in> set (With visible outcomes)" "me_Outcome m = MemberServed"
    using out by (cases rule: Resolve_cases [of _ reference]) (auto simp: decides_def)
  then have "MemberServed \<in> fmran' outcomes"
    using assms(2) by (auto simp: With_def fmlookup_ran'_iff split: option.splits)
  then show ?thesis using ask_loop_served [OF ask] by (simp add: fmlookup_ran'_iff)
qed

end
