(* ===== verification/Spec2Isabelle.thy ===== *)
theory Spec2Isabelle
  imports Authz Meta_Listing Meta_Access GC_Live Policy_Retention Group_Serve
begin

text \<open>
  Verification of trove, a container registry.
\<close>

end
